(* ===== verification/FVM_Prelude.thy ===== *)
theory FVM_Prelude
  imports Main "HOL-Library.Word"
begin

text \<open>
  Shared vocabulary of the development: the integer types of
  \<^verbatim>\<open>src/fastvm/libevmjit/Type.h\<close>, the collections of rewrite rules the component
  theories feed, and the generic facts on words and byte strings they share.

  \<^item> \<open>i64\<close>, \<open>i128\<close> and \<open>i256\<close> are the LLVM integer types \<open>Size\<close>/\<open>Gas\<close>, \<open>Word\<close> and
    \<open>Word256\<close>/\<open>Address\<close>; signed readings go through \<^term>\<open>sint\<close>.
  \<^item> \<open>be_bytes n w\<close> are the \<open>n\<close> least significant bytes of \<open>w\<close>, most significant first,
    and \<open>be_word bs\<close> is the number such a byte string denotes.
\<close>

type_synonym byte = "8 word"
type_synonym i64 = "64 word"
type_synonym i128 = "128 word"
type_synonym i256 = "256 word"

named_theorems width_simps \<open>casts between the integer widths of the generated code\<close>
named_theorems gas_simps \<open>facts about the signed 64-bit gas counter\<close>
named_theorems codec_simps \<open>round trips of the byte codecs\<close>
named_theorems uniform_intros \<open>programs whose shape does not depend on run-time values\<close>


section \<open>Words\<close>

text \<open>The signed reading of the integers of the generated code, and its range.\<close>

lemma sint64_range:
  fixes w :: i64
  shows "- (2 ^ 63) \<le> sint w" "sint w < 2 ^ 63"
  using sint_greater_eq [of w] sint_less [of w] by simp_all

lemma sint64_nonneg_uint:
  fixes w :: i64
  assumes "0 \<le> sint w"
  shows "sint w = uint w"
  using assms sint64_range [of w] by (simp add: uint_sint take_bit_int_eq_self)

lemma sint64_small:
  fixes w :: i64
  assumes "uint w < 2 ^ 63"
  shows "sint w = uint w"
proof -
  have "- (2 ^ 63) \<le> uint w" by (rule order_trans [of _ 0]) simp_all
  with assms show ?thesis by (simp add: sint_uint signed_take_bit_int_eq_self)
qed

lemma sint64_of_int:
  assumes "- (2 ^ 63) \<le> n" "n < 2 ^ 63"
  shows "sint (word_of_int n :: i64) = n"
  using assms by (simp add: sint_sbintrunc' signed_take_bit_int_eq_self)

lemma sint64_diff:
  fixes a b :: i64
  assumes "- (2 ^ 63) \<le> sint a - sint b" "sint a - sint b < 2 ^ 63"
  shows "sint (a - b) = sint a - sint b"
  using assms by (simp add: sint_word_diff signed_take_bit_int_eq_self)

lemma sint64_add:
  fixes a b :: i64
  assumes "- (2 ^ 63) \<le> sint a + sint b" "sint a + sint b < 2 ^ 63"
  shows "sint (a + b) = sint a + sint b"
  using assms by (simp add: sint_word_add signed_take_bit_int_eq_self)

lemma sint64_diff_nonneg [gas_simps]:
  fixes a b :: i64
  assumes "0 \<le> sint a" "0 \<le> sint b"
  shows "sint (a - b) = sint a - sint b"
  using assms sint64_range [of a] sint64_range [of b] by (intro sint64_diff) auto

lemma sint64_inj: "sint (a :: i64) = sint b \<longleftrightarrow> a = b"
  by (metis scast_id of_int_sint)


lemma unat_dec: "w \<noteq> 0 \<Longrightarrow> unat (w - 1 :: 'a::len word) = unat w - 1"
  by (simp add: unat_minus_one)

lemma unat_dec_less: "w \<noteq> 0 \<Longrightarrow> unat (w - 1 :: 'a::len word) < unat w"
  by (simp add: unat_dec unat_gt_0)

lemma unat_drop_bit: "unat (drop_bit n (w :: 'a::len word)) = unat w div 2 ^ n"
  by (simp add: unsigned_drop_bit_eq take_bit_nat_eq_self unsigned_less flip: drop_bit_eq_div)

lemma unat_half_less: "w \<noteq> 0 \<Longrightarrow> unat (drop_bit (Suc 0) (w :: 'a::len word)) < unat w"
  by (simp add: unat_drop_bit unat_gt_0)

lemma word_eq_of_natI: "unat w = n \<Longrightarrow> (w :: 'a::len word) = of_nat n"
  by (metis of_nat_unat ucast_id)


section \<open>Byte strings\<close>

primrec be_bytes :: "nat \<Rightarrow> 'a::len word \<Rightarrow> byte list" where
  "be_bytes 0 w = []"
| "be_bytes (Suc n) w = be_bytes n (drop_bit 8 w) @ [ucast w]"

definition be_word :: "byte list \<Rightarrow> 'a::len word" where
  "be_word bs = foldl (\<lambda>acc b. push_bit 8 acc + ucast b) 0 bs"

lemma length_be_bytes [simp]: "length (be_bytes n w) = n"
  by (induction n arbitrary: w) simp_all

lemma be_word_Nil [simp]: "be_word [] = 0"
  by (simp add: be_word_def)

lemma be_word_snoc [simp]: "be_word (bs @ [b]) = push_bit 8 (be_word bs) + ucast b"
  by (simp add: be_word_def)

text \<open>Reading back the \<open>n\<close> bytes of a word gives its low \<open>8 n\<close> bits.\<close>

lemma push_add_low_byte:
  fixes w :: "'a::len word"
  shows "push_bit 8 (take_bit (8 * n) (drop_bit 8 w)) + ucast (ucast w :: byte) =
    take_bit (8 + 8 * n) w"
proof -
  have "push_bit 8 (take_bit (8 * n) (drop_bit 8 w)) + ucast (ucast w :: byte) =
      or (push_bit 8 (take_bit (8 * n) (drop_bit 8 w))) (ucast (ucast w :: byte))"
    by (rule disjunctive_add)
      (auto simp: bit_simps)
  also have "\<dots> = take_bit (8 + 8 * n) w"
    by (rule bit_word_eqI) (auto simp: bit_simps)
  finally show ?thesis .
qed

lemma be_word_be_bytes:
  fixes w :: "'a::len word"
  shows "be_word (be_bytes n w) = take_bit (8 * n) w"
proof (induction n arbitrary: w)
  case 0
  then show ?case by simp
next
  case (Suc n)
  then show ?case by (simp add: push_add_low_byte)
qed

lemma be_word_be_bytes_full [codec_simps]:
  fixes w :: "'a::len word"
  assumes "LENGTH('a) \<le> 8 * n"
  shows "be_word (be_bytes n w) = w"
  using assms by (simp add: be_word_be_bytes take_bit_word_eq_self)

lemma be_bytes_be_word [codec_simps]:
  assumes "8 * length bs \<le> LENGTH('a)"
  shows "be_bytes (length bs) (be_word bs :: 'a::len word) = bs"
  using assms
proof (induction bs rule: rev_induct)
  case Nil
  then show ?case by simp
next
  case (snoc b bs)
  let ?v = "be_word bs :: 'a word"
  have sep: "push_bit 8 ?v + ucast b = or (push_bit 8 ?v) (ucast b)"
    by (rule disjunctive_add) (auto simp: bit_simps dest: bit_imp_le_length)
  have v: "?v = take_bit (8 * length bs) ?v"
    using snoc by (metis be_word_be_bytes length_append_singleton mult_Suc_right le_add2 le_trans)
  have bound: "n < 8 * length bs" if "bit ?v n" for n
    using that by (subst (asm) v) (simp add: bit_simps)
  have "drop_bit 8 (or (push_bit 8 ?v) (ucast b)) = ?v"
    using snoc.prems by (intro bit_word_eqI) (auto simp: bit_simps dest: bound bit_imp_le_length)
  moreover have "ucast (or (push_bit 8 ?v) (ucast b)) = b"
    using snoc.prems by (intro bit_word_eqI) (auto simp: bit_simps)
  ultimately show ?case
    using snoc by (simp add: sep)
qed


text \<open>A step function stays at a fixed point.\<close>

lemma funpow_stays:
  assumes "f x = x" "(f ^^ n) a = x" "n \<le> m"
  shows "(f ^^ m) a = x"
proof -
  have "(f ^^ k) x = x" for k using assms(1) by (induction k) simp_all
  moreover have "(f ^^ (m - n + n)) a = (f ^^ (m - n)) ((f ^^ n) a)"
    by (simp only: funpow_add comp_apply)
  ultimately show ?thesis using assms(2,3) by simp
qed

end
