(* ===== verification/Opcode.thy ===== *)
theory Opcode
  imports FVM_Prelude
begin

text \<open>
  The instruction set: \<^verbatim>\<open>src/fastvm/libevmjit/Instruction.h\<close> and \<^verbatim>\<open>Instruction.cpp\<close>.

  \<^item> \<open>Instruction\<close> is the C++ enumeration. Its four runs of numbered enumerators
    (\<open>PUSH1\<close> \<dots> \<open>PUSH32\<close>, \<open>DUP1\<close> \<dots> \<open>DUP32\<close>, \<open>SWAP1\<close> \<dots> \<open>SWAP32\<close>,
    \<open>LOG0\<close> \<dots> \<open>LOG4\<close>) are constructors with the number as argument, and \<open>INVALID b\<close> is a byte
    that no enumerator names, which the C++ cast \<open>Instruction(b)\<close> lets through.
  \<^item> \<open>decode\<close> is that cast and \<open>opcode\<close> the underlying \<open>uint8_t\<close>.
  \<^item> \<open>readPushData\<close> and \<open>skipPushData\<close> work on the rest of the code from the PUSH byte on and
    return how far the code iterator moves.
\<close>

datatype (plugins only: code) Instruction =
    STOP | ADD | MUL | SUB | DIV | SDIV | MOD | SMOD | ADDMOD | MULMOD | EXP | SIGNEXTEND
  | LT | GT | SLT | SGT | EQ | ISZERO | AND | OR | XOR | NOT | BYTE
  | SHA3
  | ADDRESS | BALANCE | ORIGIN | CALLER | CALLVALUE | CALLDATALOAD | CALLDATASIZE | CALLDATACOPY
  | CODESIZE | CODECOPY | GASPRICE | EXTCODESIZE | EXTCODECOPY | RETURNDATASIZE | RETURNDATACOPY
  | BLOCKHASH | COINBASE | TIMESTAMP | NUMBER | DIFFICULTY | GASLIMIT
  | POP | MLOAD | MSTORE | MSTORE8 | SLOAD | SSTORE | JUMP | JUMPI | PC | MSIZE | GAS | JUMPDEST
  | PUSH nat | DUP nat | SWAP nat | LOG nat
  | CREATE | CALL | CALLCODE | RETURN | DELEGATECALL | STATICCALL | REVERT | SELFDESTRUCT
  | INVALID byte

definition row_00 :: "Instruction list" where
  "row_00 = [STOP, ADD, MUL, SUB, DIV, SDIV, MOD, SMOD, ADDMOD, MULMOD, EXP, SIGNEXTEND]"

definition row_10 :: "Instruction list" where
  "row_10 = [LT, GT, SLT, SGT, EQ, ISZERO, AND, OR, XOR, NOT, BYTE]"

definition row_30 :: "Instruction list" where
  "row_30 = [ADDRESS, BALANCE, ORIGIN, CALLER, CALLVALUE, CALLDATALOAD, CALLDATASIZE,
     CALLDATACOPY, CODESIZE, CODECOPY, GASPRICE, EXTCODESIZE, EXTCODECOPY]"

definition row_40 :: "Instruction list" where
  "row_40 = [BLOCKHASH, COINBASE, TIMESTAMP, NUMBER, DIFFICULTY, GASLIMIT]"

definition row_50 :: "Instruction list" where
  "row_50 = [POP, MLOAD, MSTORE, MSTORE8, SLOAD, SSTORE, JUMP, JUMPI, PC, MSIZE, GAS, JUMPDEST]"

definition row_f0 :: "Instruction list" where
  "row_f0 = [CREATE, CALL, CALLCODE, RETURN, DELEGATECALL]"

definition decode :: "byte \<Rightarrow> Instruction" where
  "decode b = (let n = unat b in
     if n < 0x0c then row_00 ! n
     else if 0x10 \<le> n \<and> n < 0x1b then row_10 ! (n - 0x10)
     else if n = 0x20 then SHA3
     else if 0x30 \<le> n \<and> n < 0x3d then row_30 ! (n - 0x30)
     else if n = 0x3d then RETURNDATASIZE
     else if n = 0x3e then RETURNDATACOPY
     else if 0x40 \<le> n \<and> n < 0x46 then row_40 ! (n - 0x40)
     else if 0x50 \<le> n \<and> n < 0x5c then row_50 ! (n - 0x50)
     else if 0x60 \<le> n \<and> n < 0x80 then PUSH (n - 0x60 + 1)
     else if 0x80 \<le> n \<and> n < 0x90 then DUP (n - 0x80 + 1)
     else if 0x90 \<le> n \<and> n < 0xa0 then SWAP (n - 0x90 + 1)
     else if 0xa0 \<le> n \<and> n < 0xa5 then LOG (n - 0xa0)
     else if 0xb0 \<le> n \<and> n < 0xc0 then DUP (n - 0xb0 + 17)
     else if 0xc0 \<le> n \<and> n < 0xd0 then SWAP (n - 0xc0 + 17)
     else if 0xf0 \<le> n \<and> n < 0xf5 then row_f0 ! (n - 0xf0)
     else if n = 0xfa then STATICCALL
     else if n = 0xfd then REVERT
     else if n = 0xff then SELFDESTRUCT
     else INVALID b)"

primrec opcode :: "Instruction \<Rightarrow> byte" where
  "opcode STOP = 0x00" | "opcode ADD = 0x01" | "opcode MUL = 0x02" | "opcode SUB = 0x03"
| "opcode DIV = 0x04" | "opcode SDIV = 0x05" | "opcode MOD = 0x06" | "opcode SMOD = 0x07"
| "opcode ADDMOD = 0x08" | "opcode MULMOD = 0x09" | "opcode EXP = 0x0a" | "opcode SIGNEXTEND = 0x0b"
| "opcode LT = 0x10" | "opcode GT = 0x11" | "opcode SLT = 0x12" | "opcode SGT = 0x13"
| "opcode EQ = 0x14" | "opcode ISZERO = 0x15" | "opcode AND = 0x16" | "opcode OR = 0x17"
| "opcode XOR = 0x18" | "opcode NOT = 0x19" | "opcode BYTE = 0x1a"
| "opcode SHA3 = 0x20"
| "opcode ADDRESS = 0x30" | "opcode BALANCE = 0x31" | "opcode ORIGIN = 0x32" | "opcode CALLER = 0x33"
| "opcode CALLVALUE = 0x34" | "opcode CALLDATALOAD = 0x35" | "opcode CALLDATASIZE = 0x36"
| "opcode CALLDATACOPY = 0x37" | "opcode CODESIZE = 0x38" | "opcode CODECOPY = 0x39"
| "opcode GASPRICE = 0x3a" | "opcode EXTCODESIZE = 0x3b" | "opcode EXTCODECOPY = 0x3c"
| "opcode RETURNDATASIZE = 0x3d" | "opcode RETURNDATACOPY = 0x3e"
| "opcode BLOCKHASH = 0x40" | "opcode COINBASE = 0x41" | "opcode TIMESTAMP = 0x42"
| "opcode NUMBER = 0x43" | "opcode DIFFICULTY = 0x44" | "opcode GASLIMIT = 0x45"
| "opcode POP = 0x50" | "opcode MLOAD = 0x51" | "opcode MSTORE = 0x52" | "opcode MSTORE8 = 0x53"
| "opcode SLOAD = 0x54" | "opcode SSTORE = 0x55" | "opcode JUMP = 0x56" | "opcode JUMPI = 0x57"
| "opcode PC = 0x58" | "opcode MSIZE = 0x59" | "opcode GAS = 0x5a" | "opcode JUMPDEST = 0x5b"
| "opcode (PUSH n) = of_nat (0x60 + (n - 1))"
| "opcode (DUP n) = of_nat (if n \<le> 16 then 0x80 + (n - 1) else 0xb0 + (n - 17))"
| "opcode (SWAP n) = of_nat (if n \<le> 16 then 0x90 + (n - 1) else 0xc0 + (n - 17))"
| "opcode (LOG n) = of_nat (0xa0 + n)"
| "opcode CREATE = 0xf0" | "opcode CALL = 0xf1" | "opcode CALLCODE = 0xf2" | "opcode RETURN = 0xf3"
| "opcode DELEGATECALL = 0xf4" | "opcode STATICCALL = 0xfa" | "opcode REVERT = 0xfd"
| "opcode SELFDESTRUCT = 0xff"
| "opcode (INVALID b) = b"

text \<open>The case macros \<open>ANY_PUSH\<close>, \<open>BASE_DUP\<close>, \<open>EXT_DUP\<close>, \<open>BASE_SWAP\<close> and \<open>EXT_SWAP\<close>.\<close>

definition ANY_PUSH :: "Instruction \<Rightarrow> bool" where
  "ANY_PUSH i = (case i of PUSH n \<Rightarrow> 1 \<le> n \<and> n \<le> 32 | _ \<Rightarrow> False)"

definition BASE_DUP :: "Instruction \<Rightarrow> bool" where
  "BASE_DUP i = (case i of DUP n \<Rightarrow> 1 \<le> n \<and> n \<le> 16 | _ \<Rightarrow> False)"

definition EXT_DUP :: "Instruction \<Rightarrow> bool" where
  "EXT_DUP i = (case i of DUP n \<Rightarrow> 17 \<le> n \<and> n \<le> 32 | _ \<Rightarrow> False)"

definition BASE_SWAP :: "Instruction \<Rightarrow> bool" where
  "BASE_SWAP i = (case i of SWAP n \<Rightarrow> 1 \<le> n \<and> n \<le> 16 | _ \<Rightarrow> False)"

definition EXT_SWAP :: "Instruction \<Rightarrow> bool" where
  "EXT_SWAP i = (case i of SWAP n \<Rightarrow> 17 \<le> n \<and> n \<le> 32 | _ \<Rightarrow> False)"


definition numBytes :: "byte \<Rightarrow> nat" where
  "numBytes pushInst = unat pushInst - 0x60 + 1"

text \<open>
  The loop of \<open>readPushData\<close>: \<open>n\<close> data bytes are still to be shifted in, \<open>rest\<close> is the code from
  the iterator on, and a byte beyond the end of the code reads as 0.
\<close>

primrec read_bytes :: "nat \<Rightarrow> byte list \<Rightarrow> i256 \<Rightarrow> i256 \<times> byte list" where
  "read_bytes 0 rest value = (value, rest)"
| "read_bytes (Suc n) rest value =
     (let b = (case rest of [] \<Rightarrow> 0 | x # _ \<Rightarrow> x) in
      read_bytes n (tl rest) (or (push_bit 8 value) (ucast b)))"

text \<open>
  \<open>readPushData code\<close> is applied to the code from the PUSH byte up to the end of the block. It
  gives the width of the \<open>APInt\<close>, its value, and how many code bytes the iterator has moved when
  it points to the last byte that was read.
\<close>

definition readPushData :: "byte list \<Rightarrow> nat \<times> i256 \<times> nat" where
  "readPushData code =
     (let nb = numBytes (hd code);
          (value, rest) = read_bytes nb (tl code) 0
      in (if nb > 16 then 256 else 128, value, length code - length rest - 1))"

text \<open>\<open>skipPushData\<close>, and the lambda \<open>skipPushDataAndGetNext\<close> of \<open>createBasicBlocks\<close>.\<close>

fun skip_loop :: "nat \<Rightarrow> nat \<Rightarrow> nat \<Rightarrow> nat" where
  "skip_loop 0 cur e = cur"
| "skip_loop (Suc i) cur e = (if cur < e then skip_loop i (Suc cur) e else cur)"

definition skipPushData :: "byte list \<Rightarrow> nat" where
  "skipPushData code = skip_loop (numBytes (hd code)) 0 (length code - 1)"

definition skipPushDataAndGetNext :: "byte list \<Rightarrow> nat" where
  "skipPushDataAndGetNext code =
     (let cur = unat (hd code); offset = 1 in
      if 0x60 \<le> cur \<and> cur \<le> 0x7f
      then offset + min (cur - 0x60 + 1) (length code - 1)
      else offset)"


section \<open>Facts\<close>

lemma opcode_rows:
  "n < 0x0c \<Longrightarrow> opcode (row_00 ! n) = of_nat n"
  "n < 0x0b \<Longrightarrow> opcode (row_10 ! n) = of_nat (0x10 + n)"
  "n < 0x0d \<Longrightarrow> opcode (row_30 ! n) = of_nat (0x30 + n)"
  "n < 0x06 \<Longrightarrow> opcode (row_40 ! n) = of_nat (0x40 + n)"
  "n < 0x0c \<Longrightarrow> opcode (row_50 ! n) = of_nat (0x50 + n)"
  "n < 0x05 \<Longrightarrow> opcode (row_f0 ! n) = of_nat (0xf0 + n)"
  by (auto simp: row_00_def row_10_def row_30_def row_40_def row_50_def row_f0_def
      numeral_eq_Suc less_Suc_eq)



lemma opcode_ranges:
  "0x10 \<le> n \<Longrightarrow> n < 0x1b \<Longrightarrow> opcode (row_10 ! (n - 0x10)) = of_nat n"
  "0x30 \<le> n \<Longrightarrow> n < 0x3d \<Longrightarrow> opcode (row_30 ! (n - 0x30)) = of_nat n"
  "0x40 \<le> n \<Longrightarrow> n < 0x46 \<Longrightarrow> opcode (row_40 ! (n - 0x40)) = of_nat n"
  "0x50 \<le> n \<Longrightarrow> n < 0x5c \<Longrightarrow> opcode (row_50 ! (n - 0x50)) = of_nat n"
  "0xf0 \<le> n \<Longrightarrow> n < 0xf5 \<Longrightarrow> opcode (row_f0 ! (n - 0xf0)) = of_nat n"
  "0x60 \<le> n \<Longrightarrow> n < 0x80 \<Longrightarrow> opcode (PUSH (Suc (n - 0x60))) = of_nat n"
  "0x80 \<le> n \<Longrightarrow> n < 0x90 \<Longrightarrow> opcode (DUP (Suc (n - 0x80))) = of_nat n"
  "0x90 \<le> n \<Longrightarrow> n < 0xa0 \<Longrightarrow> opcode (SWAP (Suc (n - 0x90))) = of_nat n"
  "0xa0 \<le> n \<Longrightarrow> n < 0xa5 \<Longrightarrow> opcode (LOG (n - 0xa0)) = of_nat n"
  "0xb0 \<le> n \<Longrightarrow> n < 0xc0 \<Longrightarrow> opcode (DUP (n - 0x9f)) = of_nat n"
  "0xc0 \<le> n \<Longrightarrow> n < 0xd0 \<Longrightarrow> opcode (SWAP (n - 0xaf)) = of_nat n"
  by (auto simp add: opcode_rows simp del: of_nat_add of_nat_diff of_nat_numeral)

lemma byte_eqI: "unat b = unat c \<Longrightarrow> b = (c::byte)"
  by (simp add: word_unat_eq_iff)


lemma opcode_if:
  "(c \<Longrightarrow> opcode x = b) \<Longrightarrow> opcode y = b \<Longrightarrow> opcode (if c then x else y) = b"
  by simp


lemma opcode_of_decode: "opcode (decode b) = b"
  unfolding decode_def Let_def
  by (intro opcode_if)
    (simp_all add: opcode_rows opcode_ranges byte_eqI del: opcode.simps(58-61))

text \<open>The numbers that occur in a decoded instruction are those of the enumeration.\<close>

definition wf_inst :: "Instruction \<Rightarrow> bool" where
  "wf_inst i = (case i of
       PUSH n \<Rightarrow> 1 \<le> n \<and> n \<le> 32
     | DUP n \<Rightarrow> 1 \<le> n \<and> n \<le> 32
     | SWAP n \<Rightarrow> 1 \<le> n \<and> n \<le> 32
     | LOG n \<Rightarrow> n \<le> 4
     | INVALID b \<Rightarrow> decode b = INVALID b
     | _ \<Rightarrow> True)"

lemma wf_inst_simps [simp]:
  "wf_inst (PUSH n) \<longleftrightarrow> 1 \<le> n \<and> n \<le> 32"
  "wf_inst (DUP n) \<longleftrightarrow> 1 \<le> n \<and> n \<le> 32"
  "wf_inst (SWAP n) \<longleftrightarrow> 1 \<le> n \<and> n \<le> 32"
  "wf_inst (LOG n) \<longleftrightarrow> n \<le> 4"
  "wf_inst SHA3" "wf_inst RETURNDATASIZE" "wf_inst RETURNDATACOPY"
  "wf_inst STATICCALL" "wf_inst REVERT" "wf_inst SELFDESTRUCT"
  by (simp_all add: wf_inst_def)

lemma wf_rows:
  "n < 0x0c \<Longrightarrow> wf_inst (row_00 ! n)"
  "n < 0x0b \<Longrightarrow> wf_inst (row_10 ! n)"
  "n < 0x0d \<Longrightarrow> wf_inst (row_30 ! n)"
  "n < 0x06 \<Longrightarrow> wf_inst (row_40 ! n)"
  "n < 0x0c \<Longrightarrow> wf_inst (row_50 ! n)"
  "n < 0x05 \<Longrightarrow> wf_inst (row_f0 ! n)"
  by (auto simp: wf_inst_def row_00_def row_10_def row_30_def row_40_def row_50_def row_f0_def
      numeral_eq_Suc less_Suc_eq)

lemma if_either:
  "(c \<Longrightarrow> wf_inst x) \<Longrightarrow> y = z \<or> wf_inst y \<Longrightarrow>
   (if c then x else y) = z \<or> wf_inst (if c then x else y)"
  by simp

lemma wf_decode: "wf_inst (decode b)"
proof (cases "decode b = INVALID b")
  case True
  then show ?thesis by (simp add: wf_inst_def)
next
  case False
  have "decode b = INVALID b \<or> wf_inst (decode b)"
    unfolding decode_def Let_def
    by (intro if_either) (auto simp: wf_rows)
  with False show ?thesis by simp
qed

lemma decode_eq_iff:
  assumes "decode (opcode i) = i"
  shows "decode b = i \<longleftrightarrow> b = opcode i"
  using assms opcode_of_decode by metis


lemma decode_PUSH_D:
  assumes "decode b = PUSH n"
  shows "1 \<le> n" "n \<le> 32" "unat b = 0x5f + n"
proof -
  show n: "1 \<le> n" "n \<le> 32"
    using wf_decode [of b] assms by auto
  have "b = of_nat (0x60 + (n - 1))"
    using opcode_of_decode [of b] assms by simp
  with n show "unat b = 0x5f + n"
    by (simp add: unat_of_nat del: of_nat_add of_nat_diff)
qed

lemma decode_PUSH_iff: "(\<exists>n. decode b = PUSH n) \<longleftrightarrow> 0x60 \<le> unat b \<and> unat b \<le> 0x7f"
proof
  assume "0x60 \<le> unat b \<and> unat b \<le> 0x7f"
  then have "decode b = PUSH (unat b - 0x60 + 1)"
    by (simp add: decode_def)
  then show "\<exists>n. decode b = PUSH n" ..
qed (use decode_PUSH_D in force)

lemma decode_opcode_wf: "wf_inst i \<Longrightarrow> decode (opcode i) = i"
  by (cases i) (simp_all add: decode_def wf_inst_def row_00_def row_10_def row_30_def row_40_def
    row_50_def row_f0_def unat_of_nat del: of_nat_add of_nat_diff)

lemma numBytes_PUSH: "decode b = PUSH n \<Longrightarrow> numBytes b = n"
  using decode_PUSH_D [of b n] by (simp add: numBytes_def)

lemma skip_loop_eq: "skip_loop i cur e = (if cur \<le> e then min (cur + i) e else cur)"
  by (induction i arbitrary: cur) auto

lemma skipPushData_eq: "skipPushData (b # cs) = min (numBytes b) (length cs)"
  by (simp add: skipPushData_def skip_loop_eq)

lemma read_bytes_rest: "snd (read_bytes n rest v) = drop n rest"
  by (induction n arbitrary: rest v) (auto simp: Let_def drop_Suc)

lemma readPushData_moves:
  assumes "decode b = PUSH n"
  shows "snd (snd (readPushData (b # cs))) = min n (length cs)"
  using assms read_bytes_rest [of n cs 0]
  by (auto simp: readPushData_def numBytes_PUSH Let_def split: prod.splits)

text \<open>The value read is the big-endian number of the data bytes, padded with zero bytes.\<close>

lemma or_low_byte:
  fixes v :: "'a::len word"
  shows "or (push_bit 8 v) (ucast (b::byte)) = push_bit 8 v + ucast b"
  by (rule sym, rule disjunctive_add) (auto simp: bit_simps dest: bit_imp_le_length)

lemma read_bytes_value:
  "fst (read_bytes n rest v) =
     foldl (\<lambda>acc b. push_bit 8 acc + ucast b) v (take n rest @ replicate (n - length rest) 0)"
proof (induction n arbitrary: rest v)
  case 0
  then show ?case by simp
next
  case (Suc n)
  then show ?case
    by (cases rest) (simp_all add: Let_def or_low_byte Suc)
qed

lemma readPushData_value:
  assumes "decode b = PUSH n"
  shows "fst (snd (readPushData (b # cs))) = be_word (take n cs @ replicate (n - length cs) 0)"
  using assms read_bytes_value [of n cs 0]
  by (auto simp: readPushData_def be_word_def numBytes_PUSH Let_def split: prod.splits)


lemma skipPushDataAndGetNext_eq:
  "skipPushDataAndGetNext (b # cs) =
     (if \<exists>n. decode b = PUSH n then Suc (min (numBytes b) (length cs)) else 1)"
  unfolding decode_PUSH_iff by (simp add: skipPushDataAndGetNext_def Let_def numBytes_def)

lemma skipPushDataAndGetNext_pos: "0 < skipPushDataAndGetNext code"
  by (simp add: skipPushDataAndGetNext_def Let_def)

lemma skipPushDataAndGetNext_le:
  "code \<noteq> [] \<Longrightarrow> skipPushDataAndGetNext code \<le> length code"
  by (cases code) (simp_all add: skipPushDataAndGetNext_eq)


section \<open>Properties\<close>

text \<open>
  The byte of a decoded instruction is the byte it was decoded from, so no two bytes are
  confused, and the instructions that decoding can produce are exactly the well-formed ones: those
  whose own byte decodes back to them.
\<close>

theorem decode_opcode_roundtrip:
  "opcode (decode b) = b \<and> (decode (opcode i) = i \<longleftrightarrow> wf_inst i)"
  using wf_decode [of "opcode i"] decode_opcode_wf [of i] opcode_of_decode [of b] by auto

text \<open>
  C19: the three traversals of push data agree. At a \<open>PUSHn\<close> the block splitter, the compiler's
  reader and \<open>skipPushData\<close> move over the same bytes, also where the data is cut off by the end of
  the code; the value read is the big-endian number of the data with the missing bytes taken as 0.
\<close>

theorem push_data_agreement:
  assumes "decode b = PUSH n"
  shows "readPushData (b # cs) =
      (if 16 < n then 256 else 128, be_word (take n cs @ replicate (n - length cs) 0),
       skipPushData (b # cs)) \<and>
    skipPushDataAndGetNext (b # cs) = Suc (skipPushData (b # cs))"
proof
  have "fst (readPushData (b # cs)) = (if 16 < n then 256 else 128)"
    using assms by (simp add: readPushData_def numBytes_PUSH Let_def split: prod.splits)
  with assms show "readPushData (b # cs) =
      (if 16 < n then 256 else 128, be_word (take n cs @ replicate (n - length cs) 0),
       skipPushData (b # cs))"
    by (intro prod_eqI) (simp_all add: readPushData_value readPushData_moves skipPushData_eq
      numBytes_PUSH)
  show "skipPushDataAndGetNext (b # cs) = Suc (skipPushData (b # cs))"
    using assms by (auto simp: skipPushDataAndGetNext_eq skipPushData_eq)
qed

theorem push_data_agreement_witness:
  "readPushData [0x61, 0x12] = (128, 0x1200, 1) \<and> skipPushDataAndGetNext [0x61, 0x12] = 2"
proof -
  have d: "decode 0x61 = PUSH 2"
    by (simp add: decode_def)
  have v: "be_word (take 2 [0x12] @ replicate (2 - length [0x12 :: byte]) 0) = (0x1200 :: i256)"
    by (simp add: be_word_def)
  show ?thesis
    using push_data_agreement [OF d, of "[0x12]"] v
    by (simp add: skipPushData_eq numBytes_PUSH [OF d])
qed

end
