(* ===== verification/JitTypes.thy ===== *)
theory JitTypes
  imports Opcode
begin

text \<open>
  The data the virtual machine and its host exchange, and the state of a running contract.

  \<^item> \<^verbatim>\<open>src/fastvm/include/evm.h\<close>: revisions, call kinds, messages, results, the transaction
    context and the table of host callbacks. The host itself is not part of the repository's native
    code: its state is the type parameter \<open>'h\<close>, and the callbacks are the fields of a table that every
    definition which calls the host takes as an argument. Byte arrays (\<open>evm_word\<close>, \<open>evm_address\<close>,
    \<open>evm_hash\<close>) are byte lists, most significant byte first.
  \<^item> \<^verbatim>\<open>src/fastvm/libevmjit/JIT.h\<close>: the gas schedule, the return codes of a compiled contract and
    \<open>RuntimeData\<close>.
  \<^item> \<^verbatim>\<open>src/fastvm/libevmjit/Array.h\<close>: the growable byte array behind contract memory.
  \<^item> \<open>rt\<close> is what a compiled contract mutates while it runs: the variables that \<open>RuntimeManager\<close>
    allocates (gas counter, return buffer, transaction context), the memory array and the host.
\<close>

section \<open>evm.h\<close>

datatype evm_revision =
    EVM_FRONTIER | EVM_HOMESTEAD | EVM_TANGERINE_WHISTLE | EVM_SPURIOUS_DRAGON
  | EVM_BYZANTIUM | EVM_AION | EVM_CONSTANTINOPLE | EVM_AION_V1

primrec rev_num :: "evm_revision \<Rightarrow> nat" where
  "rev_num EVM_FRONTIER = 0"
| "rev_num EVM_HOMESTEAD = 1"
| "rev_num EVM_TANGERINE_WHISTLE = 2"
| "rev_num EVM_SPURIOUS_DRAGON = 3"
| "rev_num EVM_BYZANTIUM = 4"
| "rev_num EVM_AION = 5"
| "rev_num EVM_CONSTANTINOPLE = 6"
| "rev_num EVM_AION_V1 = 7"

lemma rev_num_inject: "rev_num r = rev_num r' \<longleftrightarrow> r = r'"
  by (cases r; cases r') simp_all

text \<open>Revisions are compared as the enumeration's numbers.\<close>

instantiation evm_revision :: linorder
begin

definition less_eq_evm_revision :: "evm_revision \<Rightarrow> evm_revision \<Rightarrow> bool" where
  "less_eq_evm_revision r r' = (rev_num r \<le> rev_num r')"

definition less_evm_revision :: "evm_revision \<Rightarrow> evm_revision \<Rightarrow> bool" where
  "less_evm_revision r r' = (rev_num r < rev_num r')"

instance
  by standard (auto simp: less_eq_evm_revision_def less_evm_revision_def rev_num_inject)

end

datatype evm_call_kind = EVM_CALL | EVM_DELEGATECALL | EVM_CALLCODE | EVM_CREATE | EVM_STATICCALL

primrec kind_num :: "evm_call_kind \<Rightarrow> 32 word" where
  "kind_num EVM_CALL = 0"
| "kind_num EVM_DELEGATECALL = 1"
| "kind_num EVM_CALLCODE = 2"
| "kind_num EVM_CREATE = 3"
| "kind_num EVM_STATICCALL = 4"

datatype evm_status_code =
    EVM_SUCCESS | EVM_FAILURE | EVM_OUT_OF_GAS | EVM_BAD_INSTRUCTION | EVM_BAD_JUMP_DESTINATION
  | EVM_STACK_OVERFLOW | EVM_STACK_UNDERFLOW | EVM_REVERT | EVM_STATIC_MODE_ERROR
  | EVM_REJECTED | EVM_INTERNAL_ERROR

primrec status_num :: "evm_status_code \<Rightarrow> 32 word" where
  "status_num EVM_SUCCESS = 0"
| "status_num EVM_FAILURE = 1"
| "status_num EVM_OUT_OF_GAS = 2"
| "status_num EVM_BAD_INSTRUCTION = 3"
| "status_num EVM_BAD_JUMP_DESTINATION = 4"
| "status_num EVM_STACK_OVERFLOW = 5"
| "status_num EVM_STACK_UNDERFLOW = 6"
| "status_num EVM_REVERT = 7"
| "status_num EVM_STATIC_MODE_ERROR = 8"
| "status_num EVM_REJECTED = - 1"
| "status_num EVM_INTERNAL_ERROR = - 2"

definition EVM_STATIC :: "32 word" where
  "EVM_STATIC = 1"

record evm_message =
  address :: "byte list"
  caller :: "byte list"
  msg_value :: "byte list"
  msg_input :: "byte list"
  code_hash :: "byte list"
  msg_gas :: i64
  depth :: "32 word"
  kind :: "32 word"
  flags :: "32 word"

record evm_tx_context =
  tx_gas_price :: "byte list"
  tx_origin :: "byte list"
  block_coinbase :: "byte list"
  block_number :: i64
  block_timestamp :: i64
  block_gas_limit :: i64
  block_difficulty :: "byte list"

text \<open>
  A result is its status as the number on the wire, the gas left and the output; \<open>release\<close> and
  \<open>reserved\<close> manage the output's storage and carry no data.
\<close>

record evm_result =
  status_code :: "32 word"
  gas_left :: i64
  output_data :: "byte list"

record 'h evm_context_fn_table =
  account_exists :: "'h \<Rightarrow> byte list \<Rightarrow> 32 word"
  get_storage :: "'h \<Rightarrow> byte list \<Rightarrow> byte list \<Rightarrow> byte list"
  set_storage :: "'h \<Rightarrow> byte list \<Rightarrow> byte list \<Rightarrow> byte list \<Rightarrow> 'h"
  get_balance :: "'h \<Rightarrow> byte list \<Rightarrow> byte list"
  get_code :: "'h \<Rightarrow> byte list \<Rightarrow> byte list"
  selfdestruct :: "'h \<Rightarrow> byte list \<Rightarrow> byte list \<Rightarrow> 'h"
  host_call :: "'h \<Rightarrow> evm_message \<Rightarrow> evm_result \<times> 'h"
  get_tx_context :: "'h \<Rightarrow> evm_tx_context"
  get_block_hash :: "'h \<Rightarrow> i64 \<Rightarrow> byte list"
  host_log :: "'h \<Rightarrow> byte list \<Rightarrow> byte list \<Rightarrow> byte list list \<Rightarrow> 'h"


section \<open>JIT.h\<close>

record JITSchedule =
  stepGas0 :: i64
  stepGas1 :: i64
  stepGas2 :: i64
  stepGas3 :: i64
  stepGas4 :: i64
  stepGas5 :: i64
  stepGas6 :: i64
  expByteGas :: i64
  sha3Gas :: i64
  sha3WordGas :: i64
  sloadGas :: i64
  sstoreSetGas :: i64
  sstoreResetGas :: i64
  jumpdestGas :: i64
  logGas :: i64
  logDataGas :: i64
  logTopicGas :: i64
  createGas :: i64
  callGas :: i64
  copyGas :: i64
  valueTransferGas :: i64
  callStipend :: i64
  callNewAccount :: i64

definition schedule :: JITSchedule where
  "schedule = \<lparr>stepGas0 = 0, stepGas1 = 2, stepGas2 = 3, stepGas3 = 5, stepGas4 = 8,
     stepGas5 = 10, stepGas6 = 20, expByteGas = 10, sha3Gas = 30, sha3WordGas = 6, sloadGas = 50,
     sstoreSetGas = 20000, sstoreResetGas = 5000, jumpdestGas = 1, logGas = 375, logDataGas = 8,
     logTopicGas = 375, createGas = 32000, callGas = 40, copyGas = 3, valueTransferGas = 9000,
     callStipend = 2300, callNewAccount = 25000\<rparr>"

datatype ReturnCode = Stop | Return | Revert | OutOfGas | LLVMError | UnexpectedException

record RuntimeData =
  rd_gas :: i64
  callData :: "byte list"
  apparentValue :: "byte list"
  rd_code :: "byte list"
  rd_address :: "byte list"
  rd_caller :: "byte list"
  rd_depth :: i64


section \<open>The state of a running contract\<close>

record mem_array =
  arr_data :: "byte list"
  arr_size :: i64
  arr_cap :: i64

record 'h rt =
  gas :: i64
  mem :: mem_array
  txctx :: "evm_tx_context option"
  retbuf :: "byte list"
  ret_range :: "(i128 \<times> i64) option"
  host :: 'h
  call_ret :: i64
  pAddr :: "byte list"

text \<open>
  What is fixed while a contract runs: the revision, the static-call flag and the code it was compiled for, the
  host's callbacks, the message, and what \<open>JIT.cpp\<close> and \<open>RuntimeManager\<close> unpack from it. The last
  four fields stand for the platform: what \<open>realloc\<close> leaves in fresh memory, the byte order, the result
  of a generated division by 0, which is undefined, and the content of an address that is never set.
\<close>

type_synonym undef_divrem = "nat \<Rightarrow> nat \<times> nat"

record 'h jit_env =
  m_rev :: evm_revision
  m_staticCall :: bool
  m_code :: "byte list"
  fns :: "'h evm_context_fn_table"
  currentMsg :: evm_message
  rtdata :: RuntimeData
  junk_byte :: byte
  host_le :: bool
  div_undef :: undef_divrem
  undef_addr :: "byte list"

end
