(* ===== verification/GasMeter.thy ===== *)
theory GasMeter
  imports JitTypes
begin

text \<open>
  Gas accounting: \<^verbatim>\<open>src/fastvm/libevmjit/GasMeter.cpp\<close>.

  The meter works in two phases. While a basic block is compiled it adds up the step costs of the
  instructions since the last commit (\<open>GasMeter\<close>, \<open>gm_count\<close>, \<open>gm_commit\<close>) and patches the sum into
  one call of \<open>gas.check\<close> that stands where the first of them was counted. At run time \<open>gas.check\<close>
  (\<open>gas_check\<close>) subtracts that sum, or a cost that is only known then (\<open>count64\<close>, \<open>count128\<close> and the
  operations built on them), from the signed 64-bit gas counter, and aborts the contract, which is
  the result \<open>None\<close>, when the difference is negative.
\<close>

section \<open>The generated function gas.check and the run-time costs\<close>

definition gasMax :: i64 where
  "gasMax = 0x7fffffffffffffff"

definition gas_check :: "i64 \<Rightarrow> 'h rt \<Rightarrow> 'h rt option" where
  "gas_check cost s =
     (let gasUpdated = gas s - cost; gasOk = 0 <=s gasUpdated in
      if gasOk then Some (s\<lparr>gas := gasUpdated\<rparr>) else None)"

definition count64 :: "i64 \<Rightarrow> 'h rt \<Rightarrow> 'h rt option" where
  "count64 cost = gas_check cost"

definition count128 :: "i128 \<Rightarrow> 'h rt \<Rightarrow> 'h rt option" where
  "count128 cost =
     (let gasMax128 = (ucast gasMax :: i128);
          tooHigh = gasMax128 < cost;
          cost64 = (ucast cost :: i64)
      in gas_check (if tooHigh then gasMax else cost64))"

text \<open>The intrinsic \<open>llvm.ctlz\<close>: the width less the number of significant bits.\<close>

fun bitlen :: "nat \<Rightarrow> nat" where
  "bitlen n = (if n = 0 then 0 else Suc (bitlen (n div 2)))"

declare bitlen.simps [simp del]

definition ctlz :: "'a::len word \<Rightarrow> 'a word" where
  "ctlz w = of_nat (LENGTH('a) - bitlen (unat w))"

definition exponentByteCost :: "evm_revision \<Rightarrow> i64" where
  "exponentByteCost r =
     (if r \<ge> EVM_AION then 1 else if r \<ge> EVM_SPURIOUS_DRAGON then 50 else expByteGas schedule)"

definition countExp_cost :: "evm_revision \<Rightarrow> i128 \<Rightarrow> i64" where
  "countExp_cost r exponent =
     (let lz128 = ctlz exponent;
          lz = (ucast lz128 :: i64);
          sigBits = 128 - lz;
          sigBytes = (sigBits + 7) div 8
      in sigBytes * exponentByteCost r)"

definition countExp :: "evm_revision \<Rightarrow> i128 \<Rightarrow> 'h rt \<Rightarrow> 'h rt option" where
  "countExp r exponent = count64 (countExp_cost r exponent)"

definition sstore_cost :: "evm_revision \<Rightarrow> i128 \<Rightarrow> i128 \<Rightarrow> i64" where
  "sstore_cost r oldValue newValue =
     (let oldValueIsZero = oldValue = 0;
          newValueIsntZero = newValue \<noteq> 0;
          isInsert = oldValueIsZero \<and> newValueIsntZero
      in if isInsert then sstoreSetGas schedule
         else if r \<ge> EVM_AION then 8000 else sstoreResetGas schedule)"

definition countLogData :: "evm_revision \<Rightarrow> i128 \<Rightarrow> 'h rt \<Rightarrow> 'h rt option" where
  "countLogData r dataLength =
     count128 (dataLength * (if r \<ge> EVM_AION then 20 else ucast (logDataGas schedule)))"

definition sha3_cost :: "i128 \<Rightarrow> i64" where
  "sha3_cost dataLength =
     (let dataLength64 = (ucast dataLength :: i64);
          words64 = (dataLength64 + 31) div 32
      in sha3WordGas schedule * words64)"

definition countSha3Data :: "i128 \<Rightarrow> 'h rt \<Rightarrow> 'h rt option" where
  "countSha3Data dataLength = count64 (sha3_cost dataLength)"

definition giveBack :: "i64 \<Rightarrow> 'h rt \<Rightarrow> 'h rt" where
  "giveBack g s = s\<lparr>gas := gas s + g\<rparr>"

definition countCopy :: "i64 \<Rightarrow> 'h rt \<Rightarrow> 'h rt option" where
  "countCopy copyWords = count64 (copyWords * copyGas schedule)"


section \<open>Step costs\<close>

definition tier :: "evm_revision \<Rightarrow> i64 \<Rightarrow> i64" where
  "tier r step = (if r \<ge> EVM_AION then 1 else step)"

definition since_tangerine :: "evm_revision \<Rightarrow> i64 \<Rightarrow> i64 \<Rightarrow> i64 \<Rightarrow> i64" where
  "since_tangerine r aion tangerine frontier =
     (if r \<ge> EVM_AION then aion
      else if r \<ge> EVM_TANGERINE_WHISTLE then tangerine else frontier)"

primrec getStepCost :: "Instruction \<Rightarrow> evm_revision \<Rightarrow> i64" where
  \<comment> \<open>Tier 0\<close>
  "getStepCost STOP r = stepGas0 schedule"
| "getStepCost RETURN r = stepGas0 schedule"
| "getStepCost REVERT r = stepGas0 schedule"
| "getStepCost SSTORE r = stepGas0 schedule"
  \<comment> \<open>Tier 1\<close>
| "getStepCost ADDRESS r = tier r (stepGas1 schedule)"
| "getStepCost ORIGIN r = tier r (stepGas1 schedule)"
| "getStepCost CALLER r = tier r (stepGas1 schedule)"
| "getStepCost CALLVALUE r = tier r (stepGas1 schedule)"
| "getStepCost CALLDATASIZE r = tier r (stepGas1 schedule)"
| "getStepCost RETURNDATASIZE r = tier r (stepGas1 schedule)"
| "getStepCost CODESIZE r = tier r (stepGas1 schedule)"
| "getStepCost GASPRICE r = tier r (stepGas1 schedule)"
| "getStepCost COINBASE r = tier r (stepGas1 schedule)"
| "getStepCost TIMESTAMP r = tier r (stepGas1 schedule)"
| "getStepCost NUMBER r = tier r (stepGas1 schedule)"
| "getStepCost DIFFICULTY r = tier r (stepGas1 schedule)"
| "getStepCost GASLIMIT r = tier r (stepGas1 schedule)"
| "getStepCost POP r = tier r (stepGas1 schedule)"
| "getStepCost PC r = tier r (stepGas1 schedule)"
| "getStepCost MSIZE r = tier r (stepGas1 schedule)"
| "getStepCost GAS r = tier r (stepGas1 schedule)"
  \<comment> \<open>Tier 2\<close>
| "getStepCost ADD r = tier r (stepGas2 schedule)"
| "getStepCost SUB r = tier r (stepGas2 schedule)"
| "getStepCost LT r = tier r (stepGas2 schedule)"
| "getStepCost GT r = tier r (stepGas2 schedule)"
| "getStepCost SLT r = tier r (stepGas2 schedule)"
| "getStepCost SGT r = tier r (stepGas2 schedule)"
| "getStepCost EQ r = tier r (stepGas2 schedule)"
| "getStepCost ISZERO r = tier r (stepGas2 schedule)"
| "getStepCost AND r = tier r (stepGas2 schedule)"
| "getStepCost OR r = tier r (stepGas2 schedule)"
| "getStepCost XOR r = tier r (stepGas2 schedule)"
| "getStepCost NOT r = tier r (stepGas2 schedule)"
| "getStepCost BYTE r = tier r (stepGas2 schedule)"
| "getStepCost CALLDATALOAD r = tier r (stepGas2 schedule)"
| "getStepCost CALLDATACOPY r = tier r (stepGas2 schedule)"
| "getStepCost RETURNDATACOPY r = tier r (stepGas2 schedule)"
| "getStepCost CODECOPY r = tier r (stepGas2 schedule)"
| "getStepCost MLOAD r = tier r (stepGas2 schedule)"
| "getStepCost MSTORE r = tier r (stepGas2 schedule)"
| "getStepCost MSTORE8 r = tier r (stepGas2 schedule)"
| "getStepCost (PUSH n) r = tier r (stepGas2 schedule)"
| "getStepCost (DUP n) r = tier r (stepGas2 schedule)"
| "getStepCost (SWAP n) r = tier r (stepGas2 schedule)"
  \<comment> \<open>Tier 3\<close>
| "getStepCost MUL r = tier r (stepGas3 schedule)"
| "getStepCost DIV r = tier r (stepGas3 schedule)"
| "getStepCost SDIV r = tier r (stepGas3 schedule)"
| "getStepCost MOD r = tier r (stepGas3 schedule)"
| "getStepCost SMOD r = tier r (stepGas3 schedule)"
| "getStepCost SIGNEXTEND r = tier r (stepGas3 schedule)"
  \<comment> \<open>Tier 4\<close>
| "getStepCost ADDMOD r = tier r (stepGas4 schedule)"
| "getStepCost MULMOD r = tier r (stepGas4 schedule)"
| "getStepCost JUMP r = tier r (stepGas4 schedule)"
  \<comment> \<open>Tier 5\<close>
| "getStepCost EXP r = tier r (stepGas5 schedule)"
| "getStepCost JUMPI r = tier r (stepGas5 schedule)"
  \<comment> \<open>Tier 6\<close>
| "getStepCost BALANCE r = since_tangerine r 1000 400 (stepGas6 schedule)"
| "getStepCost EXTCODESIZE r = since_tangerine r 1000 700 (stepGas6 schedule)"
| "getStepCost EXTCODECOPY r = since_tangerine r 1000 700 (stepGas6 schedule)"
| "getStepCost BLOCKHASH r = stepGas6 schedule"
| "getStepCost SHA3 r = sha3Gas schedule"
| "getStepCost SLOAD r = since_tangerine r 1000 200 (sloadGas schedule)"
| "getStepCost JUMPDEST r = jumpdestGas schedule"
| "getStepCost (LOG numTopics) r =
     (if r \<ge> EVM_AION then 500 else logGas schedule) +
     of_nat numTopics * (if r \<ge> EVM_AION then 500 else logTopicGas schedule)"
| "getStepCost CALL r = since_tangerine r 1000 700 (callGas schedule)"
| "getStepCost CALLCODE r = since_tangerine r 1000 700 (callGas schedule)"
| "getStepCost DELEGATECALL r = since_tangerine r 1000 700 (callGas schedule)"
| "getStepCost STATICCALL r = since_tangerine r 1000 700 (callGas schedule)"
| "getStepCost CREATE r = (if r \<ge> EVM_AION then 200000 else createGas schedule)"
| "getStepCost SELFDESTRUCT r = (if r \<ge> EVM_TANGERINE_WHISTLE then 5000 else stepGas0 schedule)"
| "getStepCost (INVALID b) r = 0"


section \<open>Cost blocks\<close>

text \<open>
  The compile-time state. \<open>m_checkCall\<close> says whether a check call with a mocked cost has been placed
  and not yet patched; \<open>checks\<close> are the check calls placed so far, oldest first, as they are once
  patched: \<open>Some c\<close> with the cost \<open>c\<close> as its operand, \<open>None\<close> when it was erased.
\<close>

record GasMeter =
  m_blockCost :: i64
  m_checkCall :: bool
  checks :: "i64 option list"

definition gm_init :: GasMeter where
  "gm_init = \<lparr>m_blockCost = 0, m_checkCall = False, checks = []\<rparr>"

definition gm_count :: "evm_revision \<Rightarrow> Instruction \<Rightarrow> GasMeter \<Rightarrow> GasMeter" where
  "gm_count r inst g =
     (let g' = (if \<not> m_checkCall g then g\<lparr>m_checkCall := True\<rparr> else g)
      in g'\<lparr>m_blockCost := m_blockCost g' + getStepCost inst r\<rparr>)"

definition commitCostBlock :: "GasMeter \<Rightarrow> GasMeter" where
  "commitCostBlock g =
     (if m_checkCall g
      then if m_blockCost g = 0
        then g\<lparr>checks := checks g @ [None], m_checkCall := False\<rparr>
        else g\<lparr>checks := checks g @ [Some (m_blockCost g)], m_checkCall := False, m_blockCost := 0\<rparr>
      else g)"


section \<open>What a check does\<close>

lemma word_sle_zero: "(0::i64) <=s w \<longleftrightarrow> 0 \<le> sint w"
  by (simp add: word_sle_eq)

lemma gas_check_iff [gas_simps]:
  assumes "0 \<le> sint (gas s)" "0 \<le> sint c"
  shows "gas_check c s = (if sint c \<le> sint (gas s) then Some (s\<lparr>gas := gas s - c\<rparr>) else None)"
  using assms by (simp add: gas_check_def Let_def word_sle_zero gas_simps)

lemma gas_check_gas:
  assumes "gas_check c s = Some s'"
  shows "s' = s\<lparr>gas := gas s - c\<rparr>" "0 \<le> sint (gas s')"
  using assms by (auto simp: gas_check_def Let_def word_sle_zero split: if_splits)

lemma gas_check_twice:
  assumes "0 \<le> sint (gas s)" "0 \<le> sint c" "0 \<le> sint d" "sint c + sint d < 2 ^ 63"
  shows "Option.bind (gas_check c s) (gas_check d) = gas_check (c + d) s"
proof -
  have "sint (c + d) = sint c + sint d"
    using assms by (intro sint64_add) auto
  then show ?thesis
    using assms by (auto simp: gas_simps diff_diff_eq)
qed

lemma gas_check_commute:
  assumes "0 \<le> sint (gas s)" "0 \<le> sint c" "0 \<le> sint d" "sint c + sint d < 2 ^ 63"
  shows "Option.bind (gas_check c s) (gas_check d) = Option.bind (gas_check d s) (gas_check c)"
  using assms by (simp add: gas_check_twice add.commute)

lemma gasMax_sint [gas_simps]: "sint gasMax = 2 ^ 63 - 1"
  by (simp add: gasMax_def)

lemma count128_iff:
  assumes "0 \<le> sint (gas s)" "gas s \<noteq> gasMax"
  shows "count128 c s =
    (if uint c \<le> sint (gas s) then Some (s\<lparr>gas := gas s - ucast c\<rparr>) else None)"
proof (cases "(ucast gasMax :: i128) < c")
  case True
  have "sint (gas s) \<noteq> sint gasMax" using assms(2) by (simp add: sint64_inj)
  then have less: "sint (gas s) < sint gasMax"
    using sint64_range [of "gas s"] by (simp add: gasMax_sint)
  have "uint c > 2 ^ 63 - 1"
    using True by (simp add: word_less_def gasMax_def)
  with True less assms show ?thesis
    by (simp add: count128_def gas_simps)
next
  case False
  then have "uint c < 2 ^ 63"
    by (simp add: word_less_def gasMax_def)
  then have "sint (ucast c :: i64) = uint c"
    by (subst sint64_nonneg_uint) (simp_all add: sint64_small uint_up_ucast unsigned_ucast_eq take_bit_int_eq_self)
  with False assms show ?thesis
    by (simp add: count128_def gas_simps)
qed

section \<open>Costs\<close>

lemma bitlen_0 [simp]: "bitlen 0 = 0"
  by (simp add: bitlen.simps)

lemma bitlen_pos: "0 < n \<Longrightarrow> bitlen n = Suc (bitlen (n div 2))"
  by (subst bitlen.simps) simp

lemma bitlen_le_iff: "bitlen n \<le> k \<longleftrightarrow> n < 2 ^ k"
proof (induction k arbitrary: n)
  case 0
  then show ?case by (cases "n = 0") (simp_all add: bitlen_pos)
next
  case (Suc k)
  have "n div 2 < 2 ^ k \<longleftrightarrow> n < 2 ^ Suc k" by (simp add: div_less_iff_less_mult mult.commute)
  with Suc show ?case by (cases "n = 0") (simp_all add: bitlen_pos)
qed

lemma bitlen_word_le: "bitlen (unat (w :: 'a::len word)) \<le> LENGTH('a)"
  by (simp add: bitlen_le_iff unsigned_less)

lemma Least_bytes: "(LEAST k. n < 256 ^ k) = (bitlen n + 7) div 8"
proof (rule Least_equality)
  have *: "n < 256 ^ k \<longleftrightarrow> bitlen n \<le> 8 * k" for k
    by (simp add: bitlen_le_iff power_mult)
  show "n < 256 ^ ((bitlen n + 7) div 8)" unfolding * by linarith
  show "(bitlen n + 7) div 8 \<le> k" if "n < 256 ^ k" for k
    using that unfolding * by linarith
qed

lemma sigBytes_eq:
  "(128 - ucast (ctlz (e :: i128)) + 7) div 8 = (of_nat ((bitlen (unat e) + 7) div 8) :: i64)"
proof -
  have le: "bitlen (unat e) \<le> 128" using bitlen_word_le [of e] by simp
  have "unat (ucast (ctlz e) :: i64) = 128 - bitlen (unat e)"
    by (simp add: ctlz_def unsigned_ucast_eq unat_of_nat take_bit_nat_eq_self del: of_nat_diff)
  then have "(ucast (ctlz e) :: i64) = of_nat (128 - bitlen (unat e))"
    by (metis of_nat_unat ucast_id)
  also have "\<dots> = 128 - of_nat (bitlen (unat e))" using le by (simp add: of_nat_diff)
  finally have "128 - ucast (ctlz e) + 7 = (of_nat (bitlen (unat e) + 7) :: i64)" by simp
  then show ?thesis
    using le by (simp add: word_unat_eq_iff unat_div unat_of_nat del: of_nat_add)
qed

lemma exponentByteCost_range: "sint (exponentByteCost r) \<in> {1, 10, 50}"
  by (simp add: exponentByteCost_def schedule_def)

lemma sint64_of_nat_mult:
  assumes "n * m < 2 ^ 63"
  shows "sint (of_nat n * of_nat m :: i64) = int n * int m"
proof -
  have "- (2 ^ 63) \<le> int (n * m)" "int (n * m) < 2 ^ 63"
    using of_nat_less_iff [of "n * m" "2 ^ 63", where ?'a = int] assms by (simp_all del: of_nat_mult)
  then have "sint (word_of_int (int (n * m)) :: i64) = int (n * m)" by (rule sint64_of_int)
  then show ?thesis by simp
qed

text \<open>The cost of EXP counts the significant bytes of the exponent.\<close>

lemma countExp_cost_eq:
  "sint (countExp_cost r e) = int (LEAST k. unat e < 256 ^ k) * sint (exponentByteCost r)"
proof -
  define b where "b = nat (sint (exponentByteCost r))"
  have b: "sint (exponentByteCost r) = int b" "b \<le> 50"
    using exponentByteCost_range [of r] by (auto simp: b_def)
  then have b': "exponentByteCost r = of_nat b"
    by (metis of_int_of_nat_eq of_int_sint scast_id)
  have "bitlen (unat e) \<le> 128" using bitlen_word_le [of e] by simp
  then have "(bitlen (unat e) + 7) div 8 \<le> 16" by linarith
  then have "(bitlen (unat e) + 7) div 8 * b \<le> 16 * 50" using b(2) by (rule mult_le_mono)
  then show ?thesis
    unfolding countExp_cost_def Let_def sigBytes_eq Least_bytes b(1)
    by (subst b', subst sint64_of_nat_mult) simp_all
qed

lemma countExp_cost_range: "0 \<le> sint (countExp_cost r e)" "sint (countExp_cost r e) \<le> 800"
proof -
  have "bitlen (unat e) \<le> 128" using bitlen_word_le [of e] by simp
  then have *: "int (LEAST k. unat e < 256 ^ k) \<le> 16" unfolding Least_bytes by linarith
  show "0 \<le> sint (countExp_cost r e)" "sint (countExp_cost r e) \<le> 800"
    using exponentByteCost_range [of r] * by (auto simp: countExp_cost_eq)
qed

lemma sstore_cost_range: "sint (sstore_cost r old new) \<in> {5000, 8000, 20000}"
  by (simp add: sstore_cost_def Let_def schedule_def)

definition cost_ok :: "i64 \<Rightarrow> bool" where
  "cost_ok c \<longleftrightarrow> 0 \<le> sint c \<and> sint c \<le> 200000"

lemma cost_ok_choices:
  "cost_ok c \<Longrightarrow> cost_ok (tier r c)"
  "cost_ok a \<Longrightarrow> cost_ok b \<Longrightarrow> cost_ok c \<Longrightarrow> cost_ok (since_tangerine r a b c)"
  "cost_ok a \<Longrightarrow> cost_ok b \<Longrightarrow> cost_ok (if P then a else b)"
  by (simp_all add: tier_def since_tangerine_def, simp_all add: cost_ok_def)

lemma cost_ok_schedule:
  "cost_ok (stepGas0 schedule)" "cost_ok (stepGas1 schedule)" "cost_ok (stepGas2 schedule)"
  "cost_ok (stepGas3 schedule)" "cost_ok (stepGas4 schedule)" "cost_ok (stepGas5 schedule)"
  "cost_ok (stepGas6 schedule)" "cost_ok (sha3Gas schedule)" "cost_ok (sloadGas schedule)"
  "cost_ok (jumpdestGas schedule)" "cost_ok (createGas schedule)" "cost_ok (callGas schedule)"
  "cost_ok 0" "cost_ok 200" "cost_ok 400" "cost_ok 700" "cost_ok 1000" "cost_ok 5000"
  "cost_ok 200000"
  by (simp_all add: cost_ok_def schedule_def)

lemma cost_ok_LOG: "n \<le> 4 \<Longrightarrow>
    cost_ok ((if EVM_AION \<le> r then 500 else logGas schedule) +
      of_nat n * (if EVM_AION \<le> r then 500 else logTopicGas schedule))"
proof -
  assume "n \<le> 4"
  then consider "n = 0" | "n = 1" | "n = 2" | "n = 3" | "n = 4" by linarith
  then show ?thesis by cases (simp_all add: cost_ok_def schedule_def)
qed

text \<open>No step costs a negative amount or more than the 200000 of CREATE.\<close>

lemma getStepCost_ok: "wf_inst i \<Longrightarrow> cost_ok (getStepCost i r)"
  by (cases i; (simp only: getStepCost.simps cost_ok_choices cost_ok_schedule)?;
      simp only: getStepCost.simps wf_inst_simps cost_ok_LOG)

lemma getStepCost_JUMPDEST: "sint (getStepCost JUMPDEST r) = 1"
  by (simp add: schedule_def)


section \<open>Charging\<close>

lemma countExp_unfold:
  assumes "0 \<le> sint (gas s)"
  shows "countExp r e s = (let c = int (LEAST k. unat e < 256 ^ k) * sint (exponentByteCost r) in
    if c \<le> sint (gas s) then Some (s\<lparr>gas := gas s - word_of_int c\<rparr>) else None)"
proof -
  have "countExp_cost r e = word_of_int (sint (countExp_cost r e))"
    by (metis of_int_sint scast_id)
  with assms countExp_cost_range(1) [of r e] show ?thesis
    by (simp add: countExp_def count64_def gas_simps Let_def flip: countExp_cost_eq)
qed

text \<open>
  The dynamic part of the cost of EXP. The bit counting of the generated code charges, for every
  128-bit exponent, the byte price of the revision times the least number of bytes that hold the
  exponent, and aborts exactly when the gas counter is below that.
\<close>

theorem countExp_charges_significant_bytes:
  assumes "0 \<le> sint (gas s)"
  shows "let n = (LEAST k. unat e < 256 ^ k); c = int n * sint (exponentByteCost r) in
    countExp r e s =
      (if c \<le> sint (gas s) then Some (s\<lparr>gas := gas s - word_of_int c\<rparr>) else None)"
  using assms by (simp add: countExp_unfold Let_def)

definition sample_rt :: "i64 \<Rightarrow> unit rt" where
  "sample_rt g = \<lparr>gas = g, mem = \<lparr>arr_data = [], arr_size = 0, arr_cap = 0\<rparr>, txctx = None,
     retbuf = [], ret_range = None, host = (), call_ret = 0, pAddr = []\<rparr>"

theorem countExp_charges_witness:
  "\<exists>n. n = (LEAST k. unat (0x1ff :: i128) < 256 ^ k) \<and>
     countExp EVM_BYZANTIUM 0x1ff (sample_rt 1000) =
       (if int n * 50 \<le> 1000
        then Some ((sample_rt 1000)\<lparr>gas := 1000 - word_of_int (int n * 50)\<rparr>) else None)"
  using countExp_charges_significant_bytes [of "sample_rt 1000" "0x1ff" EVM_BYZANTIUM]
  by (simp add: sample_rt_def Let_def exponentByteCost_def less_eq_evm_revision_def)

text \<open>
  Charging a 128-bit cost. The clamping to the largest 64-bit gas makes the check exact, for
  every cost: it succeeds when the cost is at most the gas left and then subtracts it. The single
  exception is a counter that holds the largest gas itself, which a larger cost empties instead of
  aborting.
\<close>

theorem count128_exact:
  assumes "0 \<le> sint (gas s)"
  shows "count128 c s =
    (if uint c \<le> sint (gas s) then Some (s\<lparr>gas := gas s - ucast c\<rparr>)
     else if gas s = gasMax then Some (s\<lparr>gas := 0\<rparr>) else None)"
proof (cases "gas s = gasMax \<and> \<not> uint c \<le> sint (gas s)")
  case True
  then have "(ucast gasMax :: i128) < c"
    by (simp add: gasMax_sint word_less_def, simp add: gasMax_def)
  moreover have "\<not> uint c \<le> 9223372036854775807" using True gasMax_sint by auto
  ultimately show ?thesis
    using True by (simp add: count128_def gas_simps)
next
  case False
  show ?thesis
  proof (cases "gas s = gasMax")
    case True
    with False have "\<not> (ucast gasMax :: i128) < c" "uint c < 2 ^ 63"
      by (simp_all add: gasMax_sint word_less_def, simp_all add: gasMax_def)
    moreover from this have "sint (ucast c :: i64) = uint c"
      by (subst sint64_small)
        (simp_all add: unsigned_ucast_eq take_bit_int_eq_self)
    ultimately show ?thesis
      using assms False True by (simp add: count128_def gas_simps)
  qed (simp add: assms count128_iff)
qed

theorem count128_exact_witness:
  "count128 (2 ^ 64 + 1) (sample_rt 5) = None \<and>
   count128 3 (sample_rt 5) = Some ((sample_rt 5)\<lparr>gas := 2\<rparr>)"
  using count128_exact [of "sample_rt 5" "2 ^ 64 + 1"] count128_exact [of "sample_rt 5" 3]
  by (simp add: sample_rt_def gasMax_def)

end
