(* ===== verification/LocalStack.thy ===== *)
theory LocalStack
  imports FVM_Prelude
begin

text \<open>
  The symbolic stack of a basic block: class \<open>LocalStack\<close> of
  \<^verbatim>\<open>src/fastvm/libevmjit/BasicBlock.cpp\<close>.

  While a block is compiled, the items it pushes stay in LLVM registers (\<open>m_local\<close>, back of the
  vector on top), and items below the block's own are fetched from the machine stack in memory on
  first use and remembered (\<open>m_input\<close>, entry \<open>i\<close> for the slot \<open>- i - 1\<close> relative to the stack pointer
  at block entry). \<open>finalize\<close> writes everything back. \<open>m_minSize\<close> and \<open>m_maxSize\<close> become operands of
  the call of \<open>stack.prepare\<close> at the start of the block, which checks underflow and overflow once for
  the whole block.

  The record is polymorphic in the items. A load from the slot \<open>j\<close> is \<open>load j\<close>: no store to the stack
  happens before \<open>finalize\<close>, so a load gives what the slot held at block entry. The view of a stack
  (\<open>ls_view\<close>) is the item at each depth; \<open>symbolic_stack\<close> is the interface the compiler relies on,
  stated over views.
\<close>

section \<open>Operations\<close>

record 'v LocalStack =
  m_input :: "'v option list"
  m_local :: "'v list"
  m_globalPops :: int
  m_minSize :: int
  m_maxSize :: int

definition ls_init :: "'v LocalStack" where
  "ls_init = \<lparr>m_input = [], m_local = [], m_globalPops = 0, m_minSize = 0, m_maxSize = 0\<rparr>"

definition ls_size :: "'v LocalStack \<Rightarrow> int" where
  "ls_size ls = int (length (m_local ls)) - m_globalPops ls"

definition ls_idx :: "nat \<Rightarrow> 'v LocalStack \<Rightarrow> nat" where
  "ls_idx index ls = nat (int index - int (length (m_local ls)) + m_globalPops ls)"

definition ls_get :: "(int \<Rightarrow> 'v) \<Rightarrow> nat \<Rightarrow> 'v LocalStack \<Rightarrow> 'v \<times> 'v LocalStack" where
  "ls_get load index ls =
     (if index < length (m_local ls) then (rev (m_local ls) ! index, ls)
      else
        let idx = ls_idx index ls;
            inp = (if length (m_input ls) \<le> idx
                   then m_input ls @ replicate (idx + 1 - length (m_input ls)) None
                   else m_input ls)
        in case inp ! idx of
             Some item \<Rightarrow> (item, ls\<lparr>m_input := inp\<rparr>)
           | None \<Rightarrow>
               let globalIdx = - int idx - 1; item = load globalIdx
               in (item, ls\<lparr>m_input := inp[idx := Some item],
                            m_minSize := min (m_minSize ls) globalIdx\<rparr>))"

definition ls_set :: "nat \<Rightarrow> 'v \<Rightarrow> 'v LocalStack \<Rightarrow> 'v LocalStack" where
  "ls_set index word ls =
     (if index < length (m_local ls)
      then ls\<lparr>m_local := (m_local ls)[length (m_local ls) - 1 - index := word]\<rparr>
      else ls\<lparr>m_input := (m_input ls)[ls_idx index ls := Some word]\<rparr>)"

definition ls_push :: "'v \<Rightarrow> 'v LocalStack \<Rightarrow> 'v LocalStack" where
  "ls_push value ls =
     (let ls' = ls\<lparr>m_local := m_local ls @ [value]\<rparr>
      in ls'\<lparr>m_maxSize := max (m_maxSize ls') (ls_size ls')\<rparr>)"

definition ls_pop :: "(int \<Rightarrow> 'v) \<Rightarrow> 'v LocalStack \<Rightarrow> 'v \<times> 'v LocalStack" where
  "ls_pop load ls =
     (let (item, ls1) = ls_get load 0 ls;
          ls2 = (if 0 < length (m_local ls1) then ls1\<lparr>m_local := butlast (m_local ls1)\<rparr>
                 else ls1\<lparr>m_globalPops := m_globalPops ls1 + 1\<rparr>)
      in (item, ls2\<lparr>m_minSize := min (m_minSize ls2) (ls_size ls2)\<rparr>))"

definition ls_dup :: "(int \<Rightarrow> 'v) \<Rightarrow> nat \<Rightarrow> 'v LocalStack \<Rightarrow> 'v LocalStack" where
  "ls_dup load index ls = (let (val, ls') = ls_get load index ls in ls_push val ls')"

definition ls_swap :: "(int \<Rightarrow> 'v) \<Rightarrow> nat \<Rightarrow> 'v LocalStack \<Rightarrow> 'v LocalStack" where
  "ls_swap load index ls =
     (let (val, ls1) = ls_get load index ls;
          (tos, ls2) = ls_get load 0 ls1
      in ls_set 0 val (ls_set index tos ls2))"

text \<open>
  The stores of \<open>finalize\<close>, in order: \<open>k\<close> slots from \<open>g\<close> on are left, \<open>inp\<close> and \<open>loc\<close> are what the
  iterators \<open>inputIt\<close> and \<open>localIt\<close> have in front of them.
\<close>

primrec finalize_loop ::
  "nat \<Rightarrow> int \<Rightarrow> int \<Rightarrow> 'v option list \<Rightarrow> 'v list \<Rightarrow> (int \<times> 'v) list" where
  "finalize_loop 0 g pops inp loc = []"
| "finalize_loop (Suc k) g pops inp loc =
     (if g < - pops
      then case hd inp of
             None \<Rightarrow> finalize_loop k (g + 1) pops (tl inp) loc
           | Some item \<Rightarrow> (g, item) # finalize_loop k (g + 1) pops (tl inp) loc
      else (g, hd loc) # finalize_loop k (g + 1) pops inp (tl loc))"

definition ls_finalize :: "'v LocalStack \<Rightarrow> (int \<times> 'v) list" where
  "ls_finalize ls =
     (let g = - int (length (m_input ls)) in
      finalize_loop (nat (ls_size ls - g)) g (m_globalPops ls) (rev (m_input ls)) (m_local ls))"

text \<open>The generated function \<open>stack.prepare\<close>: the new stack size, or \<open>None\<close> for the abort.\<close>

definition stackSizeLimit :: i64 where
  "stackSizeLimit = 1024"

definition stack_prepare :: "i64 \<Rightarrow> i64 \<Rightarrow> i64 \<Rightarrow> i64 \<Rightarrow> i64 option" where
  "stack_prepare sz mn mx diff =
     (let minSize = sz + mn;
          maxSize = sz + mx;
          minOk = 0 <=s minSize;
          maxOk = maxSize \<le> stackSizeLimit
      in if minOk \<and> maxOk then Some (sz + diff) else None)"


section \<open>The interface\<close>

text \<open>The item at depth \<open>i\<close>, 0 for the top, as the rest of the block sees it.\<close>

definition ls_view :: "(int \<Rightarrow> 'v) \<Rightarrow> 'v LocalStack \<Rightarrow> nat \<Rightarrow> 'v" where
  "ls_view load ls i =
     (if i < length (m_local ls) then rev (m_local ls) ! i
      else let idx = ls_idx i ls in
        case (if idx < length (m_input ls) then m_input ls ! idx else None) of
          Some v \<Rightarrow> v
        | None \<Rightarrow> load (- int idx - 1))"

definition ls_inv :: "'v LocalStack \<Rightarrow> bool" where
  "ls_inv ls \<longleftrightarrow>
     0 \<le> m_globalPops ls \<and> m_globalPops ls \<le> int (length (m_input ls)) \<and>
     m_minSize ls \<le> - m_globalPops ls \<and> ls_size ls \<le> m_maxSize ls \<and> 0 \<le> m_maxSize ls \<and>
     (\<forall>idx < length (m_input ls). m_input ls ! idx \<noteq> None \<longrightarrow> m_minSize ls \<le> - int idx - 1)"

text \<open>
  What the compiler relies on. A stack operation acts on the view as the operation of its name on a
  stack, and on the triple of the current, least and greatest size, relative to block entry, as the
  rules below say: \<open>extent\<close> of an operation needs the items down to depth \<open>i\<close>.
\<close>

type_synonym extent = "int \<times> int \<times> int"

fun extent_push :: "extent \<Rightarrow> extent" where
  "extent_push (c, mn, mx) = (c + 1, mn, max mx (c + 1))"

fun extent_pop :: "extent \<Rightarrow> extent" where
  "extent_pop (c, mn, mx) = (c - 1, min mn (c - 1), mx)"

fun extent_need :: "nat \<Rightarrow> extent \<Rightarrow> extent" where
  "extent_need i (c, mn, mx) = (c, min mn (c - int i - 1), mx)"

locale symbolic_stack =
  fixes push :: "'v \<Rightarrow> 's \<Rightarrow> 's"
    and pop :: "'s \<Rightarrow> 'v \<times> 's"
    and dup :: "nat \<Rightarrow> 's \<Rightarrow> 's"
    and swap :: "nat \<Rightarrow> 's \<Rightarrow> 's"
    and view :: "'s \<Rightarrow> nat \<Rightarrow> 'v"
    and extent :: "'s \<Rightarrow> extent"
    and inv :: "'s \<Rightarrow> bool"
  assumes inv_push: "inv s \<Longrightarrow> inv (push v s)"
    and view_push: "inv s \<Longrightarrow> view (push v s) = case_nat v (view s)"
    and extent_push: "inv s \<Longrightarrow> extent (push v s) = extent_push (extent s)"
    and inv_pop: "inv s \<Longrightarrow> inv (snd (pop s))"
    and pop_top: "inv s \<Longrightarrow> fst (pop s) = view s 0"
    and view_pop: "inv s \<Longrightarrow> view (snd (pop s)) = (\<lambda>i. view s (Suc i))"
    and extent_pop: "inv s \<Longrightarrow> extent (snd (pop s)) = extent_pop (extent s)"
    and inv_dup: "inv s \<Longrightarrow> inv (dup i s)"
    and view_dup: "inv s \<Longrightarrow> view (dup i s) = case_nat (view s i) (view s)"
    and extent_dup: "inv s \<Longrightarrow> extent (dup i s) = extent_push (extent_need i (extent s))"
    and inv_swap: "inv s \<Longrightarrow> 0 < i \<Longrightarrow> inv (swap i s)"
    and view_swap: "inv s \<Longrightarrow> 0 < i \<Longrightarrow> view (swap i s) = (view s)(0 := view s i, i := view s 0)"
    and extent_swap: "inv s \<Longrightarrow> 0 < i \<Longrightarrow> extent (swap i s) = extent_need i (extent s)"

definition ls_extent :: "'v LocalStack \<Rightarrow> extent" where
  "ls_extent ls = (ls_size ls, m_minSize ls, m_maxSize ls)"



section \<open>LocalStack implements the interface\<close>

lemma ls_idx_ge:
  "ls_inv ls \<Longrightarrow> length (m_local ls) \<le> i \<Longrightarrow>
   int (ls_idx i ls) = int i - int (length (m_local ls)) + m_globalPops ls"
  by (simp add: ls_idx_def ls_inv_def)

definition pad :: "nat \<Rightarrow> 'v option list \<Rightarrow> 'v option list" where
  "pad n xs = xs @ replicate (n - length xs) None"

lemma length_pad [simp]: "length (pad n xs) = max n (length xs)"
  by (auto simp: pad_def)

lemma nth_pad: "i < max n (length xs) \<Longrightarrow> pad n xs ! i = (if i < length xs then xs ! i else None)"
  by (auto simp: pad_def nth_append)

text \<open>Looking an item up: above the entry level nothing changes, below it the item is fetched.\<close>

lemma ls_get_local: "i < length (m_local ls) \<Longrightarrow> ls_get load i ls = (ls_view load ls i, ls)"
  by (simp add: ls_get_def ls_view_def)

lemma ls_get_global:
  assumes inv: "ls_inv ls" and i: "length (m_local ls) \<le> i"
  defines "idx \<equiv> ls_idx i ls"
  shows "ls_get load i ls =
    (ls_view load ls i,
     ls\<lparr>m_input := (pad (Suc idx) (m_input ls))[idx := Some (ls_view load ls i)],
        m_minSize := min (m_minSize ls) (- int idx - 1)\<rparr>)"
proof (cases "idx < length (m_input ls)")
  case False
  then have "pad (Suc idx) (m_input ls) ! idx = None" by (simp add: nth_pad)
  with False i show ?thesis
    by (simp add: ls_get_def ls_view_def idx_def pad_def Let_def)
next
  case True
  then have p: "pad (Suc idx) (m_input ls) = m_input ls" by (simp add: pad_def)
  show ?thesis
  proof (cases "m_input ls ! idx")
    case None
    with True i p show ?thesis
      by (simp add: ls_get_def ls_view_def idx_def Let_def)
  next
    case (Some v)
    with inv True have "m_minSize ls \<le> - int idx - 1" by (auto simp: ls_inv_def)
    moreover have "(m_input ls)[idx := Some v] = m_input ls"
      using True Some by (metis list_update_id)
    ultimately show ?thesis
      using True i p Some by (simp add: ls_get_def ls_view_def idx_def Let_def)
  qed
qed

lemma ls_get_value: "ls_inv ls \<Longrightarrow> fst (ls_get load i ls) = ls_view load ls i"
  by (cases "i < length (m_local ls)") (simp_all add: ls_get_local ls_get_global not_less)

lemma ls_get_frame:
  assumes "ls_inv ls"
  shows "m_local (snd (ls_get load i ls)) = m_local ls"
    and "m_globalPops (snd (ls_get load i ls)) = m_globalPops ls"
    and "m_maxSize (snd (ls_get load i ls)) = m_maxSize ls"
  using assms
  by (cases "i < length (m_local ls)"; simp add: ls_get_local ls_get_global not_less)+

lemma ls_get_input:
  assumes "ls_inv ls"
  shows "length (m_input ls) \<le> length (m_input (snd (ls_get load i ls)))"
    and "length (m_local ls) \<le> i \<Longrightarrow>
      ls_idx i ls < length (m_input (snd (ls_get load i ls)))"
  using assms
  by (cases "i < length (m_local ls)"; simp add: ls_get_local ls_get_global not_less)+

lemma ls_view_update:
  assumes "idx < length inp" "\<And>j. j < length inp \<Longrightarrow> j \<noteq> idx \<Longrightarrow>
      inp ! j = (if j < length (m_input ls) then m_input ls ! j else None)"
    "length (m_input ls) \<le> length inp"
  shows "ls_view load (ls\<lparr>m_input := inp[idx := Some v], m_minSize := mn\<rparr>) i =
    (if length (m_local ls) \<le> i \<and> ls_idx i ls = idx then v else ls_view load ls i)"
  using assms by (auto simp: ls_view_def ls_idx_def Let_def nth_list_update split: option.splits)

lemma ls_get_view:
  assumes "ls_inv ls"
  shows "ls_view load (snd (ls_get load i ls)) = ls_view load ls"
proof (cases "i < length (m_local ls)")
  case True
  then show ?thesis by (simp add: ls_get_local)
next
  case False
  have eq: "j = i" if "ls_idx j ls = ls_idx i ls" "length (m_local ls) \<le> j" for j
    using that False ls_idx_ge [OF assms, of i] ls_idx_ge [OF assms, of j] by simp
  show ?thesis
    using False assms
    by (intro ext, simp add: ls_get_global, subst ls_view_update) (auto simp: nth_pad dest: eq)
qed

lemma ls_get_extent:
  assumes "ls_inv ls"
  shows "ls_extent (snd (ls_get load i ls)) = extent_need i (ls_extent ls)"
  using assms ls_idx_ge [OF assms, of i]
  by (cases "i < length (m_local ls)")
    (auto simp: ls_get_local ls_get_global ls_extent_def ls_size_def ls_inv_def)

lemma ls_get_inv:
  assumes "ls_inv ls"
  shows "ls_inv (snd (ls_get load i ls))"
proof (cases "i < length (m_local ls)")
  case True
  then show ?thesis using assms by (simp add: ls_get_local)
next
  case False
  let ?idx = "ls_idx i ls"
  have "j < length (m_input ls)" if "j \<noteq> ?idx" "pad (Suc ?idx) (m_input ls) ! j \<noteq> None"
    "j < max (Suc ?idx) (length (m_input ls))" for j
    using that by (auto simp: nth_pad split: if_splits)
  then show ?thesis
    using assms False
    by (auto simp: ls_get_global ls_inv_def ls_size_def nth_list_update nth_pad min_def)
qed


text \<open>An item that has been looked up can be overwritten.\<close>

definition fetched :: "nat \<Rightarrow> 'v LocalStack \<Rightarrow> bool" where
  "fetched i ls \<longleftrightarrow> i < length (m_local ls) \<or>
     (ls_idx i ls < length (m_input ls) \<and> m_input ls ! ls_idx i ls \<noteq> None)"

lemma fetched_get: "ls_inv ls \<Longrightarrow> fetched i (snd (ls_get load i ls))"
  by (cases "i < length (m_local ls)")
    (auto simp: fetched_def ls_get_local ls_get_global not_less ls_idx_def)

lemma fetched_get_mono:
  assumes "ls_inv ls" "fetched j ls"
  shows "fetched j (snd (ls_get load i ls))"
  using assms
  by (cases "i < length (m_local ls)")
    (auto simp: fetched_def ls_get_local ls_get_global not_less ls_idx_def nth_list_update nth_pad)

lemma fetched_set: "fetched j (ls_set i v ls) \<longleftrightarrow> fetched j ls" if "fetched i ls"
  using that by (auto simp: fetched_def ls_set_def ls_idx_def nth_list_update split: if_splits)

lemma ls_set_inv: "ls_inv ls \<Longrightarrow> fetched i ls \<Longrightarrow> ls_inv (ls_set i v ls)"
  by (auto simp: fetched_def ls_set_def ls_inv_def ls_size_def nth_list_update
      split: if_splits)

lemma ls_set_extent: "ls_extent (ls_set i v ls) = ls_extent ls"
  by (auto simp: ls_set_def ls_extent_def ls_size_def)

lemma ls_set_view:
  assumes "ls_inv ls" "fetched i ls"
  shows "ls_view load (ls_set i v ls) = (ls_view load ls)(i := v)"
proof (cases "i < length (m_local ls)")
  case True
  have "rev ((m_local ls)[length (m_local ls) - Suc i := v]) ! j =
      (if j = i then v else rev (m_local ls) ! j)" if "j < length (m_local ls)" for j
    using that True by (auto simp: rev_nth nth_list_update)
  with True show ?thesis
    by (intro ext) (auto simp: ls_set_def ls_view_def ls_idx_def Let_def)
next
  case False
  have eq: "j = i" if "ls_idx j ls = ls_idx i ls" "length (m_local ls) \<le> j" for j
    using that False ls_idx_ge [OF assms(1), of i] ls_idx_ge [OF assms(1), of j] by simp
  show ?thesis
    using False assms eq
    by (intro ext)
      (auto simp: ls_set_def ls_view_def fetched_def ls_idx_def nth_list_update Let_def)
qed

lemma ls_push_inv: "ls_inv ls \<Longrightarrow> ls_inv (ls_push v ls)"
  by (auto simp: ls_inv_def ls_push_def ls_size_def Let_def)

lemma ls_push_view: "ls_view load (ls_push v ls) = case_nat v (ls_view load ls)"
proof
  fix i
  show "ls_view load (ls_push v ls) i = case_nat v (ls_view load ls) i"
    by (cases i) (auto simp: ls_view_def ls_push_def Let_def ls_idx_def)
qed

lemma ls_push_extent: "ls_extent (ls_push v ls) = extent_push (ls_extent ls)"
  by (auto simp: ls_extent_def ls_push_def ls_size_def Let_def)

lemma ls_pop_eq:
  "ls_pop load ls =
    (let ls1 = snd (ls_get load 0 ls);
         ls2 = (if m_local ls1 \<noteq> [] then ls1\<lparr>m_local := butlast (m_local ls1)\<rparr>
                else ls1\<lparr>m_globalPops := m_globalPops ls1 + 1\<rparr>)
     in (fst (ls_get load 0 ls), ls2\<lparr>m_minSize := min (m_minSize ls2) (ls_size ls2)\<rparr>))"
  by (simp add: ls_pop_def Let_def split_beta)

lemma ls_drop_view:
  assumes "ls_inv ls"
  shows "ls_view load ((if m_local ls \<noteq> [] then ls\<lparr>m_local := butlast (m_local ls)\<rparr>
      else ls\<lparr>m_globalPops := m_globalPops ls + 1\<rparr>)\<lparr>m_minSize := mn\<rparr>) i = ls_view load ls (Suc i)"
  using assms
  by (cases "m_local ls" rule: rev_cases)
    (auto simp: ls_view_def ls_idx_def ls_inv_def nth_append Let_def nat_add_distrib)

lemma ls_pop_view:
  assumes "ls_inv ls"
  shows "ls_view load (snd (ls_pop load ls)) = (\<lambda>i. ls_view load ls (Suc i))"
  using ls_drop_view [OF ls_get_inv [OF assms, of load 0], of load]
  by (intro ext) (simp add: ls_pop_eq Let_def ls_get_view [OF assms])

lemma ls_pop_extent:
  assumes "ls_inv ls"
  shows "ls_extent (snd (ls_pop load ls)) = extent_pop (ls_extent ls)"
  using ls_get_extent [OF assms, of load 0] ls_get_frame [OF assms, of load 0] assms
  by (cases "m_local ls" rule: rev_cases)
    (auto simp: ls_pop_eq Let_def ls_extent_def ls_size_def ls_inv_def)

lemma ls_pop_inv:
  assumes "ls_inv ls"
  shows "ls_inv (snd (ls_pop load ls))"
  using ls_get_inv [OF assms, of load 0] ls_get_frame [OF assms, of load 0]
    ls_get_input [OF assms, where load = load and i = 0] ls_idx_ge [OF assms, of 0]
  by (cases "m_local ls" rule: rev_cases)
    (auto simp: ls_pop_eq Let_def ls_inv_def ls_size_def min_le_iff_disj)

lemma extent_need_0: "extent_need 0 (extent_need i e) = extent_need i e"
  by (cases e) auto

lemma ls_swap_eq:
  "ls_swap load i ls =
    (let ls1 = snd (ls_get load i ls); ls2 = snd (ls_get load 0 ls1)
     in ls_set 0 (fst (ls_get load i ls)) (ls_set i (fst (ls_get load 0 ls1)) ls2))"
  by (simp add: ls_swap_def Let_def split_beta)

interpretation ls: symbolic_stack ls_push "ls_pop load" "ls_dup load" "ls_swap load"
  "ls_view load" ls_extent ls_inv
  for load :: "int \<Rightarrow> 'v"
proof
  fix s :: "'v LocalStack" and v i
  assume inv: "ls_inv s"
  let ?g = "snd (ls_get load i s)"
  note get = ls_get_inv [OF inv, of load i] ls_get_view [OF inv, of load i]
    ls_get_extent [OF inv, of load i] ls_get_value [OF inv, of load i]
  show "ls_inv (ls_push v s)" "ls_inv (snd (ls_pop load s))"
    using inv by (rule ls_push_inv, rule ls_pop_inv)
  show "ls_view load (ls_push v s) = case_nat v (ls_view load s)"
    by (rule ls_push_view)
  show "ls_extent (ls_push v s) = extent_push (ls_extent s)"
    by (rule ls_push_extent)
  show "fst (ls_pop load s) = ls_view load s 0"
    using ls_get_value [OF inv, of load 0] by (simp add: ls_pop_eq Let_def)
  show "ls_view load (snd (ls_pop load s)) = (\<lambda>i. ls_view load s (Suc i))"
    using inv by (rule ls_pop_view)
  show "ls_extent (snd (ls_pop load s)) = extent_pop (ls_extent s)"
    using inv by (rule ls_pop_extent)
  show "ls_inv (ls_dup load i s)"
    "ls_view load (ls_dup load i s) = case_nat (ls_view load s i) (ls_view load s)"
    "ls_extent (ls_dup load i s) = extent_push (extent_need i (ls_extent s))"
    using get by (simp_all add: ls_dup_def split_beta ls_push_inv ls_push_view ls_push_extent)
  assume i: "0 < i"
  let ?h = "snd (ls_get load 0 ?g)"
  note get0 = ls_get_inv [OF get(1), of load 0] ls_get_view [OF get(1), of load 0]
    ls_get_extent [OF get(1), of load 0] ls_get_value [OF get(1), of load 0]
  have f: "fetched i ?h" "fetched 0 ?h"
    using inv get by (simp_all add: fetched_get fetched_get_mono)
  show "ls_inv (ls_swap load i s)"
    "ls_view load (ls_swap load i s) = (ls_view load s)(0 := ls_view load s i, i := ls_view load s 0)"
    "ls_extent (ls_swap load i s) = extent_need i (ls_extent s)"
    using get get0 f i
    by (auto simp: ls_swap_eq Let_def ls_set_inv ls_set_view ls_set_extent fetched_set fun_upd_twist
      extent_need_0)
qed


text \<open>Writing back: below the new stack pointer, the memory holds the view.\<close>

definition apply_stores :: "(int \<times> 'v) list \<Rightarrow> (int \<Rightarrow> 'v) \<Rightarrow> int \<Rightarrow> 'v" where
  "apply_stores stores m = foldl (\<lambda>m (g, v). m(g := v)) m stores"

lemma apply_stores_simps [simp]:
  "apply_stores [] m = m"
  "apply_stores ((g, v) # ss) m = apply_stores ss (m(g := v))"
  by (simp_all add: apply_stores_def)

lemma apply_finalize_loop:
  assumes "g < - pops \<Longrightarrow> - pops - g \<le> int (length inp)"
    and "int k \<le> int (length loc) + max 0 (- pops - g)"
  shows "apply_stores (finalize_loop k g pops inp loc) m h =
    (if g \<le> h \<and> h < g + int k
     then if h < - pops then case inp ! nat (h - g) of None \<Rightarrow> m h | Some v \<Rightarrow> v
          else loc ! nat (h - max g (- pops))
     else m h)"
  using assms
proof (induction k arbitrary: g inp loc m)
  case 0
  then show ?case by auto
next
  case (Suc k)
  show ?case
  proof (cases "g < - pops")
    case True
    with Suc.prems obtain x xs where inp: "inp = x # xs"
      by (cases inp) auto
    have IH: "apply_stores (finalize_loop k (g + 1) pops xs loc) m' h =
      (if g + 1 \<le> h \<and> h < g + 1 + int k
       then if h < - pops then case xs ! nat (h - (g + 1)) of None \<Rightarrow> m' h | Some v \<Rightarrow> v
            else loc ! nat (h - max (g + 1) (- pops))
       else m' h)" for m'
      using True Suc.prems inp by (intro Suc.IH) auto
    have m: "max (g + 1) (- pops) = max g (- pops)" using True by simp
    have n: "nat (h - g) = Suc (nat (h - (g + 1)))" if "g + 1 \<le> h" using that by simp
    show ?thesis
    proof (cases "h = g")
      case True
      with \<open>g < - pops\<close> show ?thesis
        by (simp add: inp IH [unfolded True] split: option.split)
    next
      case False
      with True show ?thesis
        using n by (auto simp: inp IH m split: option.split)
    qed
  next
    case False
    with Suc.prems obtain x xs where loc: "loc = x # xs"
      by (cases loc) auto
    have IH: "apply_stores (finalize_loop k (g + 1) pops inp xs) m' h =
      (if g + 1 \<le> h \<and> h < g + 1 + int k
       then if h < - pops then case inp ! nat (h - (g + 1)) of None \<Rightarrow> m' h | Some v \<Rightarrow> v
            else xs ! nat (h - max (g + 1) (- pops))
       else m' h)" for m'
      using False Suc.prems loc by (intro Suc.IH) auto
    have "nat (h - max g (- pops)) = Suc (nat (h - max (g + 1) (- pops)))" if "g + 1 \<le> h"
      using that False by simp
    with False show ?thesis
      by (auto simp: loc IH)
  qed
qed

lemma finalize_view:
  assumes "ls_inv ls"
  shows "apply_stores (ls_finalize ls) load (ls_size ls - 1 - int i) = ls_view load ls i"
proof -
  let ?n = "length (m_input ls)" and ?h = "ls_size ls - 1 - int i"
  let ?k = "nat (ls_size ls + int ?n)"
  have pops: "0 \<le> m_globalPops ls" "m_globalPops ls \<le> int ?n"
    using assms by (auto simp: ls_inv_def)
  have eq: "apply_stores (ls_finalize ls) load ?h =
    (if - int ?n \<le> ?h \<and> ?h < - int ?n + int ?k
     then if ?h < - m_globalPops ls
          then case rev (m_input ls) ! nat (?h - - int ?n) of None \<Rightarrow> load ?h | Some v \<Rightarrow> v
          else m_local ls ! nat (?h - max (- int ?n) (- m_globalPops ls))
     else load ?h)"
    using pops unfolding ls_finalize_def Let_def
    by (subst apply_finalize_loop) (auto simp: ls_size_def)
  show ?thesis
  proof (cases "i < length (m_local ls)")
    case True
    then have "nat (?h - max (- int ?n) (- m_globalPops ls)) = length (m_local ls) - Suc i"
      using pops by (auto simp: ls_size_def)
    with True pops show ?thesis
      unfolding eq by (auto simp: ls_view_def ls_size_def rev_nth)
  next
    case False
    let ?idx = "ls_idx i ls"
    have idx: "?h = - int ?idx - 1" "- m_globalPops ls > ?h"
      using ls_idx_ge [OF assms, of i] False by (auto simp: ls_size_def)
    have "rev (m_input ls) ! nat (?h - - int ?n) = m_input ls ! ?idx" if "?idx < ?n"
      using that idx by (subst rev_nth) (auto simp: nat_diff_distrib' Suc_diff_Suc
          intro!: arg_cong [of _ _ "(!) _"])
    moreover have "?h < - int ?n + int ?k" if "- int ?n \<le> ?h"
      using that by auto
    ultimately show ?thesis
      using False idx(2) unfolding idx(1) eq [unfolded idx(1)]
      by (auto simp: ls_view_def Let_def)
  qed
qed

section \<open>The stack of the virtual machine\<close>

text \<open>
  The specification: a stack is a list of at most 1024 items, top first; an operation that would
  reach below the bottom or grow the stack beyond the limit fails.
\<close>

definition st_push :: "'v \<Rightarrow> 'v list \<Rightarrow> 'v list option" where
  "st_push v st = (if length st < 1024 then Some (v # st) else None)"

definition st_pop :: "'v list \<Rightarrow> ('v \<times> 'v list) option" where
  "st_pop st = (case st of [] \<Rightarrow> None | v # st' \<Rightarrow> Some (v, st'))"

definition st_dup :: "nat \<Rightarrow> 'v list \<Rightarrow> 'v list option" where
  "st_dup i st = (if i < length st then st_push (st ! i) st else None)"

definition st_swap :: "nat \<Rightarrow> 'v list \<Rightarrow> 'v list option" where
  "st_swap i st = (if i < length st then Some (st[0 := st ! i, i := st ! 0]) else None)"

text \<open>
  A symbolic stack over a machine stack of \<open>n\<close> items stands for the list \<open>st\<close>; its extent fits when
  the block neither reached below the bottom nor above the limit.
\<close>

definition stands_for :: "(nat \<Rightarrow> 'v) \<Rightarrow> extent \<Rightarrow> nat \<Rightarrow> 'v list \<Rightarrow> bool" where
  "stands_for view e n st \<longleftrightarrow>
     int (length st) = int n + fst e \<and> (\<forall>i < length st. st ! i = view i)"

definition fits :: "nat \<Rightarrow> extent \<Rightarrow> bool" where
  "fits n e \<longleftrightarrow> - int n \<le> fst (snd e) \<and> int n + snd (snd e) \<le> 1024"

lemma fits_push: "fits n (extent_push e) \<longleftrightarrow> fits n e \<and> int n + fst e < 1024"
  by (cases e) (auto simp: fits_def)

lemma fits_pop: "fits n (extent_pop e) \<longleftrightarrow> fits n e \<and> 0 < int n + fst e"
  by (cases e) (auto simp: fits_def)

lemma fits_need: "fits n (extent_need i e) \<longleftrightarrow> fits n e \<and> int i < int n + fst e"
  by (cases e) (auto simp: fits_def)

lemma fst_extent [simp]:
  "fst (extent_push e) = fst e + 1" "fst (extent_pop e) = fst e - 1"
  "fst (extent_need i e) = fst e"
  by (cases e; simp)+

context symbolic_stack
begin

lemma sim_push:
  assumes "inv s" "stands_for (view s) (extent s) n st" "fits n (extent s)"
  shows "st_push v st = (if fits n (extent (push v s)) then Some (v # st) else None)"
    and "stands_for (view (push v s)) (extent (push v s)) n (v # st)"
  using assms
  by (auto simp: st_push_def stands_for_def extent_push view_push fits_push nth_Cons
      split: nat.splits)

lemma sim_pop:
  assumes "inv s" "stands_for (view s) (extent s) n st" "fits n (extent s)"
  shows "st_pop st = (if fits n (extent (snd (pop s))) then Some (fst (pop s), tl st) else None)"
    and "fits n (extent (snd (pop s))) \<Longrightarrow>
      stands_for (view (snd (pop s))) (extent (snd (pop s))) n (tl st)"
  using assms
  by (auto simp: st_pop_def stands_for_def extent_pop view_pop pop_top fits_pop nth_tl
      split: list.splits)

lemma sim_dup:
  assumes "inv s" "stands_for (view s) (extent s) n st" "fits n (extent s)"
  shows "st_dup i st = (if fits n (extent (dup i s)) then Some (st ! i # st) else None)"
    and "fits n (extent (dup i s)) \<Longrightarrow>
      stands_for (view (dup i s)) (extent (dup i s)) n (st ! i # st)"
  using assms
  by (auto simp: st_dup_def st_push_def stands_for_def extent_dup view_dup fits_push fits_need
      nth_Cons split: nat.splits)

lemma sim_swap:
  assumes "inv s" "stands_for (view s) (extent s) n st" "fits n (extent s)" "0 < i"
  shows "st_swap i st =
      (if fits n (extent (swap i s)) then Some (st[0 := st ! i, i := st ! 0]) else None)"
    and "fits n (extent (swap i s)) \<Longrightarrow>
      stands_for (view (swap i s)) (extent (swap i s)) n (st[0 := st ! i, i := st ! 0])"
proof -
  have "st ! 0 = view s 0" if "i < length st"
    using that assms(2) unfolding stands_for_def by (metis gr_zeroI not_less_zero)
  with assms show "st_swap i st =
      (if fits n (extent (swap i s)) then Some (st[0 := st ! i, i := st ! 0]) else None)"
    and "fits n (extent (swap i s)) \<Longrightarrow>
      stands_for (view (swap i s)) (extent (swap i s)) n (st[0 := st ! i, i := st ! 0])"
    by (auto simp: st_swap_def stands_for_def extent_swap view_swap fits_need nth_list_update)
qed

end

text \<open>The words that the compiler patches into the call of \<open>stack.prepare\<close>.\<close>

lemma stack_prepare_iff:
  assumes "n \<le> 1024" "- (2 ^ 62) \<le> mn" "mn \<le> 0" "0 \<le> mx" "mx < 2 ^ 62"
  shows "stack_prepare (of_nat n) (word_of_int mn) (word_of_int mx) (word_of_int c) =
    (if fits n (c, mn, mx) then Some (word_of_int (int n + c)) else None)"
proof -
  have s: "sint (of_nat n + word_of_int mn :: i64) = int n + mn"
  proof -
    have "of_nat n + word_of_int mn = (word_of_int (int n + mn) :: i64)"
      by simp
    moreover have "sint (word_of_int (int n + mn) :: i64) = int n + mn"
      using assms by (intro sint64_of_int) auto
    ultimately show ?thesis by simp
  qed
  have "of_nat n + word_of_int mx = (word_of_int (int n + mx) :: i64)"
    by simp
  moreover have "uint (word_of_int (int n + mx) :: i64) = int n + mx"
    using assms by (simp add: uint_word_of_int_eq take_bit_int_eq_self del: of_int_add)
  ultimately have u: "(of_nat n + word_of_int mx :: i64) \<le> 1024 \<longleftrightarrow> int n + mx \<le> 1024"
    by (simp add: word_le_def)
  show ?thesis
    by (simp add: stack_prepare_def stackSizeLimit_def Let_def word_sle_eq s u fits_def)
qed


section \<open>Sequences of stack operations\<close>

datatype 'v stack_op = OpPush 'v | OpPop | OpDup nat | OpSwap nat

fun op_ok :: "'v stack_op \<Rightarrow> bool" where
  "op_ok (OpDup i) = (i < 32)"
| "op_ok (OpSwap i) = (0 < i \<and> i \<le> 32)"
| "op_ok _ = True"

primrec ls_op :: "(int \<Rightarrow> 'v) \<Rightarrow> 'v stack_op \<Rightarrow> 'v LocalStack \<Rightarrow> 'v LocalStack" where
  "ls_op load (OpPush v) ls = ls_push v ls"
| "ls_op load OpPop ls = snd (ls_pop load ls)"
| "ls_op load (OpDup i) ls = ls_dup load i ls"
| "ls_op load (OpSwap i) ls = ls_swap load i ls"

primrec st_op :: "'v stack_op \<Rightarrow> 'v list \<Rightarrow> 'v list option" where
  "st_op (OpPush v) st = st_push v st"
| "st_op OpPop st = map_option snd (st_pop st)"
| "st_op (OpDup i) st = st_dup i st"
| "st_op (OpSwap i) st = st_swap i st"

primrec st_ops :: "'v stack_op list \<Rightarrow> 'v list \<Rightarrow> 'v list option" where
  "st_ops [] st = Some st"
| "st_ops (x # xs) st = Option.bind (st_op x st) (st_ops xs)"

definition ls_ops :: "(int \<Rightarrow> 'v) \<Rightarrow> 'v stack_op list \<Rightarrow> 'v LocalStack \<Rightarrow> 'v LocalStack" where
  "ls_ops load xs ls = foldl (\<lambda>ls x. ls_op load x ls) ls xs"

lemma ls_ops_simps [simp]:
  "ls_ops load [] ls = ls"
  "ls_ops load (x # xs) ls = ls_ops load xs (ls_op load x ls)"
  by (simp_all add: ls_ops_def)

lemma ls_op_inv: "op_ok x \<Longrightarrow> ls_inv ls \<Longrightarrow> ls_inv (ls_op load x ls)"
  by (cases x) (simp_all add: ls.inv_push ls.inv_pop ls.inv_dup ls.inv_swap)

lemma ls_op_fits_mono:
  "op_ok x \<Longrightarrow> ls_inv ls \<Longrightarrow> fits n (ls_extent (ls_op load x ls)) \<Longrightarrow> fits n (ls_extent ls)"
  by (cases x)
    (simp_all add: ls.extent_push ls.extent_pop ls.extent_dup ls.extent_swap
      fits_push fits_pop fits_need)

lemma ls_ops_fits_mono:
  "list_all op_ok xs \<Longrightarrow> ls_inv ls \<Longrightarrow> fits n (ls_extent (ls_ops load xs ls)) \<Longrightarrow>
   fits n (ls_extent ls)"
  by (induction xs arbitrary: ls) (simp, 
    metis list.pred_inject(2) ls_op_fits_mono ls_op_inv ls_ops_simps(2))

lemma ls_op_sim:
  assumes "op_ok x" "ls_inv ls" "stands_for (ls_view load ls) (ls_extent ls) n st"
    "fits n (ls_extent ls)"
  shows "if fits n (ls_extent (ls_op load x ls))
    then \<exists>st'. st_op x st = Some st' \<and>
      stands_for (ls_view load (ls_op load x ls)) (ls_extent (ls_op load x ls)) n st'
    else st_op x st = None"
  using assms(1) ls.sim_push [OF assms(2-4)] ls.sim_pop [OF assms(2-4)]
    ls.sim_dup [OF assms(2-4)] ls.sim_swap [OF assms(2-4)]
  by (cases x) auto

lemma ls_ops_sim:
  assumes "list_all op_ok xs" "ls_inv ls" "stands_for (ls_view load ls) (ls_extent ls) n st"
    "fits n (ls_extent ls)"
  shows "if fits n (ls_extent (ls_ops load xs ls))
    then \<exists>st'. st_ops xs st = Some st' \<and>
      stands_for (ls_view load (ls_ops load xs ls)) (ls_extent (ls_ops load xs ls)) n st'
    else st_ops xs st = None"
  using assms
proof (induction xs arbitrary: ls st)
  case Nil
  then show ?case by simp
next
  case (Cons x xs)
  let ?ls = "ls_op load x ls"
  from Cons.prems have ok: "op_ok x" "list_all op_ok xs" and inv: "ls_inv ?ls"
    by (simp_all add: ls_op_inv)
  note step = ls_op_sim [OF ok(1) Cons.prems(2-4)]
  show ?case
  proof (cases "fits n (ls_extent ?ls)")
    case True
    with step obtain st' where st': "st_op x st = Some st'"
      "stands_for (ls_view load ?ls) (ls_extent ?ls) n st'" by auto
    from Cons.IH [OF ok(2) inv st'(2) True] st'(1) show ?thesis by simp
  next
    case False
    then have "\<not> fits n (ls_extent (ls_ops load (x # xs) ls))"
      using ls_ops_fits_mono [OF ok(2) inv] by auto
    with False step show ?thesis by simp
  qed
qed

lemma ls_ops_inv: "list_all op_ok xs \<Longrightarrow> ls_inv ls \<Longrightarrow> ls_inv (ls_ops load xs ls)"
  by (induction xs arbitrary: ls) (simp_all add: ls_op_inv)

lemma ls_init_inv: "ls_inv ls_init"
  by (simp add: ls_inv_def ls_init_def ls_size_def)

lemma ls_init_extent: "ls_extent ls_init = (0, 0, 0)"
  by (simp add: ls_extent_def ls_init_def ls_size_def)

lemma ls_init_view: "ls_view load ls_init i = load (- int i - 1)"
  by (simp add: ls_view_def ls_init_def ls_idx_def)

lemma ls_init_stands_for:
  assumes "\<And>i. i < length st \<Longrightarrow> load (- int i - 1) = st ! i"
  shows "stands_for (ls_view load ls_init) (ls_extent ls_init) (length st) st"
  using assms by (simp add: stands_for_def ls_init_extent ls_init_view)

lemma ls_inv_extent_bounds:
  assumes "ls_inv ls"
  shows "m_minSize ls \<le> 0" "0 \<le> m_maxSize ls"
  using assms by (auto simp: ls_inv_def)

text \<open>The sizes a block can reach are bounded by the number of its operations.\<close>

lemma ls_op_extent_bounds:
  assumes "op_ok x" "ls_inv ls"
  shows "min (m_minSize ls) (ls_size ls - 33) \<le> m_minSize (ls_op load x ls)"
    "m_maxSize (ls_op load x ls) \<le> max (m_maxSize ls) (ls_size ls + 1)"
    "ls_size ls - 1 \<le> ls_size (ls_op load x ls)" "ls_size (ls_op load x ls) \<le> ls_size ls + 1"
  using assms ls.extent_push [OF assms(2)] ls.extent_pop [OF assms(2), of load]
    ls.extent_dup [OF assms(2), of load] ls.extent_swap [OF assms(2), of _ load]
  by (cases x; auto simp: ls_extent_def)+

lemma ls_ops_extent_bounds:
  assumes "list_all op_ok xs" "ls_inv ls"
  shows "min (m_minSize ls) (ls_size ls - int (length xs) - 33) \<le> m_minSize (ls_ops load xs ls) \<and>
    m_maxSize (ls_ops load xs ls) \<le> max (m_maxSize ls) (ls_size ls + int (length xs))"
  using assms
proof (induction xs arbitrary: ls)
  case Nil
  then show ?case by simp
next
  case (Cons x xs)
  then have ok: "op_ok x" by simp
  have IH: "min (m_minSize (ls_op load x ls)) (ls_size (ls_op load x ls) - int (length xs) - 33)
        \<le> m_minSize (ls_ops load xs (ls_op load x ls)) \<and>
      m_maxSize (ls_ops load xs (ls_op load x ls))
        \<le> max (m_maxSize (ls_op load x ls)) (ls_size (ls_op load x ls) + int (length xs))"
    using Cons by (simp add: ls_op_inv)
  with ls_op_extent_bounds [OF ok Cons.prems(2), of load] show ?case
    by (auto simp: min_def max_def split: if_splits)
qed

lemma finalized_stack:
  assumes "ls_inv ls" "stands_for (ls_view load ls) (ls_extent ls) n st'"
  shows "length st' = nat (int n + ls_size ls)"
    and "i < length st' \<Longrightarrow> apply_stores (ls_finalize ls) load (ls_size ls - 1 - int i) = st' ! i"
  using assms by (auto simp: stands_for_def ls_extent_def finalize_view)

text \<open>
  C18: the symbolic stack of a block, with the check at its start and the write-back at its end,
  implements the machine stack. For any sequence of pushes, pops, dups and swaps over a machine stack
  \<open>st\<close>: the call of \<open>stack.prepare\<close> with the operands that \<open>finalize\<close> patches in aborts exactly when
  some operation of the sequence would underflow or exceed the limit of 1024; otherwise it sets the
  size of the resulting stack, and after the stores of \<open>finalize\<close> the slots below the new stack
  pointer hold that stack.
\<close>

theorem local_stack_refines_stack:
  fixes load :: "int \<Rightarrow> 'v" and st :: "'v list" and xs :: "'v stack_op list"
  assumes ok: "list_all op_ok xs" and short: "int (length xs) < 2 ^ 61"
    and st: "length st \<le> 1024"
    and mem: "\<And>i. i < length st \<Longrightarrow> load (- int i - 1) = st ! i"
  shows "let ls = ls_ops load xs ls_init in
    (case stack_prepare (of_nat (length st)) (word_of_int (m_minSize ls))
        (word_of_int (m_maxSize ls)) (word_of_int (ls_size ls)) of
       None \<Rightarrow> st_ops xs st = None
     | Some sz \<Rightarrow> \<exists>st'. st_ops xs st = Some st' \<and> sz = of_nat (length st') \<and>
         (\<forall>i < length st'. apply_stores (ls_finalize ls) load (ls_size ls - 1 - int i) = st' ! i))"
proof -
  let ?ls = "ls_ops load xs (ls_init :: 'v LocalStack)"
  have inv: "ls_inv ?ls" using ok by (intro ls_ops_inv ls_init_inv)
  have fits0: "fits (length st) (ls_extent (ls_init :: 'v LocalStack))"
    using st by (simp add: ls_init_extent fits_def)
  note sim = ls_ops_sim [OF ok ls_init_inv ls_init_stands_for [of st load, OF mem] fits0]
  have "- (2 ^ 62) \<le> m_minSize ?ls" "m_maxSize ?ls < 2 ^ 62"
    using ls_ops_extent_bounds [OF ok ls_init_inv, of load] short
    by (auto simp: ls_init_def ls_size_def)
  then have prep: "stack_prepare (of_nat (length st)) (word_of_int (m_minSize ?ls))
        (word_of_int (m_maxSize ?ls)) (word_of_int (ls_size ?ls)) =
      (if fits (length st) (ls_extent ?ls)
       then Some (word_of_int (int (length st) + ls_size ?ls)) else None)"
    using st ls_inv_extent_bounds [OF inv] by (simp add: stack_prepare_iff ls_extent_def)
  show ?thesis
  proof (cases "fits (length st) (ls_extent ?ls)")
    case True
    with sim obtain st' where st': "st_ops xs st = Some st'"
      "stands_for (ls_view load ?ls) (ls_extent ?ls) (length st) st'" by auto
    have "int (length st') = int (length st) + ls_size ?ls"
      using st'(2) by (simp add: stands_for_def ls_extent_def)
    then have "word_of_int (int (length st) + ls_size ?ls) = (of_nat (length st') :: i64)"
      by (metis of_int_of_nat_eq)
    with True st' prep finalized_stack(2) [OF inv st'(2)] show ?thesis
      by (simp add: Let_def)
  next
    case False
    with sim prep show ?thesis by (simp add: Let_def)
  qed
qed

theorem local_stack_refines_stack_witness:
  "\<exists>ls. ls = ls_ops (\<lambda>j. if j = - 1 then 7 else 9) [OpPush 5, OpSwap 2, OpPop] ls_init \<and>
     stack_prepare 2 (word_of_int (m_minSize ls)) (word_of_int (m_maxSize ls))
       (word_of_int (ls_size ls)) = Some 2 \<and>
     apply_stores (ls_finalize ls) (\<lambda>j. if j = - 1 then 7 else 9 :: i128) (ls_size ls - 1) = 7 \<and>
     apply_stores (ls_finalize ls) (\<lambda>j. if j = - 1 then 7 else 9 :: i128) (ls_size ls - 2) = 5"
proof -
  let ?load = "\<lambda>j::int. if j = - 1 then 7 else 9 :: i128"
  let ?xs = "[OpPush 5, OpSwap 2, OpPop] :: i128 stack_op list"
  have st: "st_ops ?xs [7, 9] = Some [7, 5]"
    by (simp add: st_push_def st_swap_def st_pop_def)
  have mem: "\<And>i. i < length [7, 9 :: i128] \<Longrightarrow> ?load (- int i - 1) = [7, 9] ! i"
    by (auto simp: less_Suc_eq numeral_2_eq_2)
  have "let ls = ls_ops ?load ?xs ls_init in
    (case stack_prepare 2 (word_of_int (m_minSize ls))
        (word_of_int (m_maxSize ls)) (word_of_int (ls_size ls)) of
       None \<Rightarrow> False
     | Some sz \<Rightarrow> sz = 2 \<and>
         (\<forall>i < 2. apply_stores (ls_finalize ls) ?load (ls_size ls - 1 - int i) = [7, 5] ! i))"
    using local_stack_refines_stack [of ?xs "[7, 9]" ?load, OF _ _ _ mem] st
    by (simp add: Let_def split: option.splits)
  then show ?thesis
    by (auto simp: Let_def numeral_2_eq_2 All_less_Suc split: option.splits)
qed

end
