(* ===== verification/Arith128.thy ===== *)
theory Arith128
  imports GasMeter "HOL-Library.Signed_Division"
begin

text \<open>
  The arithmetic helper functions of the generated code:
  \<^verbatim>\<open>src/fastvm/libevmjit/Arith128.cpp\<close>.

  \<open>createUDivRemFunc\<close> emits a shift-and-subtract division for a given width; the pass
  \<^verbatim>\<open>LowerEVMPass\<close> of \<^verbatim>\<open>Optimizer.cpp\<close> replaces every 128-bit division and remainder and every
  256-bit remainder of a compiled contract by a call of these functions. \<open>getExpFunc\<close> emits
  square-and-multiply, and \<open>exp\<close> runs the same loop at compile time when both operands are constants.

  The division counts leading zeros with the variant of \<open>llvm.ctlz\<close> whose result is undefined for 0. With a
  divisor of 0 the number of rounds is undefined, and the loop branches on it, so nothing is known about what
  the function returns. The argument \<open>u\<close> of the definitions stands for it: \<open>u\<close> gives the two numbers that
  the function returns for a dividend and the divisor 0. No theorem assumes anything about it. \<open>DIV\<close>, \<open>MOD\<close>,
  \<open>SDIV\<close> and \<open>SMOD\<close> never divide by 0; \<open>ADDMOD\<close> and \<open>MULMOD\<close> do, and discard the result.
\<close>

unbundle bit_operations_syntax

section \<open>Unsigned division\<close>

function udivrem_loop ::
  "'a::len word \<Rightarrow> 'a word \<Rightarrow> 'a word \<Rightarrow> 'a word \<Rightarrow> 'a word \<times> 'a word" where
  "udivrem_loop y r i q =
     (let rUpdate = r - y;
          qUpdate = q OR 1;
          rGEy = y \<le> r;
          r1 = if rGEy then rUpdate else r;
          q1 = if rGEy then qUpdate else q
      in if i = 0 then (q1, r1)
         else udivrem_loop (drop_bit 1 y) r1 (i - 1) (push_bit 1 q1))"
  by pat_completeness auto

termination
  by (relation "measure (\<lambda>(y, r, i, q). unat i)") (simp_all add: unat_dec_less)

declare udivrem_loop.simps [simp del]

definition udivrem :: "undef_divrem \<Rightarrow> 'a::len word \<Rightarrow> 'a word \<Rightarrow> 'a word \<times> 'a word" where
  "udivrem u x y =
     (if y \<le> x
      then if y = 0 then map_prod of_nat of_nat (u (unat x))
           else let yLz = ctlz y;
                    rLz = ctlz x;
                    i0 = yLz - rLz;
                    y0 = push_bit (unat i0) y
                in udivrem_loop y0 x i0 0
      else (0, x))"

definition UDivRem128 :: "undef_divrem \<Rightarrow> i128 \<Rightarrow> i128 \<Rightarrow> i128 \<times> i128" where
  "UDivRem128 = udivrem"

definition UDivRem256 :: "undef_divrem \<Rightarrow> i256 \<Rightarrow> i256 \<Rightarrow> i256 \<times> i256" where
  "UDivRem256 = udivrem"

definition UDiv128 :: "undef_divrem \<Rightarrow> i128 \<Rightarrow> i128 \<Rightarrow> i128" where
  "UDiv128 u x y = fst (UDivRem128 u x y)"

definition URem128 :: "undef_divrem \<Rightarrow> i128 \<Rightarrow> i128 \<Rightarrow> i128" where
  "URem128 u x y = snd (UDivRem128 u x y)"

definition URem256 :: "undef_divrem \<Rightarrow> i256 \<Rightarrow> i256 \<Rightarrow> i256" where
  "URem256 u x y = snd (UDivRem256 u x y)"


section \<open>Signed division\<close>

definition SDivRem128 :: "undef_divrem \<Rightarrow> i128 \<Rightarrow> i128 \<Rightarrow> i128 \<times> i128" where
  "SDivRem128 u x y =
     (let xIsNeg = x <s 0;
          xNeg = 0 - x;
          xAbs = if xIsNeg then xNeg else x;
          yIsNeg = y <s 0;
          yNeg = 0 - y;
          yAbs = if yIsNeg then yNeg else y;
          (qAbs, rAbs) = UDivRem128 u xAbs yAbs;
          rNeg = 0 - rAbs;
          r = if xIsNeg then rNeg else rAbs;
          qNeg = 0 - qAbs;
          xyOpposite = xIsNeg \<noteq> yIsNeg;
          q = if xyOpposite then qNeg else qAbs
      in (q, r))"

definition SDiv128 :: "undef_divrem \<Rightarrow> i128 \<Rightarrow> i128 \<Rightarrow> i128" where
  "SDiv128 u x y = fst (SDivRem128 u x y)"

definition SRem128 :: "undef_divrem \<Rightarrow> i128 \<Rightarrow> i128 \<Rightarrow> i128" where
  "SRem128 u x y = snd (SDivRem128 u x y)"


section \<open>Exponentiation\<close>

function exp_loop :: "'a::len word \<Rightarrow> 'a word \<Rightarrow> 'a word \<Rightarrow> 'a word" where
  "exp_loop r b e =
     (let eNonZero = e \<noteq> 0 in
      if eNonZero
      then let eOdd = e AND 1 \<noteq> 0;
               r1 = if eOdd then r * b else r;
               b1 = b * b;
               e1 = drop_bit 1 e
           in exp_loop r1 b1 e1
      else r)"
  by pat_completeness auto

termination
  by (relation "measure (\<lambda>(r, b, e). unat e)") (simp_all add: unat_half_less)

declare exp_loop.simps [simp del]

definition expFunc :: "i128 \<Rightarrow> i128 \<Rightarrow> i128" where
  "expFunc base exponent = exp_loop 1 base exponent"

text \<open>An operand as the compiler sees it: a constant of the program or a value of the run.\<close>

datatype llvm_value = ConstantInt i128 | Runtime i128

primrec val_of :: "llvm_value \<Rightarrow> i128" where
  "val_of (ConstantInt w) = w"
| "val_of (Runtime w) = w"

function exp_const :: "i128 \<Rightarrow> i128 \<Rightarrow> i128 \<Rightarrow> i128" where
  "exp_const r b e =
     (if e \<noteq> 0
      then exp_const (if bit e 0 then r * b else r) (b * b) (drop_bit 1 e)
      else r)"
  by pat_completeness auto

termination
  by (relation "measure (\<lambda>(r, b, e). unat e)") (simp_all add: unat_half_less)

declare exp_const.simps [simp del]

fun exp_value :: "llvm_value \<Rightarrow> llvm_value \<Rightarrow> i128" where
  "exp_value (ConstantInt c1) (ConstantInt c2) = exp_const 1 c1 c2"
| "exp_value arg1 arg2 = expFunc (val_of arg1) (val_of arg2)"


section \<open>Division is division\<close>

lemma or_one_even: "\<not> bit q 0 \<Longrightarrow> q OR 1 = (q + 1 :: 'a::len word)"
  by (subst disjunctive_add) (auto simp: bit_1_iff intro: gr0I)

lemma udivrem_loop_eq:
  fixes y r i q :: "'a::len word"
  assumes "unat i = k" "unat y = Y * 2 ^ k" "0 < Y" "unat r < 2 * (Y * 2 ^ k)" "\<not> bit q 0"
  shows "udivrem_loop y r i q =
    (q * 2 ^ k + of_nat (unat r div Y), of_nat (unat r mod Y))"
  using assms
proof (induction k arbitrary: y r i q)
  case 0
  then have i: "i = 0" by (simp add: unat_eq_0)
  show ?case
  proof (cases "y \<le> r")
    case True
    then have "Y \<le> unat r" using 0 by (simp add: word_le_nat_alt)
    then have "unat r div Y = 1" "unat r mod Y = unat r - Y" "unat (r - y) = unat r - Y"
      using 0 True by (simp_all add: le_div_geq mod_if unat_sub)
    then have "r - y = of_nat (unat r - Y)" by (intro word_eq_of_natI)
    with \<open>unat r div Y = 1\<close> \<open>unat r mod Y = unat r - Y\<close> True 0 i show ?thesis
      by (subst udivrem_loop.simps) (simp add: or_one_even)
  next
    case False
    then have "unat r < Y" using 0 by (simp add: word_le_nat_alt)
    with False 0 i show ?thesis
      by (subst udivrem_loop.simps) simp
  qed
next
  case (Suc k)
  have "i \<noteq> 0" using Suc.prems by auto
  then have i: "i \<noteq> 0" "unat (i - 1) = k" using Suc.prems(1) by (simp_all add: unat_dec)
  have y: "unat (drop_bit 1 y) = Y * 2 ^ k" using Suc.prems by (simp add: unat_drop_bit)
  define r1 where "r1 = (if y \<le> r then r - y else r)"
  define q1 where "q1 = (if y \<le> r then q OR 1 else q)"
  have step: "udivrem_loop y r i q = udivrem_loop (drop_bit 1 y) r1 (i - 1) (push_bit 1 q1)"
    using i by (subst udivrem_loop.simps) (simp add: r1_def q1_def)
  have r1: "unat r = unat r1 + (if y \<le> r then Y * 2 ^ Suc k else 0)" "unat r1 < Y * 2 ^ Suc k"
    using Suc.prems by (auto simp: r1_def word_le_nat_alt unat_sub)
  have "udivrem_loop y r i q =
      (push_bit 1 q1 * 2 ^ k + of_nat (unat r1 div Y), of_nat (unat r1 mod Y))"
    unfolding step using Suc.prems(3) r1(2)
    by (intro Suc.IH i y) (simp_all add: bit_push_bit_iff del: push_bit_Suc push_bit_of_1)
  moreover have "unat r div Y = unat r1 div Y + (if y \<le> r then 2 ^ Suc k else 0)"
    "unat r mod Y = unat r1 mod Y"
    using Suc.prems(3) r1(1) by (auto simp: mult.commute [of Y])
  moreover have "push_bit 1 q1 * 2 ^ k = q * 2 ^ Suc k + (if y \<le> r then 2 ^ Suc k else 0)"
    using Suc.prems(5) by (simp add: q1_def or_one_even push_bit_eq_mult algebra_simps)
  ultimately show ?case by simp
qed

lemma bitlen_bounds: "0 < n \<Longrightarrow> 2 ^ (bitlen n - 1) \<le> n \<and> n < 2 ^ bitlen n"
  using bitlen_le_iff [of n "bitlen n - 1"] bitlen_le_iff [of n "bitlen n"] bitlen_pos [of n]
  by auto

lemma udivrem_eq:
  fixes x y :: "'a::len word"
  assumes "y \<noteq> 0"
  shows "udivrem u x y = (x div y, x mod y)"
proof (cases "y \<le> x")
  case True
  define k where "k = bitlen (unat x) - bitlen (unat y)"
  have pos: "0 < unat y" "0 < unat x" "x \<noteq> 0"
    using assms True by (auto simp: unat_gt_0 word_le_nat_alt unat_eq_0)
  have le: "unat y \<le> unat x" "bitlen (unat x) \<le> LENGTH('a)"
    using True bitlen_word_le [of x] by (auto simp: word_le_nat_alt)
  have mono: "bitlen (unat y) \<le> bitlen (unat x)"
    using le(1) bitlen_bounds [OF pos(2)] by (subst bitlen_le_iff) simp
  have i0: "ctlz y - ctlz x = of_nat k"
    using mono le(2) by (simp add: ctlz_def k_def of_nat_diff)
  have "k \<le> LENGTH('a)" using le(2) by (simp add: k_def)
  then have "k < 2 ^ LENGTH('a)" by (rule le_less_trans [OF _ less_exp])
  then have k: "unat (of_nat k :: 'a word) = k" by (simp add: unat_of_nat)
  have x: "2 ^ (bitlen (unat x) - 1) \<le> unat y * 2 ^ k" "unat y * 2 ^ k < 2 ^ bitlen (unat x)"
  proof -
    have *: "bitlen (unat x) - 1 = bitlen (unat y) - 1 + k" "bitlen (unat x) = bitlen (unat y) + k"
      using mono pos by (auto simp: k_def bitlen_pos [of "unat y"])
    show "2 ^ (bitlen (unat x) - 1) \<le> unat y * 2 ^ k"
      unfolding *(1) power_add using bitlen_bounds [OF pos(1)] by simp
    show "unat y * 2 ^ k < 2 ^ bitlen (unat x)"
      unfolding *(2) power_add using bitlen_bounds [OF pos(1)] by simp
  qed
  have "unat y * 2 ^ k < 2 ^ LENGTH('a)"
    using x(2) le(2) by (meson less_le_trans one_le_numeral power_increasing)
  then have y0: "unat (push_bit k y) = unat y * 2 ^ k"
    by (simp add: unsigned_push_bit_eq push_bit_eq_mult [where ?'a = nat] take_bit_nat_eq_self)
  have "2 ^ bitlen (unat x) = 2 * (2 ^ (bitlen (unat x) - 1) :: nat)"
    using pos(2) by (simp add: bitlen_pos [of "unat x"])
  then have r: "unat x < 2 * (unat y * 2 ^ k)"
    using x(1) bitlen_bounds [OF pos(2)] by linarith
  have "udivrem u x y = (of_nat (unat x div unat y), of_nat (unat x mod unat y))"
    using True udivrem_loop_eq [OF k y0 pos(1) r, of 0] by (simp add: udivrem_def assms i0 k Let_def)
  then show ?thesis by (simp add: word_arith_nat_div word_arith_nat_mod)
next
  case False
  then have "unat x < unat y" by (simp add: word_le_nat_alt)
  then have "x div y = 0" "x mod y = x"
    by (simp_all add: word_arith_nat_div word_arith_nat_mod flip: word_unat_eq_iff)
  with False show ?thesis by (simp add: udivrem_def)
qed


text \<open>
  The interface of an unsigned division, and what the sign handling of \<open>getSDivRem128Func\<close> makes of
  it. Both generated divisions provide it.
\<close>

locale word_divider =
  fixes divrem :: "'a::len word \<Rightarrow> 'a word \<Rightarrow> 'a word \<times> 'a word"
  assumes divrem: "y \<noteq> 0 \<Longrightarrow> divrem x y = (x div y, x mod y)"
begin

lemma uint_quot: "y \<noteq> 0 \<Longrightarrow> uint (fst (divrem x y)) = uint x div uint y"
  by (simp add: divrem uint_div)

lemma uint_rem: "y \<noteq> 0 \<Longrightarrow> uint (snd (divrem x y)) = uint x mod uint y"
  by (simp add: divrem uint_mod)

lemma quot_of_int:
  "0 \<le> a \<Longrightarrow> 0 < b \<Longrightarrow> a < 2 ^ LENGTH('a) \<Longrightarrow> b < 2 ^ LENGTH('a) \<Longrightarrow>
   divrem (word_of_int a) (word_of_int b) = (word_of_int (a div b), word_of_int (a mod b))"
proof -
  assume *: "0 \<le> a" "0 < b" "a < 2 ^ LENGTH('a)" "b < 2 ^ LENGTH('a)"
  then have u: "uint (word_of_int a :: 'a word) = a" "uint (word_of_int b :: 'a word) = b"
    by (simp_all add: unsigned_of_int take_bit_int_eq_self)
  with *(2) have "word_of_int b \<noteq> (0 :: 'a word)" by (metis less_irrefl unsigned_0)
  then show ?thesis by (simp add: divrem word_div_def word_mod_def u)
qed

end

interpretation d128: word_divider "UDivRem128 u" for u
  by unfold_locales (simp add: UDivRem128_def udivrem_eq)

interpretation d256: word_divider "UDivRem256 u" for u
  by unfold_locales (simp add: UDivRem256_def udivrem_eq)

lemma sint128_range: "- (2 ^ 127) \<le> sint (w :: i128)" "sint (w :: i128) < 2 ^ 127"
  using sint_greater_eq [of w] sint_less [of w] by simp_all

lemma abs_word: "(if x <s 0 then 0 - x else x :: i128) = word_of_int \<bar>sint x\<bar>"
  by (auto simp: word_sless_alt)

lemma SDivRem128_eq:
  assumes "y \<noteq> 0"
  shows "SDivRem128 u x y =
    (word_of_int (sint x sdiv sint y), word_of_int (sint x smod sint y))"
proof -
  have y: "0 < \<bar>sint y\<bar>" using assms by (metis signed_eq_0_iff zero_less_abs_iff)
  have "UDivRem128 u (word_of_int \<bar>sint x\<bar>) (word_of_int \<bar>sint y\<bar>) =
      (word_of_int (\<bar>sint x\<bar> div \<bar>sint y\<bar>), word_of_int (\<bar>sint x\<bar> mod \<bar>sint y\<bar>))"
    using y sint128_range [of x] sint128_range [of y] by (intro d128.quot_of_int) auto
  then have "SDivRem128 u x y =
      (let q = word_of_int (\<bar>sint x\<bar> div \<bar>sint y\<bar>); r = word_of_int (\<bar>sint x\<bar> mod \<bar>sint y\<bar>)
       in (if (x <s 0) \<noteq> (y <s 0) then 0 - q else q, if x <s 0 then 0 - r else r))"
    by (simp only: SDivRem128_def Let_def abs_word prod.case)
  moreover have "sgn (sint x) = - 1" if "x <s 0" using that by (simp add: word_sless_alt)
  moreover have "sgn (sint x) = 1 \<or> sint x = 0" if "\<not> x <s 0"
    using that by (auto simp: word_sless_alt)
  moreover have "sgn (sint y) = (if y <s 0 then - 1 else 1)"
    using y by (auto simp: word_sless_alt)
  ultimately show ?thesis
    by (auto simp: Let_def signed_divide_int_def signed_modulo_int_def)
qed


section \<open>Exponentiation is exponentiation\<close>

lemma bit_odd: "bit e 0 \<longleftrightarrow> odd (unat (e :: 'a::len word))"
  by (simp add: bit_unsigned_iff flip: bit_0)

lemma odd_test: "e AND 1 \<noteq> 0 \<longleftrightarrow> odd (unat (e :: 'a::len word))"
  using bit_iff_and_push_bit_not_eq_0 [of e 0] by (simp add: bit_odd)

lemma power_halves:
  fixes b :: "'a::comm_monoid_mult"
  shows "b ^ n = (if odd n then b else 1) * (b * b) ^ (n div 2)"
proof (cases "odd n")
  case True
  then obtain m where "n = 2 * m + 1" by (elim oddE)
  then show ?thesis by (simp add: power_mult power2_eq_square)
next
  case False
  then obtain m where "n = 2 * m" by auto
  then show ?thesis by (simp add: power_mult power2_eq_square)
qed

lemma exp_loop_eq: "exp_loop r b e = r * b ^ unat e"
proof (induction r b e rule: exp_loop.induct)
  case (1 r b e)
  show ?case
  proof (cases "e = 0")
    case True
    then show ?thesis by (simp add: exp_loop.simps)
  next
    case False
    have half: "unat (drop_bit (Suc 0) e) = unat e div 2" by (simp add: unat_drop_bit)
    from 1 [of "e \<noteq> 0"] False power_halves [of b "unat e"] show ?thesis
      by (subst exp_loop.simps) (simp add: odd_test half Let_def mult.assoc)
  qed
qed

lemma exp_const_eq: "exp_const r b e = exp_loop r b e"
proof (induction r b e rule: exp_const.induct)
  case (1 r b e)
  then show ?case
    by (subst exp_const.simps, subst exp_loop.simps) (simp add: Let_def odd_test bit_odd)
qed


text \<open>
  C21: the generated division. For every pair of operands with a divisor that is not zero, at both widths, the
  shift-and-subtract loop ends with quotient and remainder of the unsigned division. The result does not depend
  on \<open>u\<close>, so the undefined case is not reached.
\<close>

theorem udivrem_is_division:
  "(y \<noteq> 0 \<longrightarrow> UDivRem128 u x y = (x div y, x mod y)) \<and>
   (y' \<noteq> 0 \<longrightarrow> UDivRem256 u x' y' = (x' div y', x' mod y'))"
  by (simp add: UDivRem128_def UDivRem256_def udivrem_eq)

theorem udivrem_is_division_witness:
  "UDivRem128 (\<lambda>_. (0, 0)) (2 ^ 100 + 7) 10 = ((2 ^ 100 + 7) div 10, (2 ^ 100 + 7) mod 10) \<and>
   UDivRem256 (\<lambda>_. (0, 0)) (2 ^ 200 + 7) (2 ^ 90) = (2 ^ 110, 7)"
  using udivrem_is_division [of 10 "\<lambda>_. (0, 0)" "2 ^ 100 + 7" "2 ^ 90" "2 ^ 200 + 7"] by simp

text \<open>
  C22: exponentiation. The generated square-and-multiply loop, and the copy of it that folds constant
  operands at compile time, both compute the power modulo \<open>2 ^ 128\<close>.
\<close>

theorem exp_is_power: "exp_value a b = val_of a ^ unat (val_of b)"
  by (cases a; cases b) (simp_all add: exp_const_eq exp_loop_eq expFunc_def)

end
