(* ===== verification/InstArith.thy ===== *)
theory InstArith
  imports Arith128
begin

text \<open>
  The values that \<open>Compiler::compileBasicBlock\<close> (\<^verbatim>\<open>src/fastvm/libevmjit/Compiler.cpp\<close>) computes for the
  arithmetic, comparison and bit instructions, one definition per \<open>case\<close> of the switch, and
  \<^verbatim>\<open>Endianness.cpp\<close>, which BYTE and the memory instructions use. Divisions are the functions of
  \<open>Arith128\<close> that \<^verbatim>\<open>LowerEVMPass\<close> puts in their place.
\<close>

section \<open>Byte order\<close>

text \<open>
  \<open>le\<close> says whether the host is little endian. \<open>mem_bytes\<close> is how a word of the host lies in memory,
  \<open>mem_word\<close> reads it back.
\<close>

definition bswap :: "'a::len word \<Rightarrow> 'a word" where
  "bswap w = be_word (rev (be_bytes (LENGTH('a) div 8) w))"

definition bswapIfLE :: "bool \<Rightarrow> 'a::len word \<Rightarrow> 'a word" where
  "bswapIfLE le w = (if le then bswap w else w)"

definition toBE :: "bool \<Rightarrow> 'a::len word \<Rightarrow> 'a word" where
  "toBE = bswapIfLE"

definition toNative :: "bool \<Rightarrow> 'a::len word \<Rightarrow> 'a word" where
  "toNative = bswapIfLE"

definition mem_bytes :: "bool \<Rightarrow> 'a::len word \<Rightarrow> byte list" where
  "mem_bytes le w =
     (let bs = be_bytes (LENGTH('a) div 8) w in if le then rev bs else bs)"

definition mem_word :: "bool \<Rightarrow> byte list \<Rightarrow> 'a::len word" where
  "mem_word le bs = be_word (if le then rev bs else bs)"


section \<open>Arithmetic\<close>

definition zext1 :: "bool \<Rightarrow> i128" where
  "zext1 b = of_bool b"

definition inst_ADD :: "i128 \<Rightarrow> i128 \<Rightarrow> i128" where
  "inst_ADD lhs rhs = lhs + rhs"

definition inst_SUB :: "i128 \<Rightarrow> i128 \<Rightarrow> i128" where
  "inst_SUB lhs rhs = lhs - rhs"

definition inst_MUL :: "i128 \<Rightarrow> i128 \<Rightarrow> i128" where
  "inst_MUL lhs rhs = lhs * rhs"

definition inst_DIV :: "undef_divrem \<Rightarrow> i128 \<Rightarrow> i128 \<Rightarrow> i128" where
  "inst_DIV u d n =
     (let divByZero = n = 0;
          n = if divByZero then 1 else n;
          r = UDiv128 u d n
      in if divByZero then 0 else r)"

definition inst_SDIV :: "undef_divrem \<Rightarrow> i128 \<Rightarrow> i128 \<Rightarrow> i128" where
  "inst_SDIV u d n =
     (let divByZero = n = 0;
          divByMinusOne = n = - 1;
          n = if divByZero then 1 else n;
          r = SDiv128 u d n;
          r = if divByZero then 0 else r;
          dNeg = 0 - d
      in if divByMinusOne then dNeg else r)"

definition inst_MOD :: "undef_divrem \<Rightarrow> i128 \<Rightarrow> i128 \<Rightarrow> i128" where
  "inst_MOD u d n =
     (let divByZero = n = 0;
          n = if divByZero then 1 else n;
          r = URem128 u d n
      in if divByZero then 0 else r)"

definition inst_SMOD :: "undef_divrem \<Rightarrow> i128 \<Rightarrow> i128 \<Rightarrow> i128" where
  "inst_SMOD u d n =
     (let divByZero = n = 0;
          divByMinusOne = n = - 1;
          n = if divByZero then 1 else n;
          r = SRem128 u d n;
          r = if divByZero then 0 else r
      in if divByMinusOne then 0 else r)"

definition inst_ADDMOD :: "undef_divrem \<Rightarrow> i128 \<Rightarrow> i128 \<Rightarrow> i128 \<Rightarrow> i128" where
  "inst_ADDMOD u a b m =
     (let divByZero = m = 0;
          a = (ucast a :: i256);
          b = (ucast b :: i256);
          m = (ucast m :: i256);
          s = a + b;
          s = URem256 u s m;
          s = (ucast s :: i128)
      in if divByZero then 0 else s)"

definition inst_MULMOD :: "undef_divrem \<Rightarrow> i128 \<Rightarrow> i128 \<Rightarrow> i128 \<Rightarrow> i128" where
  "inst_MULMOD u a b m =
     (let divByZero = m = 0;
          a = (ucast a :: i256);
          b = (ucast b :: i256);
          m = (ucast m :: i256);
          p = a * b;
          p = URem256 u p m;
          p = (ucast p :: i128)
      in if divByZero then 0 else p)"


section \<open>Bits and comparisons\<close>

definition inst_NOT :: "i128 \<Rightarrow> i128" where
  "inst_NOT v = v XOR - 1"

definition inst_LT :: "i128 \<Rightarrow> i128 \<Rightarrow> i128" where
  "inst_LT lhs rhs = zext1 (lhs < rhs)"

definition inst_GT :: "i128 \<Rightarrow> i128 \<Rightarrow> i128" where
  "inst_GT lhs rhs = zext1 (rhs < lhs)"

definition inst_SLT :: "i128 \<Rightarrow> i128 \<Rightarrow> i128" where
  "inst_SLT lhs rhs = zext1 (lhs <s rhs)"

definition inst_SGT :: "i128 \<Rightarrow> i128 \<Rightarrow> i128" where
  "inst_SGT lhs rhs = zext1 (rhs <s lhs)"

definition inst_EQ :: "i128 \<Rightarrow> i128 \<Rightarrow> i128" where
  "inst_EQ lhs rhs = zext1 (lhs = rhs)"

definition inst_ISZERO :: "i128 \<Rightarrow> i128" where
  "inst_ISZERO v = zext1 (v = 0)"

definition inst_AND :: "i128 \<Rightarrow> i128 \<Rightarrow> i128" where
  "inst_AND lhs rhs = lhs AND rhs"

definition inst_OR :: "i128 \<Rightarrow> i128 \<Rightarrow> i128" where
  "inst_OR lhs rhs = lhs OR rhs"

definition inst_XOR :: "i128 \<Rightarrow> i128 \<Rightarrow> i128" where
  "inst_XOR lhs rhs = lhs XOR rhs"

definition inst_BYTE :: "bool \<Rightarrow> i128 \<Rightarrow> i128 \<Rightarrow> i128" where
  "inst_BYTE le idx v =
     (let v = toBE le v;
          idxValid = idx < 16;
          bytes = mem_bytes le v;
          safeIdx = (ucast idx :: 4 word);
          safeIdx = (ucast safeIdx :: i64);
          b = bytes ! unat safeIdx;
          v = (ucast b :: i128)
      in if idxValid then v else 0)"

definition inst_SIGNEXTEND :: "i128 \<Rightarrow> i128 \<Rightarrow> i128" where
  "inst_SIGNEXTEND idx w =
     (let k16n = (ucast idx :: 4 word);
          k16 = (ucast k16n :: i64);
          k16x8 = k16 * 8;
          bitpos = k16x8 + 7;
          bitposEx = (ucast bitpos :: i128);
          bitval = drop_bit (unat bitposEx) w;
          bittest = bit bitval 0;
          mask0 = push_bit (unat bitposEx) 1;
          mask = mask0 - 1;
          negmask = mask XOR - 1;
          val1 = w OR negmask;
          val0 = w AND mask;
          kInRange = idx \<le> 14
      in if kInRange then (if bittest then val1 else val0) else w)"


section \<open>What they compute\<close>

text \<open>Whatever the byte order of the host, a word passed through \<open>toBE\<close> lies in memory big endian.\<close>

lemma be_bytes_bswap:
  fixes w :: "'a::len word"
  assumes "8 dvd LENGTH('a)"
  shows "be_bytes (LENGTH('a) div 8) (bswap w) = rev (be_bytes (LENGTH('a) div 8) w)"
  using be_bytes_be_word [of "rev (be_bytes (LENGTH('a) div 8) w)", where ?'a = 'a] assms
  by (simp add: bswap_def)

lemma mem_bytes_toBE [codec_simps]:
  fixes w :: "'a::len word"
  assumes "8 dvd LENGTH('a)"
  shows "mem_bytes le (toBE le w) = be_bytes (LENGTH('a) div 8) w"
  using assms by (simp add: mem_bytes_def toBE_def bswapIfLE_def be_bytes_bswap)

lemma toNative_mem_word [codec_simps]:
  fixes bs :: "byte list"
  assumes "8 dvd LENGTH('a)" "length bs = LENGTH('a) div 8"
  shows "toNative le (mem_word le bs :: 'a::len word) = be_word bs"
proof (cases le)
  case True
  have "be_bytes (length bs) (be_word (rev bs) :: 'a word) = rev bs"
    using be_bytes_be_word [of "rev bs", where ?'a = 'a] assms by simp
  with True assms show ?thesis
    by (simp add: toNative_def bswapIfLE_def mem_word_def bswap_def)
next
  case False
  then show ?thesis by (simp add: toNative_def bswapIfLE_def mem_word_def)
qed

lemma inst_DIV_eq: "inst_DIV u d n = (if n = 0 then 0 else d div n)"
  by (simp add: inst_DIV_def UDiv128_def d128.divrem)

lemma inst_MOD_eq: "inst_MOD u d n = (if n = 0 then 0 else d mod n)"
  by (simp add: inst_MOD_def URem128_def d128.divrem)

lemma sgn_abs_word: "word_of_int (sgn k) * word_of_int \<bar>k\<bar> = (word_of_int k :: 'a::len word)"
  by (simp add: sgn_mult_abs flip: of_int_mult)

lemma inst_SDIV_eq:
  "inst_SDIV u d n = (if n = 0 then 0 else word_of_int (sint d sdiv sint n))"
  by (auto simp: inst_SDIV_def SDiv128_def SDivRem128_eq signed_divide_int_def sgn_abs_word)

lemma inst_SMOD_eq:
  "inst_SMOD u d n = (if n = 0 then 0 else word_of_int (sint d smod sint n))"
  by (auto simp: inst_SMOD_def SRem128_def SDivRem128_eq signed_modulo_int_def)

lemma uint128_less: "uint (w :: i128) < 2 ^ 128"
proof -
  have "uint w < 2 ^ LENGTH(128)" by (rule unsigned_less)
  then show ?thesis by simp
qed

lemma uint_ucast_256: "uint (ucast (w :: i128) :: i256) = uint w"
  using uint128_less [of w] by (simp add: unsigned_ucast_eq take_bit_int_eq_self)

lemma URem256_trunc:
  fixes m :: i128
  assumes "m \<noteq> 0"
  shows "(ucast (URem256 u s (ucast m)) :: i128) = word_of_int (uint s mod uint m)"
proof -
  have "(ucast m :: i256) \<noteq> 0"
    using assms uint_ucast_256 [of m] by (metis unsigned_0 uint_0_iff)
  then have "uint (URem256 u s (ucast m)) = uint s mod uint m"
    by (simp add: URem256_def d256.uint_rem uint_ucast_256)
  moreover have "(ucast (URem256 u s (ucast m)) :: i128) = word_of_int (uint (URem256 u s (ucast m)))"
    by simp
  ultimately show ?thesis by simp
qed

lemma inst_ADDMOD_eq:
  "inst_ADDMOD u a b m = (if m = 0 then 0 else word_of_int ((uint a + uint b) mod uint m))"
proof -
  have "uint (ucast a + ucast b :: i256) = uint a + uint b"
    using uint128_less [of a] uint128_less [of b]
    by (simp add: uint_word_arith_bintrs uint_ucast_256 take_bit_int_eq_self)
  then show ?thesis by (simp add: inst_ADDMOD_def URem256_trunc Let_def)
qed

lemma inst_MULMOD_eq:
  "inst_MULMOD u a b m = (if m = 0 then 0 else word_of_int ((uint a * uint b) mod uint m))"
proof -
  have "uint a * uint b < 2 ^ 128 * 2 ^ 128"
    using uint128_less [of a] uint128_less [of b] by (intro mult_strict_mono') simp_all
  then have "uint (ucast a * ucast b :: i256) = uint a * uint b"
    by (simp add: uint_word_arith_bintrs uint_ucast_256 take_bit_int_eq_self)
  then show ?thesis by (simp add: inst_MULMOD_def URem256_trunc Let_def)
qed

lemma unat_low4: "unat (ucast (ucast (idx :: i128) :: 4 word) :: i64) = unat idx mod 16"
  by (simp add: unsigned_ucast_eq unsigned_take_bit_eq, simp add: take_bit_eq_mod)

lemma inst_BYTE_eq:
  "inst_BYTE le idx v = (if unat idx < 16 then ucast (be_bytes 16 v ! unat idx) else 0)"
  by (simp add: inst_BYTE_def Let_def codec_simps unat_low4 word_less_nat_alt)

lemma inst_SIGNEXTEND_eq:
  "inst_SIGNEXTEND idx w =
    (if unat idx \<le> 14 then signed_take_bit (8 * unat idx + 7) w else w)"
proof (cases "unat idx \<le> 14")
  case True
  let ?n = "8 * unat idx + 7"
  have n: "unat (ucast (ucast (ucast idx :: 4 word) * 8 + 7 :: i64) :: i128) = ?n"
    using True unat_low4 [of idx]
    by (simp add: unsigned_ucast_eq unat_word_ariths take_bit_eq_mod [where ?'a = nat])
  have "bit (drop_bit ?n w) 0 = bit w ?n" by (simp add: bit_simps)
  moreover have "push_bit ?n 1 - 1 = (mask ?n :: i128)"
    by (simp add: mask_eq_exp_minus_1 push_bit_eq_mult)
  moreover have "(if bit w ?n then w OR (mask ?n XOR - 1) else w AND mask ?n) = signed_take_bit ?n w"
    using True by (intro bit_word_eqI) (auto simp: bit_simps min_def)
  ultimately show ?thesis
    using True by (simp only: inst_SIGNEXTEND_def Let_def n) (simp add: word_le_nat_alt)
next
  case False
  then show ?thesis by (simp add: inst_SIGNEXTEND_def word_le_nat_alt)
qed

text \<open>
  C26: the division instructions. DIV, SDIV, MOD and SMOD return 0 for a zero divisor and otherwise
  the unsigned, or the signed and truncating, quotient and remainder; the quotient of the smallest
  number by -1 wraps to itself and its remainder is 0.
\<close>

theorem division_instructions:
  "inst_DIV u d n = (if n = 0 then 0 else word_of_int (uint d div uint n)) \<and>
   inst_MOD u d n = (if n = 0 then 0 else word_of_int (uint d mod uint n)) \<and>
   inst_SDIV u d n = (if n = 0 then 0 else word_of_int (sint d sdiv sint n)) \<and>
   inst_SMOD u d n = (if n = 0 then 0 else word_of_int (sint d smod sint n)) \<and>
   inst_SDIV u (2 ^ 127) (- 1) = 2 ^ 127 \<and> inst_SMOD u (2 ^ 127) (- 1) = 0"
  by (simp add: inst_DIV_eq inst_MOD_eq inst_SDIV_eq inst_SMOD_eq word_div_def word_mod_def
      signed_divide_int_def signed_modulo_int_def)

text \<open>
  C27: modular arithmetic. ADDMOD and MULMOD reduce the exact sum and product, which do not fit in 128
  bits, and return 0 for modulus 0.
\<close>

theorem modular_instructions:
  "inst_ADDMOD u a b m = (if m = 0 then 0 else word_of_int ((uint a + uint b) mod uint m)) \<and>
   inst_MULMOD u a b m = (if m = 0 then 0 else word_of_int ((uint a * uint b) mod uint m))"
  by (simp add: inst_ADDMOD_eq inst_MULMOD_eq)

text \<open>
  Bytes of a word. On a host of either byte order, BYTE selects the byte with the given index
  counted from the most significant one and is 0 from index 16 on; SIGNEXTEND with index \<open>k\<close> extends
  the sign of the low \<open>k + 1\<close> bytes for \<open>k \<le> 14\<close> and leaves the word alone above.
\<close>

theorem byte_instructions:
  "inst_BYTE le idx v = (if unat idx < 16 then ucast (be_bytes 16 v ! unat idx) else 0) \<and>
   inst_SIGNEXTEND idx v =
     (if unat idx \<le> 14 then signed_take_bit (8 * unat idx + 7) v else v)"
  by (simp add: inst_BYTE_eq inst_SIGNEXTEND_eq)

end
