(* ===== verification/JitArray.thy ===== *)
theory JitArray
  imports InstArith
begin

text \<open>
  The growable array of the generated code: \<^verbatim>\<open>src/fastvm/libevmjit/Array.cpp\<close>.

  An array is its buffer, as the bytes that \<open>realloc\<close> returned, its size and its capacity. The same
  structure serves two uses. As the contract's memory (\<open>array_extend\<close>, \<open>array_getPtr\<close>) the size counts
  bytes; as a vector of words (\<open>array_push\<close>, \<open>array_set\<close>, \<open>array_get\<close>, \<open>array_pop\<close>) it counts 16-byte
  elements, while \<open>array_push\<close> reserves 32 bytes for each.

  The C library is a parameter: \<open>junk\<close> is what \<open>realloc\<close> leaves in the part of a block it adds.
  Accesses outside a buffer have no meaning in the source; here a read beyond the end gives \<open>junk\<close>
  and a write beyond it is lost, and the theorems on memory show that neither happens.
\<close>

section \<open>Buffers\<close>

definition read_mem :: "byte \<Rightarrow> byte list \<Rightarrow> nat \<Rightarrow> nat \<Rightarrow> byte list" where
  "read_mem junk buf i n = map (\<lambda>k. if i + k < length buf then buf ! (i + k) else junk) [0..<n]"

definition write_mem :: "nat \<Rightarrow> byte list \<Rightarrow> byte list \<Rightarrow> byte list" where
  "write_mem i bs buf =
     map (\<lambda>k. if i \<le> k \<and> k < i + length bs then bs ! (k - i) else buf ! k) [0..<length buf]"

definition realloc :: "byte \<Rightarrow> byte list \<Rightarrow> nat \<Rightarrow> byte list" where
  "realloc junk buf n = take n buf @ replicate (n - length buf) junk"


section \<open>The generated functions\<close>

definition array_init :: mem_array where
  "array_init = \<lparr>arr_data = [], arr_size = 0, arr_cap = 0\<rparr>"

definition c_reallocStep :: i64 where
  "c_reallocStep = 1"

text \<open>The generated code uses what \<open>realloc\<close> returns without a test; that it fails is not modelled.\<close>

definition array_push :: "bool \<Rightarrow> byte \<Rightarrow> i128 \<Rightarrow> mem_array \<Rightarrow> mem_array" where
  "array_push le junk v a =
     (let sz = arr_size a;
          cap = arr_cap a;
          reallocReq = cap = sz;
          newCap = cap + c_reallocStep;
          reallocSize = push_bit 5 newCap;
          a = if reallocReq
              then a\<lparr>arr_data := realloc junk (arr_data a) (unat reallocSize), arr_cap := newCap\<rparr>
              else a;
          newSize = sz + 1
      in a\<lparr>arr_data := write_mem (16 * unat sz) (mem_bytes le v) (arr_data a),
           arr_size := newSize\<rparr>)"

definition array_set :: "bool \<Rightarrow> i64 \<Rightarrow> i128 \<Rightarrow> mem_array \<Rightarrow> mem_array" where
  "array_set le i v a =
     a\<lparr>arr_data := write_mem (16 * unat i) (mem_bytes le v) (arr_data a)\<rparr>"

definition array_get :: "bool \<Rightarrow> byte \<Rightarrow> i64 \<Rightarrow> mem_array \<Rightarrow> i128" where
  "array_get le junk i a = mem_word le (read_mem junk (arr_data a) (16 * unat i) 16)"

text \<open>A pointer into the memory of the contract is an offset into the buffer.\<close>

definition array_getPtr :: "i64 \<Rightarrow> nat" where
  "array_getPtr i = unat i"

definition array_pop :: "i64 \<Rightarrow> mem_array \<Rightarrow> mem_array" where
  "array_pop count a = a\<lparr>arr_size := arr_size a - count\<rparr>"

definition array_size :: "mem_array \<Rightarrow> i64" where
  "array_size a = arr_size a"

definition array_extend :: "byte \<Rightarrow> i64 \<Rightarrow> mem_array \<Rightarrow> mem_array" where
  "array_extend junk newSize a =
     (let sz = arr_size a;
          extSize = newSize - sz;
          newData = realloc junk (arr_data a) (unat newSize);
          newData = write_mem (unat sz) (replicate (unat extSize) 0) newData
      in \<lparr>arr_data = newData, arr_size = newSize, arr_cap = newSize\<rparr>)"


section \<open>Reading what was written\<close>

lemma length_read_mem [simp]: "length (read_mem junk buf i n) = n"
  by (simp add: read_mem_def)

lemma length_write_mem [simp]: "length (write_mem i bs buf) = length buf"
  by (simp add: write_mem_def)

lemma length_realloc [simp]: "length (realloc junk buf n) = n"
  by (simp add: realloc_def)

lemma nth_write_mem:
  "k < length buf \<Longrightarrow> write_mem i bs buf ! k =
    (if i \<le> k \<and> k < i + length bs then bs ! (k - i) else buf ! k)"
  by (simp add: write_mem_def)

lemma nth_realloc: "k < n \<Longrightarrow> realloc junk buf n ! k = (if k < length buf then buf ! k else junk)"
  by (auto simp: realloc_def nth_append)

lemma read_write_same:
  "length bs = n \<Longrightarrow> i + n \<le> length buf \<Longrightarrow> read_mem junk (write_mem i bs buf) i n = bs"
  by (auto simp: read_mem_def nth_write_mem intro!: nth_equalityI)

lemma read_write_other:
  "i + n \<le> j \<or> j + length bs \<le> i \<Longrightarrow> read_mem junk (write_mem j bs buf) i n = read_mem junk buf i n"
  by (auto simp: read_mem_def nth_write_mem)

lemma read_mem_slice: "i + n \<le> length buf \<Longrightarrow> read_mem junk buf i n = take n (drop i buf)"
  by (auto simp: read_mem_def intro!: nth_equalityI)

lemma write_mem_slice:
  "i + length bs \<le> length buf \<Longrightarrow>
   write_mem i bs buf = take i buf @ bs @ drop (i + length bs) buf"
  by (rule nth_equalityI) (auto simp: nth_write_mem nth_append)

lemma write_mem_Nil [simp]: "write_mem i [] buf = buf"
  by (rule nth_equalityI) (auto simp: nth_write_mem)

text \<open>The memory use: growing keeps the old bytes and adds zeros, whatever \<open>realloc\<close> leaves behind.\<close>

lemma array_extend_eq:
  assumes "unat (arr_size a) = length (arr_data a)" "arr_size a \<le> n"
  shows "array_extend junk n a =
    \<lparr>arr_data = arr_data a @ replicate (unat n - length (arr_data a)) 0, arr_size = n, arr_cap = n\<rparr>"
proof -
  have le: "length (arr_data a) \<le> unat n" using assms by (simp add: word_le_nat_alt)
  have "unat (n - arr_size a) = unat n - length (arr_data a)"
    using assms by (simp add: unat_sub)
  then show ?thesis
    using le assms(1)
    by (auto simp: array_extend_def Let_def nth_write_mem nth_realloc nth_append intro!: nth_equalityI)
qed


section \<open>The array as a vector of words\<close>

text \<open>Every element lies within the buffer, and the buffer within what 64-bit sizes can express.\<close>

definition array_inv :: "mem_array \<Rightarrow> bool" where
  "array_inv a \<longleftrightarrow> arr_size a \<le> arr_cap a \<and> length (arr_data a) = 32 * unat (arr_cap a)"

definition array_words :: "bool \<Rightarrow> byte \<Rightarrow> mem_array \<Rightarrow> i128 list" where
  "array_words le junk a = map (\<lambda>i. array_get le junk (of_nat i) a) [0..<unat (arr_size a)]"

lemma array_init_inv: "array_inv array_init" "array_words le junk array_init = []"
  by (simp_all add: array_inv_def array_init_def array_words_def)

lemma mem_word_mem_bytes [codec_simps]:
  fixes w :: "'a::len word"
  assumes "8 dvd LENGTH('a)"
  shows "mem_word le (mem_bytes le w) = w"
  using assms by (auto simp: mem_word_def mem_bytes_def Let_def codec_simps)

lemma length_mem_bytes [simp]: "length (mem_bytes le (w :: 'a::len word)) = LENGTH('a) div 8"
  by (simp add: mem_bytes_def Let_def)

lemma array_get_write:
  assumes "16 * unat i + 16 \<le> length (arr_data a)"
  shows "array_get le junk j (a\<lparr>arr_data := write_mem (16 * unat i) (mem_bytes le v) (arr_data a)\<rparr>) =
    (if j = i then v else array_get le junk j a)"
proof (cases "j = i")
  case True
  then show ?thesis
    using assms by (simp add: array_get_def read_write_same codec_simps)
next
  case False
  then have "16 * unat j + 16 \<le> 16 * unat i \<or> 16 * unat i + 16 \<le> 16 * unat j"
    by (simp add: word_unat_eq_iff) linarith
  with False show ?thesis
    by (simp add: array_get_def read_write_other)
qed

lemma unat_of_nat_less: "k < unat (w :: 'a::len word) \<Longrightarrow> unat (of_nat k :: 'a word) = k"
proof -
  assume "k < unat w"
  also have "unat w < 2 ^ LENGTH('a)" by (rule unsigned_less)
  finally show ?thesis by (simp add: unat_of_nat)
qed

lemma unat_inc: "unat (w :: 'a::len word) + 1 < 2 ^ LENGTH('a) \<Longrightarrow> unat (w + 1) = unat w + 1"
  by (simp add: unat_word_ariths)

lemma array_words_write:
  assumes "array_inv a" "i < arr_cap a"
  shows "array_words le junk (a\<lparr>arr_data := write_mem (16 * unat i) (mem_bytes le v) (arr_data a)\<rparr>) =
    (array_words le junk a)[unat i := v]"
proof -
  have "16 * unat i + 16 \<le> length (arr_data a)"
    using assms by (simp add: array_inv_def word_less_nat_alt)
  moreover have "of_nat k = i \<longleftrightarrow> k = unat i" if "k < unat (arr_size a)" for k
    using unat_of_nat_less [OF that] by (metis word_eq_of_natI)
  ultimately show ?thesis
    by (auto simp: array_words_def array_get_write nth_list_update intro!: nth_equalityI)
qed

lemma array_words_append:
  assumes "array_inv a" "arr_size a < arr_cap a"
  shows "array_words le junk
      (a\<lparr>arr_data := write_mem (16 * unat (arr_size a)) (mem_bytes le v) (arr_data a),
         arr_size := arr_size a + 1\<rparr>) = array_words le junk a @ [v]"
proof -
  have in_buf: "16 * unat (arr_size a) + 16 \<le> length (arr_data a)"
    using assms by (simp add: array_inv_def word_less_nat_alt)
  have "unat (arr_cap a) < 2 ^ 64" using unsigned_less [of "arr_cap a"] by simp
  then have sz: "unat (arr_size a + 1) = Suc (unat (arr_size a))"
    using assms(2) by (subst unat_inc) (simp_all add: word_less_nat_alt)
  have other: "of_nat k \<noteq> arr_size a" if "k < unat (arr_size a)" for k
    using unat_of_nat_less [OF that] that by auto
  have "array_get le junk i (a\<lparr>arr_data := d, arr_size := n\<rparr>) =
      array_get le junk i (a\<lparr>arr_data := d\<rparr>)" for i d n
    by (simp add: array_get_def)
  then show ?thesis
    using in_buf other by (simp add: array_words_def sz array_get_write)
qed

lemma array_words_realloc:
  assumes "array_inv a" "length (arr_data a) \<le> n"
  shows "array_words le junk (a\<lparr>arr_data := realloc junk (arr_data a) n, arr_cap := c\<rparr>) =
    array_words le junk a"
proof -
  have "read_mem junk (realloc junk (arr_data a) n) (16 * k) 16 = read_mem junk (arr_data a) (16 * k) 16"
    if "k < unat (arr_size a)" for k
    using that assms by (auto simp: read_mem_def nth_realloc array_inv_def word_le_nat_alt)
  then show ?thesis
    by (simp add: array_words_def array_get_def unat_of_nat_less)
qed

lemma array_push_words:
  assumes inv: "array_inv a" and cap: "unat (arr_cap a) < 2 ^ 58"
  shows "array_inv (array_push le junk v a) \<and>
    array_words le junk (array_push le junk v a) = array_words le junk a @ [v]"
proof (cases "arr_cap a = arr_size a")
  case True
  define a1 where "a1 = a\<lparr>arr_data := realloc junk (arr_data a) (32 * (unat (arr_cap a) + 1)),
    arr_cap := arr_cap a + 1\<rparr>"
  have c: "unat (arr_cap a + 1) = unat (arr_cap a) + 1" using cap by (intro unat_inc) simp
  have n: "unat (push_bit 5 (arr_cap a + 1)) = 32 * (unat (arr_cap a) + 1)"
    using cap c by (simp add: unsigned_push_bit_eq push_bit_eq_mult [where ?'a = nat] take_bit_nat_eq_self)
  have a1: "array_inv a1" "arr_size a1 < arr_cap a1" "array_words le junk a1 = array_words le junk a"
    using inv c True array_words_realloc [OF inv, of "32 * (unat (arr_cap a) + 1)"]
    by (simp_all add: a1_def array_inv_def word_le_nat_alt word_less_nat_alt)
  have "array_push le junk v a = a1\<lparr>arr_data := write_mem (16 * unat (arr_size a1)) (mem_bytes le v) (arr_data a1),
      arr_size := arr_size a1 + 1\<rparr>"
    using True n by (simp add: array_push_def Let_def c_reallocStep_def a1_def)
  moreover have "arr_size a1 + 1 \<le> arr_cap a1" using a1(2) by (simp add: inc_le)
  ultimately show ?thesis
    using array_words_append [OF a1(1,2)] a1 by (simp add: array_inv_def)
next
  case False
  then have less: "arr_size a < arr_cap a" using inv by (auto simp: array_inv_def order.strict_iff_order)
  then have "arr_size a + 1 \<le> arr_cap a" by (simp add: inc_le)
  with False less array_words_append [OF inv less] inv show ?thesis
    by (simp add: array_push_def Let_def array_inv_def)
qed

text \<open>
  C28: the array as a vector. While fewer than \<open>2 ^ 58\<close> elements are reserved, the generated functions
  keep the size within the capacity and the capacity within the buffer, and implement a list of words:
  pushing appends, setting replaces, getting reads the element and popping drops the last ones, on a
  host of either byte order and whatever \<open>realloc\<close> leaves in fresh memory.
\<close>

theorem array_implements_list:
  assumes inv: "array_inv a" and cap: "unat (arr_cap a) < 2 ^ 58"
  shows "array_inv (array_push le junk v a) \<and>
    array_words le junk (array_push le junk v a) = array_words le junk a @ [v] \<and>
    (i < arr_size a \<longrightarrow> array_inv (array_set le i v a) \<and>
      array_words le junk (array_set le i v a) = (array_words le junk a)[unat i := v] \<and>
      array_get le junk i a = array_words le junk a ! unat i) \<and>
    (n \<le> arr_size a \<longrightarrow> array_inv (array_pop n a) \<and>
      array_words le junk (array_pop n a) = take (unat (arr_size a) - unat n) (array_words le junk a))"
proof (intro conjI impI)
  show "array_inv (array_push le junk v a)"
    "array_words le junk (array_push le junk v a) = array_words le junk a @ [v]"
    using array_push_words [OF inv cap] by blast+
  show "array_inv (array_set le i v a)" using inv by (simp add: array_set_def array_inv_def)
next
  assume i: "i < arr_size a"
  have "i < arr_cap a" using i inv by (auto simp: array_inv_def)
  then show "array_words le junk (array_set le i v a) = (array_words le junk a)[unat i := v]"
    using array_words_write [OF inv] by (simp add: array_set_def)
  have "unat i < unat (arr_size a)" using i by (simp add: word_less_nat_alt)
  then show "array_get le junk i a = array_words le junk a ! unat i"
    by (simp add: array_words_def)
next
  assume n: "n \<le> arr_size a"
  then have "arr_size a - n \<le> arr_size a" by (simp add: word_le_nat_alt unat_sub)
  then show "array_inv (array_pop n a)"
    using inv by (auto simp: array_pop_def array_inv_def)
  show "array_words le junk (array_pop n a) = take (unat (arr_size a) - unat n) (array_words le junk a)"
    using n by (simp add: array_pop_def array_words_def array_get_def take_map unat_sub)
qed

theorem array_implements_list_witness:
  "\<exists>a. a = array_push True 0xaa 7 (array_push True 0xaa 5 array_init) \<and>
     array_words True 0xaa (array_push True 0xaa 9 a) = array_words True 0xaa a @ [9] \<and>
     array_words True 0xaa (array_pop 1 a) = take 1 (array_words True 0xaa a)"
proof -
  let ?a = "array_push True 0xaa 7 (array_push True 0xaa 5 array_init)"
  have sz: "arr_size ?a = 2" "arr_cap ?a = 2"
    by (simp_all add: array_push_def Let_def array_init_def c_reallocStep_def)
  have "array_inv (array_push True 0xaa 5 array_init)"
    "unat (arr_cap (array_push True 0xaa 5 array_init)) < 2 ^ 58"
    using array_push_words [OF array_init_inv(1)]
    by (simp_all add: array_push_def Let_def array_init_def c_reallocStep_def)
  then have "array_inv ?a" using array_push_words by blast
  with array_implements_list [of ?a True "0xaa" 9 1 1] sz show ?thesis
    by simp
qed

end
