(* ===== verification/JitMemory.thy ===== *)
theory JitMemory
  imports JitArray
begin

text \<open>
  The memory of a contract: \<^verbatim>\<open>src/fastvm/libevmjit/Memory.cpp\<close>.

  \<open>mem_require\<close> is the generated function \<open>mem.require\<close>: every access first asks for the range it
  touches, pays for the growth and extends the array in units of 32 bytes. The loads, stores and
  copies follow. An aborted contract is the result \<open>None\<close>.
\<close>

section \<open>mem.require\<close>

definition c_inputMax :: i64 where
  "c_inputMax = push_bit 33 1"

definition mem_words_cost :: "evm_revision \<Rightarrow> i64 \<Rightarrow> i64" where
  "mem_words_cost r w = w * (if r \<ge> EVM_AION then 1 else 3) + drop_bit 9 (w * w)"

definition mem_require :: "'h jit_env \<Rightarrow> i128 \<Rightarrow> i128 \<Rightarrow> 'h rt \<Rightarrow> 'h rt option" where
  "mem_require e blkOffset blkSize s =
     (if blkSize \<noteq> 0
      then let blkOffsetOk = blkOffset \<le> ucast c_inputMax;
               blkO = if blkOffsetOk then ucast blkOffset else c_inputMax;
               blkSizeOk = blkSize \<le> ucast c_inputMax;
               blkS = if blkSizeOk then ucast blkSize else c_inputMax;
               sizeReq0 = blkO + blkS;
               sizeReq = (sizeReq0 + 31) AND push_bit 5 (- 1);
               sizeCur = array_size (mem s);
               sizeOk = sizeReq \<le> sizeCur
           in if sizeOk then Some s
              else let w1 = drop_bit 5 sizeReq;
                       c1 = mem_words_cost (m_rev e) w1;
                       w0 = drop_bit 5 sizeCur;
                       c0 = mem_words_cost (m_rev e) w0;
                       cc = c1 - c0;
                       costOk = blkOffsetOk \<and> blkSizeOk;
                       c = if costOk then cc else gasMax
                   in Option.bind (count64 c s)
                        (\<lambda>s. Some (s\<lparr>mem := array_extend (junk_byte e) sizeReq (mem s)\<rparr>))
      else Some s)"

text \<open>The wrapper that emits the call skips it for a size that is the constant 0.\<close>

definition require :: "'h jit_env \<Rightarrow> i128 \<Rightarrow> llvm_value \<Rightarrow> 'h rt \<Rightarrow> 'h rt option" where
  "require e off sz s =
     (case sz of
        ConstantInt c \<Rightarrow> if c = 0 then Some s else mem_require e off c s
      | Runtime v \<Rightarrow> mem_require e off v s)"


section \<open>Loads, stores and copies\<close>

definition mload_func :: "'h jit_env \<Rightarrow> i128 \<Rightarrow> 'h rt \<Rightarrow> i128" where
  "mload_func e index s =
     (let memPtr = array_getPtr (ucast index);
          ret = mem_word (host_le e) (read_mem (junk_byte e) (arr_data (mem s)) memPtr 16)
      in toNative (host_le e) ret)"

definition poke :: "nat \<Rightarrow> byte list \<Rightarrow> 'h rt \<Rightarrow> 'h rt" where
  "poke i bs s = s\<lparr>mem := (mem s)\<lparr>arr_data := write_mem i bs (arr_data (mem s))\<rparr>\<rparr>"

definition mstore_func :: "'h jit_env \<Rightarrow> i128 \<Rightarrow> i128 \<Rightarrow> 'h rt \<Rightarrow> 'h rt" where
  "mstore_func e index v s =
     poke (array_getPtr (ucast index)) (mem_bytes (host_le e) (toBE (host_le e) v)) s"

definition mstore8_func :: "i128 \<Rightarrow> byte \<Rightarrow> 'h rt \<Rightarrow> 'h rt" where
  "mstore8_func index v s = poke (array_getPtr (ucast index)) [v] s"

definition loadWord_check :: "'h jit_env \<Rightarrow> i128 \<Rightarrow> 'h rt \<Rightarrow> 'h rt option" where
  "loadWord_check e addr = require e addr (ConstantInt 16)"

definition storeWord :: "'h jit_env \<Rightarrow> i128 \<Rightarrow> i128 \<Rightarrow> 'h rt \<Rightarrow> 'h rt option" where
  "storeWord e addr w s =
     Option.bind (require e addr (ConstantInt 16) s) (\<lambda>s. Some (mstore_func e addr w s))"

definition storeByte :: "'h jit_env \<Rightarrow> i128 \<Rightarrow> i128 \<Rightarrow> 'h rt \<Rightarrow> 'h rt option" where
  "storeByte e addr w s =
     Option.bind (require e addr (ConstantInt 1) s) (\<lambda>s. Some (mstore8_func addr (ucast w) s))"

definition getSize :: "'h rt \<Rightarrow> i128" where
  "getSize s = ucast (array_size (mem s))"

definition getBytes :: "'h jit_env \<Rightarrow> i128 \<Rightarrow> i64 \<Rightarrow> 'h rt \<Rightarrow> byte list" where
  "getBytes e index n s = read_mem (junk_byte e) (arr_data (mem s)) (unat index) (unat n)"

definition copyBytes ::
  "'h jit_env \<Rightarrow> byte list \<Rightarrow> i128 \<Rightarrow> i128 \<Rightarrow> i128 \<Rightarrow> i128 \<Rightarrow> 'h rt \<Rightarrow> 'h rt option" where
  "copyBytes e src srcSize srcIdx destMemIdx reqBytes s =
     Option.bind (require e destMemIdx (Runtime reqBytes) s) (\<lambda>s.
       let reqBytes = (ucast reqBytes :: i64);
           copyWords = (reqBytes + 31) div 32
       in Option.bind (countCopy copyWords s) (\<lambda>s.
         let isOutsideData = srcSize \<le> srcIdx;
             idx64 = (ucast srcIdx :: i64);
             size64 = (ucast srcSize :: i64);
             dataLeftSize = size64 - idx64;
             outOfBound = dataLeftSize < reqBytes;
             bytesToCopyInner = if outOfBound then dataLeftSize else reqBytes;
             bytesToCopy = if isOutsideData then 0 else bytesToCopyInner;
             bytesToZero = reqBytes - bytesToCopy;
             dstIdx = (ucast destMemIdx :: i64);
             padIdx = dstIdx + bytesToCopy;
             dst = array_getPtr dstIdx;
             pad = array_getPtr padIdx
         in Some (poke pad (replicate (unat bytesToZero) 0)
              (poke dst (read_mem (junk_byte e) src (unat idx64) (unat bytesToCopy)) s))))"

definition copyBytesNoPadding ::
  "'h jit_env \<Rightarrow> byte list \<Rightarrow> i64 \<Rightarrow> i128 \<Rightarrow> i128 \<Rightarrow> i128 \<Rightarrow> 'h rt \<Rightarrow> 'h rt option" where
  "copyBytesNoPadding e src srcSize srcIdx destMemIdx reqBytes s =
     Option.bind (require e destMemIdx (Runtime reqBytes) s) (\<lambda>s.
       let reqBytes64 = (ucast reqBytes :: i64);
           copyWords = (reqBytes64 + 31) div 32;
           reqSize = srcIdx + reqBytes;
           overflow = reqSize < reqBytes;
           outOfRange = ucast srcSize < reqSize;
           bufferOverrun = overflow \<or> outOfRange;
           penalty = gasMax;
           cost = if bufferOverrun then penalty else copyWords
       in Option.bind (countCopy cost s) (\<lambda>s.
         let srcIdx64 = (ucast srcIdx :: i64);
             dst = array_getPtr (ucast destMemIdx)
         in Some (poke dst (read_mem (junk_byte e) src (unat srcIdx64) (unat reqBytes64)) s)))"


section \<open>The cost and the growth in numbers\<close>

lemma require_eq: "require e off v s = mem_require e off (val_of v) s"
  by (cases v) (auto simp: require_def mem_require_def)

lemma round_up_32: "w AND push_bit 5 (- 1) = push_bit 5 (drop_bit 5 (w :: i64))"
  by (rule bit_word_eqI) (auto simp: bit_simps)

lemma unat_round_up_32: "unat ((w :: i64) AND push_bit 5 (- 1)) = 32 * (unat w div 32)"
proof -
  have "unat w < 2 ^ 64" using unsigned_less [of w] by simp
  then have "32 * (unat w div 32) < 2 ^ 64"
    by (meson le_less_trans times_div_less_eq_dividend)
  then show ?thesis
    unfolding round_up_32
    by (simp add: unsigned_push_bit_eq unat_drop_bit push_bit_eq_mult [where ?'a = nat]
        take_bit_nat_eq_self mult.commute)
qed

definition memcost :: "evm_revision \<Rightarrow> nat \<Rightarrow> nat" where
  "memcost r w = w * (if r \<ge> EVM_AION then 1 else 3) + w * w div 512"

lemma memcost_mono: "v \<le> w \<Longrightarrow> memcost r v \<le> memcost r w"
  by (auto simp: memcost_def intro!: add_mono div_le_mono mult_le_mono)

lemma memcost_bound: "w \<le> 2 ^ 29 \<Longrightarrow> memcost r w < 2 ^ 50"
proof -
  assume *: "w \<le> 2 ^ 29"
  have "memcost r w \<le> memcost r (2 ^ 29)" using * by (rule memcost_mono)
  also have "\<dots> < 2 ^ 50" by (simp add: memcost_def)
  finally show ?thesis .
qed

lemma unat_mem_words_cost:
  assumes "unat w \<le> 2 ^ 29"
  shows "unat (mem_words_cost r w) = memcost r (unat w)"
proof -
  have "unat w * unat w \<le> 2 ^ 29 * 2 ^ 29" using assms by (intro mult_le_mono)
  then have sq: "unat (w * w) = unat w * unat w" by (simp add: unat_word_ariths)
  have lin: "unat (w * (if r \<ge> EVM_AION then 1 else 3)) = unat w * (if r \<ge> EVM_AION then 1 else 3)"
    using assms by (simp add: unat_word_ariths)
  have "unat (drop_bit 9 (w * w)) = unat w * unat w div 512" by (simp add: unat_drop_bit sq)
  with lin have "unat (w * (if r \<ge> EVM_AION then 1 else 3)) + unat (drop_bit 9 (w * w)) = memcost r (unat w)"
    by (simp add: memcost_def)
  moreover have "memcost r (unat w) < 2 ^ 64"
    using memcost_bound [OF assms, of r] by simp
  ultimately show ?thesis
    unfolding mem_words_cost_def by (subst unat_word_ariths) simp
qed


section \<open>What a successful check guarantees\<close>

text \<open>
  The invariant of memory: the buffer has exactly the recorded size, a multiple of 32 that the address
  arithmetic can handle.
\<close>

definition mem_ok :: "'h rt \<Rightarrow> bool" where
  "mem_ok s \<longleftrightarrow> length (arr_data (mem s)) = unat (arr_size (mem s)) \<and>
     32 dvd unat (arr_size (mem s)) \<and> unat (arr_size (mem s)) \<le> 2 ^ 34"

definition mem_need :: "i128 \<Rightarrow> i128 \<Rightarrow> nat" where
  "mem_need off sz = (if sz = 0 then 0 else 32 * ((unat off + unat sz + 31) div 32))"

definition mem_grow :: "nat \<Rightarrow> 'h rt \<Rightarrow> 'h rt" where
  "mem_grow n s = s\<lparr>mem := \<lparr>arr_data = arr_data (mem s) @ replicate (n - length (arr_data (mem s))) 0,
     arr_size = of_nat n, arr_cap = of_nat n\<rparr>\<rparr>"

lemma unat_c_inputMax: "unat c_inputMax = 2 ^ 33" "unat (ucast c_inputMax :: i128) = 2 ^ 33"
  by (simp_all add: c_inputMax_def)

lemma unat_ucast_small: "unat (w :: i128) < 2 ^ 64 \<Longrightarrow> unat (ucast w :: i64) = unat w"
  by (simp add: unsigned_ucast_eq take_bit_nat_eq_self)

lemma sizeReq_eq:
  assumes "unat (o64 :: i64) \<le> 2 ^ 33" "unat s64 \<le> 2 ^ 33"
  shows "unat ((o64 + s64 + 31) AND push_bit 5 (- 1)) = 32 * ((unat o64 + unat s64 + 31) div 32)"
proof -
  have "unat (o64 + s64 + 31) = unat o64 + unat s64 + 31"
    using assms by (simp add: unat_word_ariths)
  then show ?thesis by (simp only: unat_round_up_32)
qed

lemma sint64_of_unat: "unat (w :: i64) < 2 ^ 63 \<Longrightarrow> sint w = int (unat w)"
  using of_nat_less_iff [of "unat w" "2 ^ 63", where ?'a = int] by (subst sint64_small) simp_all

lemma grow_cost:
  fixes w1 w0 :: i64
  assumes "unat w0 \<le> unat w1" "unat w1 \<le> 2 ^ 29"
  shows "mem_words_cost r w1 - mem_words_cost r w0 = of_nat (memcost r (unat w1) - memcost r (unat w0))"
    and "sint (mem_words_cost r w1 - mem_words_cost r w0) =
      int (memcost r (unat w1) - memcost r (unat w0))"
proof -
  have c: "unat (mem_words_cost r w1) = memcost r (unat w1)" "unat (mem_words_cost r w0) = memcost r (unat w0)"
    using assms by (simp_all add: unat_mem_words_cost)
  have "memcost r (unat w0) \<le> memcost r (unat w1)" using assms(1) by (rule memcost_mono)
  then have u: "unat (mem_words_cost r w1 - mem_words_cost r w0) = memcost r (unat w1) - memcost r (unat w0)"
    using c by (simp add: unat_sub word_le_nat_alt)
  then show "mem_words_cost r w1 - mem_words_cost r w0 = of_nat (memcost r (unat w1) - memcost r (unat w0))"
    by (rule word_eq_of_natI)
  show "sint (mem_words_cost r w1 - mem_words_cost r w0) = int (memcost r (unat w1) - memcost r (unat w0))"
    using u memcost_bound [OF assms(2), of r] by (subst sint64_of_unat) simp_all
qed

lemma extend_grow:
  assumes "mem_ok s" "length (arr_data (mem s)) \<le> unat n"
  shows "s\<lparr>mem := array_extend j n (mem s)\<rparr> = mem_grow (unat n) s"
  using assms by (simp add: mem_ok_def mem_grow_def array_extend_eq word_le_nat_alt)

lemma mem_require_in:
  assumes ok: "mem_ok s" and gas: "0 \<le> sint (gas s)"
    and off: "unat off \<le> 2 ^ 33" and sz: "unat sz \<le> 2 ^ 33"
  shows "mem_require e off sz s =
    (let n = mem_need off sz; n0 = length (arr_data (mem s));
         c = memcost (m_rev e) (n div 32) - memcost (m_rev e) (n0 div 32) in
     if n \<le> n0 then Some s
     else if int c \<le> sint (gas s) then Some (mem_grow n (s\<lparr>gas := gas s - of_nat c\<rparr>)) else None)"
proof (cases "sz = 0")
  case True
  then show ?thesis by (simp add: mem_require_def mem_need_def)
next
  case False
  define req where "req = ((ucast off :: i64) + ucast sz + 31) AND push_bit 5 (- 1)"
  have in_range: "off \<le> ucast c_inputMax" "sz \<le> ucast c_inputMax"
    using off sz by (simp_all add: word_le_nat_alt unat_c_inputMax)
  have u: "unat (ucast off :: i64) = unat off" "unat (ucast sz :: i64) = unat sz"
    using off sz by (simp_all add: unat_ucast_small)
  have req: "unat req = mem_need off sz"
    using sizeReq_eq [of "ucast off" "ucast sz"] off sz False by (simp add: u req_def mem_need_def)
  have unfold: "mem_require e off sz s =
      (if req \<le> array_size (mem s) then Some s
       else Option.bind (count64 (mem_words_cost (m_rev e) (drop_bit 5 req) -
           mem_words_cost (m_rev e) (drop_bit 5 (array_size (mem s)))) s)
         (\<lambda>s. Some (s\<lparr>mem := array_extend (junk_byte e) req (mem s)\<rparr>)))"
    using False in_range by (simp only: mem_require_def Let_def req_def if_True simp_thms)
  let ?n0 = "length (arr_data (mem s))"
  have n0: "unat (array_size (mem s)) = ?n0" using ok by (simp add: mem_ok_def array_size_def)
  show ?thesis
  proof (cases "mem_need off sz \<le> ?n0")
    case True
    then have "req \<le> array_size (mem s)" by (simp add: word_le_nat_alt req n0)
    with True show ?thesis by (simp add: unfold)
  next
    case grows: False
    then have "\<not> req \<le> array_size (mem s)" by (simp add: word_le_nat_alt req n0)
    moreover have w: "unat (drop_bit 5 req) = mem_need off sz div 32"
      "unat (drop_bit 5 (array_size (mem s))) = ?n0 div 32"
      by (simp_all add: unat_drop_bit req n0)
    have "(unat off + unat sz + 31) div 32 \<le> (2 ^ 34 + 31) div 32"
      using off sz by (intro div_le_mono) simp
    then have "mem_need off sz \<le> 2 ^ 34" by (simp add: mem_need_def)
    then have "mem_need off sz div 32 \<le> 2 ^ 29" "?n0 div 32 \<le> mem_need off sz div 32"
      using grows by (auto intro: div_le_mono)
    note cost = grow_cost [of "drop_bit 5 (array_size (mem s))" "drop_bit 5 req" "m_rev e", unfolded w, OF this(2,1)]
    moreover have "s\<lparr>gas := g, mem := array_extend j req (mem s)\<rparr> =
        mem_grow (mem_need off sz) (s\<lparr>gas := g\<rparr>)" for g j
      using extend_grow [of "s\<lparr>gas := g\<rparr>" req j] ok grows by (simp add: mem_ok_def req)
    ultimately show ?thesis
      using grows gas by (simp add: unfold Let_def count64_def gas_check_iff)
  qed
qed


text \<open>A range the arithmetic cannot handle costs all the gas there can be.\<close>

lemma mem_require_out:
  assumes ok: "mem_ok s" and small: "unat (arr_size (mem s)) < 2 ^ 33"
    and gas: "0 \<le> sint (gas s)" "gas s \<noteq> gasMax"
    and sz: "sz \<noteq> 0" and big: "2 ^ 33 < unat off \<or> 2 ^ 33 < unat sz"
  shows "mem_require e off sz s = None"
proof -
  define o64 where "o64 = (if off \<le> ucast c_inputMax then ucast off else c_inputMax)"
  define s64 where "s64 = (if sz \<le> ucast c_inputMax then ucast sz else c_inputMax)"
  have "0 < unat sz" using sz by (simp add: unat_gt_0)
  then have o: "unat o64 = min (unat off) (2 ^ 33)" "unat s64 = min (unat sz) (2 ^ 33)"
    by (auto simp: o64_def s64_def word_le_nat_alt unat_c_inputMax unat_ucast_small)
  have "2 ^ 33 \<le> unat o64 + unat s64" using o big \<open>0 < unat sz\<close> by auto
  then have "2 ^ 33 \<le> 32 * ((unat o64 + unat s64 + 31) div 32)" by simp
  then have "2 ^ 33 \<le> unat ((o64 + s64 + 31) AND push_bit 5 (- 1))"
    using sizeReq_eq [of o64 s64] o by simp
  then have grows: "\<not> (o64 + s64 + 31) AND push_bit 5 (- 1) \<le> array_size (mem s)"
    using small by (simp add: word_le_nat_alt array_size_def)
  have "sint (gas s) < sint gasMax"
    using gas(2) sint64_inj [of "gas s" gasMax] sint64_range [of "gas s"] by (auto simp: gasMax_sint)
  then have "count64 gasMax s = None"
    using gas(1) by (simp add: count64_def gas_check_iff gasMax_sint)
  moreover have "\<not> (off \<le> ucast c_inputMax \<and> sz \<le> ucast c_inputMax)"
    using big by (auto simp: word_le_nat_alt unat_c_inputMax)
  ultimately show ?thesis
    using sz grows unfolding mem_require_def Let_def o64_def [symmetric] s64_def [symmetric] by auto
qed

lemma mem_require_Some:
  assumes ok: "mem_ok s" and small: "unat (arr_size (mem s)) < 2 ^ 33"
    and gas: "0 \<le> sint (gas s)" "gas s \<noteq> gasMax"
    and res: "mem_require e off sz s = Some s'"
  shows "sz = 0 \<or> unat off \<le> 2 ^ 33 \<and> unat sz \<le> 2 ^ 33"
  using mem_require_out [OF ok small gas, of sz off e] res by force

lemma mem_need_ge: "sz \<noteq> 0 \<Longrightarrow> unat off + unat sz \<le> mem_need off sz"
  by (simp add: mem_need_def)

lemma mem_need_dvd: "32 dvd mem_need off sz"
  by (simp add: mem_need_def)

lemma mem_need_bound:
  assumes "unat off \<le> 2 ^ 33" "unat sz \<le> 2 ^ 33"
  shows "mem_need off sz \<le> 2 ^ 34"
proof -
  have "(unat off + unat sz + 31) div 32 \<le> (2 ^ 34 + 31) div 32"
    using assms by (intro div_le_mono) simp
  then show ?thesis by (simp add: mem_need_def)
qed

lemma mem_grow_simps [simp]:
  "arr_data (mem (mem_grow n s)) = arr_data (mem s) @ replicate (n - length (arr_data (mem s))) 0"
  "arr_size (mem (mem_grow n s)) = of_nat n" "gas (mem_grow n s) = gas s"
  "host (mem_grow n s) = host s"
  by (simp_all add: mem_grow_def)

lemma mem_grow_ok:
  assumes "n \<le> 2 ^ 34" "32 dvd n" "length (arr_data (mem s)) \<le> n"
  shows "mem_ok (mem_grow n s)"
  using assms by (simp add: mem_ok_def unat_of_nat)

text \<open>
  C20: memory growth. On a well-formed memory of less than \<open>2 ^ 33\<close> bytes the generated \<open>mem.require\<close> does
  nothing for an empty range or one within memory; for a range that ends beyond it charges the
  difference of the quadratic cost of the two sizes in words, aborting exactly when that exceeds the
  gas, and extends the memory with zeros to the next multiple of 32; a non-empty range whose offset
  or size is above \<open>2 ^ 33\<close> always aborts.
\<close>

theorem mem_require_correct:
  assumes ok: "mem_ok s" and small: "unat (arr_size (mem s)) < 2 ^ 33"
    and gas: "0 \<le> sint (gas s)" "gas s \<noteq> gasMax"
  shows "mem_require e off sz s =
    (let n = mem_need off sz; n0 = length (arr_data (mem s));
         c = memcost (m_rev e) (n div 32) - memcost (m_rev e) (n0 div 32) in
     if sz = 0 then Some s
     else if 2 ^ 33 < unat off \<or> 2 ^ 33 < unat sz then None
     else if n \<le> n0 then Some s
     else if int c \<le> sint (gas s) then Some (mem_grow n (s\<lparr>gas := gas s - of_nat c\<rparr>)) else None)"
proof (cases "sz \<noteq> 0 \<and> (2 ^ 33 < unat off \<or> 2 ^ 33 < unat sz)")
  case True
  then show ?thesis using mem_require_out [OF ok small gas] by auto
next
  case False
  show ?thesis
  proof (cases "sz = 0")
    case True
    then show ?thesis by (simp add: mem_require_def)
  next
    case nz: False
    with False have "unat off \<le> 2 ^ 33" "unat sz \<le> 2 ^ 33" by auto
    with nz False show ?thesis using mem_require_in [OF ok gas(1)] by (simp add: Let_def)
  qed
qed

definition sample_fns :: "unit evm_context_fn_table" where
  "sample_fns = \<lparr>account_exists = (\<lambda>_ _. 1), get_storage = (\<lambda>_ _ _. replicate 16 0),
     set_storage = (\<lambda>h _ _ _. h), get_balance = (\<lambda>_ _. replicate 16 0), get_code = (\<lambda>_ _. []),
     selfdestruct = (\<lambda>h _ _. h),
     host_call = (\<lambda>h m. (\<lparr>status_code = 0, gas_left = 0, output_data = []\<rparr>, h)),
     get_tx_context = (\<lambda>_. \<lparr>tx_gas_price = replicate 16 0, tx_origin = replicate 32 0,
       block_coinbase = replicate 32 0, block_number = 1, block_timestamp = 1, block_gas_limit = 1,
       block_difficulty = replicate 16 0\<rparr>),
     get_block_hash = (\<lambda>_ _. replicate 32 0), host_log = (\<lambda>h _ _ _. h)\<rparr>"

definition sample_env :: "evm_revision \<Rightarrow> unit jit_env" where
  "sample_env r = \<lparr>m_rev = r, m_staticCall = False, m_code = [], fns = sample_fns,
     currentMsg = \<lparr>address = replicate 32 1, caller = replicate 32 2, msg_value = replicate 16 0,
       msg_input = [], code_hash = replicate 32 0, msg_gas = 1000, depth = 0, kind = 0, flags = 0\<rparr>,
     rtdata = \<lparr>rd_gas = 1000, callData = [1, 2, 3], apparentValue = replicate 16 0, rd_code = [],
       rd_address = replicate 32 1, rd_caller = replicate 32 2, rd_depth = 0\<rparr>,
     junk_byte = 0xaa, host_le = True, div_undef = \<lambda>_. (0, 0), undef_addr = replicate 32 0\<rparr>"

lemma sample_mem_ok: "mem_ok (sample_rt g)" "unat (arr_size (mem (sample_rt g))) < 2 ^ 33"
  "arr_data (mem (sample_rt g)) = []" "gas (sample_rt g) = g"
  by (simp_all add: mem_ok_def sample_rt_def)

theorem mem_require_correct_witness:
  "mem_require (sample_env EVM_AION) 40 16 (sample_rt 10) = Some (mem_grow 64 (sample_rt 8)) \<and>
   mem_require (sample_env EVM_AION) (2 ^ 40) 16 (sample_rt 10) = None"
proof -
  have "sample_rt 10\<lparr>gas := 8\<rparr> = sample_rt 8" by (simp add: sample_rt_def)
  then show ?thesis
    using mem_require_correct [OF sample_mem_ok(1,2), of 10 "sample_env EVM_AION" 40 16]
      mem_require_correct [OF sample_mem_ok(1,2), of 10 "sample_env EVM_AION" "2 ^ 40" 16]
    by (simp add: sample_mem_ok Let_def mem_need_def memcost_def sample_env_def gasMax_def)
qed

text \<open>
  The limit of that check. The offset and the size are clamped to \<open>2 ^ 33\<close> before they are
  compared with the size of memory, so a memory that has reached \<open>2 ^ 33\<close> bytes lets a range far beyond
  it pass without a charge.
\<close>

theorem mem_require_clamp_gap:
  assumes "unat (arr_size (mem s)) = 2 ^ 33"
  shows "mem_require e 0 (2 ^ 100) s = Some s"
proof -
  have "\<not> (2 ^ 100 :: i128) \<le> ucast c_inputMax" by (simp add: c_inputMax_def)
  moreover have "(0 + c_inputMax + 31) AND push_bit 5 (- 1) = c_inputMax"
    using sizeReq_eq [of 0 c_inputMax] by (simp add: unat_c_inputMax word_unat_eq_iff)
  moreover have "c_inputMax \<le> array_size (mem s)"
    using assms by (simp add: word_le_nat_alt unat_c_inputMax array_size_def)
  ultimately show ?thesis by (simp add: mem_require_def Let_def)
qed

theorem mem_require_clamp_gap_witness:
  "\<exists>s. s = (sample_rt 0)\<lparr>mem := \<lparr>arr_data = replicate (2 ^ 33) 0, arr_size = 0x200000000,
      arr_cap = 0x200000000\<rparr>\<rparr> \<and>
     mem_ok s \<and> mem_require (sample_env EVM_AION) 0 (2 ^ 100) s = Some s"
  using mem_require_clamp_gap [of "(sample_rt 0)\<lparr>mem := \<lparr>arr_data = replicate (2 ^ 33) 0,
      arr_size = 0x200000000, arr_cap = 0x200000000\<rparr>\<rparr>" "sample_env EVM_AION"]
  by (simp add: mem_ok_def)


section \<open>Loads, stores and copies in bounds\<close>

lemma poke_simps [simp]:
  "arr_data (mem (poke i bs s)) = write_mem i bs (arr_data (mem s))"
  "arr_size (mem (poke i bs s)) = arr_size (mem s)" "gas (poke i bs s) = gas s"
  "host (poke i bs s) = host s"
  by (simp_all add: poke_def)

lemma poke_ok: "mem_ok s \<Longrightarrow> mem_ok (poke i bs s)"
  by (simp add: mem_ok_def)

lemma mem_require_bounds:
  assumes ok: "mem_ok s" and small: "unat (arr_size (mem s)) < 2 ^ 33"
    and gas: "0 \<le> sint (gas s)" "gas s \<noteq> gasMax"
    and res: "mem_require e off sz s = Some s'"
  shows "mem_ok s'" "sz \<noteq> 0 \<Longrightarrow> unat off + unat sz \<le> length (arr_data (mem s'))"
    "\<exists>k. arr_data (mem s') = arr_data (mem s) @ replicate k 0"
    "sz \<noteq> 0 \<Longrightarrow> unat off \<le> 2 ^ 33 \<and> unat sz \<le> 2 ^ 33"
    "0 \<le> sint (gas s')" "sint (gas s') \<le> sint (gas s)"
proof -
  let ?new = "mem_need off sz" and ?old = "length (arr_data (mem s))"
  have nz: "sz = 0 \<or> unat off \<le> 2 ^ 33 \<and> unat sz \<le> 2 ^ 33"
    using mem_require_Some [OF ok small gas res] .
  then show "sz \<noteq> 0 \<Longrightarrow> unat off \<le> 2 ^ 33 \<and> unat sz \<le> 2 ^ 33" by blast
  consider "s' = s" "sz = 0" | "s' = s" "sz \<noteq> 0" "?new \<le> ?old"
    | c where "sz \<noteq> 0" "?old < ?new" "?new \<le> 2 ^ 34" "int c \<le> sint (gas s)"
      "s' = mem_grow ?new (s\<lparr>gas := gas s - of_nat c\<rparr>)" "c < 2 ^ 50"
  proof (cases "sz = 0")
    case True
    then show ?thesis using res that(1) by (simp add: mem_require_def)
  next
    case False
    with nz have r: "unat off \<le> 2 ^ 33" "unat sz \<le> 2 ^ 33" by auto
    have b: "?new \<le> 2 ^ 34" by (rule mem_need_bound [OF r])
    then have "?new div 32 \<le> 2 ^ 29" by simp
    then have "memcost (m_rev e) (?new div 32) < 2 ^ 50" by (rule memcost_bound)
    then show ?thesis
      using res mem_require_in [OF ok gas(1) r, of e] False b that(2,3)
      by (auto simp: Let_def split: if_splits)
  qed
  then have "mem_ok s' \<and> (sz \<noteq> 0 \<longrightarrow> unat off + unat sz \<le> length (arr_data (mem s'))) \<and>
    (\<exists>k. arr_data (mem s') = arr_data (mem s) @ replicate k 0) \<and>
    0 \<le> sint (gas s') \<and> sint (gas s') \<le> sint (gas s)"
  proof cases
    case 3
    have c: "sint (of_nat c :: i64) = int c"
      using 3(6) sint64_of_nat_mult [of c 1] by simp
    have "mem_ok s'"
      using 3(2,3,5) mem_need_dvd [of off sz] by (auto intro!: mem_grow_ok)
    moreover have "unat off + unat sz \<le> length (arr_data (mem s'))"
      using 3(2,5) mem_need_ge [OF 3(1), of off] by simp
    ultimately show ?thesis
      using 3(4,5) c gas(1) by (auto simp: sint64_diff_nonneg)
  qed (use ok gas in \<open>auto intro: order_trans [OF mem_need_ge]\<close>)
  then show "mem_ok s'" "sz \<noteq> 0 \<Longrightarrow> unat off + unat sz \<le> length (arr_data (mem s'))"
    "\<exists>k. arr_data (mem s') = arr_data (mem s) @ replicate k 0"
    "0 \<le> sint (gas s')" "sint (gas s') \<le> sint (gas s)" by blast+
qed

lemma loadWord_within:
  assumes "mem_ok s" "0 \<le> sint (gas s)" "unat a + 16 \<le> length (arr_data (mem s))" "unat a \<le> 2 ^ 33"
  shows "loadWord_check e a s = Some s"
proof -
  have "mem_need a 16 \<le> length (arr_data (mem s))"
    using assms by (auto simp: mem_need_def mem_ok_def elim!: dvdE)
  then show ?thesis
    using mem_require_in [OF assms(1,2,4), of 16 e] by (simp add: loadWord_check_def require_eq)
qed

lemma mload_after_write:
  assumes "unat a < 2 ^ 64" "unat a + 16 \<le> length (arr_data (mem s))"
  shows "mload_func e a (mstore_func e a w s) = w"
  using assms by (simp add: mload_func_def mstore_func_def array_getPtr_def unat_ucast_small
      mem_bytes_toBE read_write_same toNative_mem_word be_word_be_bytes_full)

text \<open>
  C25: storing and loading a word. A store that is not aborted leaves a well-formed memory with the
  word inside it, big endian whatever the byte order of the host; the bytes around it are the old ones,
  or zero where memory grew; and a load from the same address then needs no gas and returns the word.
\<close>

theorem mstore_then_mload:
  assumes ok: "mem_ok s" and small: "unat (arr_size (mem s)) < 2 ^ 33"
    and gas: "0 \<le> sint (gas s)" "gas s \<noteq> gasMax"
    and res: "storeWord e a w s = Some s'"
  shows "mem_ok s' \<and> unat a + 16 \<le> length (arr_data (mem s')) \<and>
    take 16 (drop (unat a) (arr_data (mem s'))) = be_bytes 16 w \<and>
    loadWord_check e a s' = Some s' \<and> mload_func e a s' = w \<and>
    (\<forall>k < length (arr_data (mem s')). k < unat a \<or> unat a + 16 \<le> k \<longrightarrow>
       arr_data (mem s') ! k = (if k < length (arr_data (mem s)) then arr_data (mem s) ! k else 0))"
proof -
  obtain t where t: "mem_require e a 16 s = Some t" and s': "s' = mstore_func e a w t"
    using res by (auto simp: storeWord_def require_eq split: bind_splits)
  note b = mem_require_bounds [OF ok small gas t]
  from b(3) obtain k where k: "arr_data (mem t) = arr_data (mem s) @ replicate k 0" by blast
  have a: "unat a + 16 \<le> length (arr_data (mem t))" "unat a \<le> 2 ^ 33" using b(2,4) by simp_all
  have data: "arr_data (mem s') = write_mem (unat a) (be_bytes 16 w) (arr_data (mem t))"
    using a(2) by (simp add: s' mstore_func_def array_getPtr_def unat_ucast_small mem_bytes_toBE)
  have ok': "mem_ok s'" "0 \<le> sint (gas s')"
    using b(1,5) by (simp_all add: s' mstore_func_def poke_ok)
  show ?thesis
  proof (intro conjI allI impI)
    show "take 16 (drop (unat a) (arr_data (mem s'))) = be_bytes 16 w"
      using a(1) by (simp add: data write_mem_slice)
    show "loadWord_check e a s' = Some s'"
      using ok' a by (intro loadWord_within) (simp_all add: data)
    show "mload_func e a s' = w" using a by (simp add: s' mload_after_write)
  next
    fix j assume "j < length (arr_data (mem s'))" "j < unat a \<or> unat a + 16 \<le> j"
    then show "arr_data (mem s') ! j = (if j < length (arr_data (mem s)) then arr_data (mem s) ! j else 0)"
      by (auto simp: data nth_write_mem k nth_append)
  qed (use ok' a data in simp_all)
qed

theorem mstore_then_mload_witness:
  "\<exists>s'. storeWord (sample_env EVM_AION) 40 0x0102 (sample_rt 10) = Some s' \<and>
     mload_func (sample_env EVM_AION) 40 s' = 0x0102"
proof -
  have "mem_require (sample_env EVM_AION) 40 16 (sample_rt 10) \<noteq> None"
    using mem_require_in [OF sample_mem_ok(1), of 10 40 16 "sample_env EVM_AION"]
    by (simp add: sample_mem_ok Let_def mem_need_def memcost_def sample_env_def)
  then obtain s' where "storeWord (sample_env EVM_AION) 40 0x0102 (sample_rt 10) = Some s'"
    by (auto simp: storeWord_def require_eq)
  with mstore_then_mload [OF sample_mem_ok(1,2) _ _ this] show ?thesis
    by (simp add: sample_mem_ok gasMax_def)
qed

lemma write_mem_append:
  "write_mem (i + length xs) ys (write_mem i xs buf) = write_mem i (xs @ ys) buf"
  by (rule nth_equalityI) (auto simp: nth_write_mem nth_append)

lemma poke_append: "poke (i + length xs) ys (poke i xs s) = poke i (xs @ ys) s"
  by (simp add: poke_def write_mem_append)

lemma poke_Nil [simp]: "poke i [] s = s"
  by (simp add: poke_def)

text \<open>The bytes of a source from an index on, continued with zeros.\<close>

definition padded :: "byte list \<Rightarrow> nat \<Rightarrow> nat \<Rightarrow> byte list" where
  "padded src i n = take n (drop i src @ replicate n 0)"

lemma length_padded [simp]: "length (padded src i n) = n"
  by (simp add: padded_def)

lemma padded_split:
  "c = min n (length src - i) \<Longrightarrow>
   padded src i n = take c (drop i src) @ replicate (n - c) 0"
  by (simp add: padded_def min_def)

lemma poke_outside:
  assumes "arr_data (mem t) = arr_data (mem s) @ replicate k 0"
    "j < length (arr_data (mem t))" "j < d \<or> d + length bs \<le> j"
  shows "arr_data (mem (poke d bs t)) ! j =
    (if j < length (arr_data (mem s)) then arr_data (mem s) ! j else 0)"
  using assms by (auto simp: nth_write_mem nth_append)

lemma countCopy_gas: "countCopy c s = Some s' \<Longrightarrow> \<exists>g. s' = s\<lparr>gas := g\<rparr>"
  by (auto simp: countCopy_def count64_def dest: gas_check_gas)

lemma copyBytes_poke:
  assumes size: "srcSize = of_nat (length src)" "length src < 2 ^ 63"
    and req: "req = 0 \<or> unat dest \<le> 2 ^ 33 \<and> unat req \<le> 2 ^ 33"
  shows "copyBytes e src srcSize srcIdx dest req s =
    Option.bind (mem_require e dest req s) (\<lambda>s.
      Option.bind (countCopy ((ucast req + 31) div 32) s) (\<lambda>s.
        Some (poke (unat dest) (padded src (unat srcIdx) (unat req)) s)))"
proof -
  define c :: i64 where "c = (if srcSize \<le> srcIdx then 0
    else if ucast srcSize - ucast srcIdx < (ucast req :: i64) then ucast srcSize - ucast srcIdx
    else ucast req)"
  have n: "unat (ucast req :: i64) = unat req" using req by (auto simp: unat_ucast_small)
  have sz: "unat srcSize = length src" "unat (ucast srcSize :: i64) = length src"
    using size by (simp_all add: unat_of_nat unat_ucast_small)
  have c: "unat c = min (unat req) (length src - unat srcIdx)"
  proof (cases "srcSize \<le> srcIdx")
    case False
    then have i: "unat srcIdx < length src" by (simp add: word_le_nat_alt sz)
    then have "unat (ucast srcIdx :: i64) = unat srcIdx"
      using size(2) by (intro unat_ucast_small) simp
    then have "unat (ucast srcSize - ucast srcIdx :: i64) = length src - unat srcIdx"
      using i by (simp add: unat_sub sz word_le_nat_alt)
    with False show ?thesis
      by (simp add: c_def word_less_nat_alt n min_def)
  qed (simp add: c_def word_le_nat_alt sz)
  have z: "unat (ucast req - c) = unat req - unat c"
    using c n by (simp add: unat_sub word_le_nat_alt)
  have src: "read_mem j src (unat (ucast srcIdx :: i64)) (unat c) = take (unat c) (drop (unat srcIdx) src)" for j
  proof (cases "unat srcIdx < length src")
    case True
    then have "unat (ucast srcIdx :: i64) = unat srcIdx" using size(2) by (intro unat_ucast_small) simp
    with True show ?thesis by (simp add: read_mem_slice c)
  qed (simp add: c read_mem_def)
  have dst: "poke (unat (ucast dest + c)) (replicate (unat req - unat c) 0)
      (poke (unat (ucast dest :: i64)) (take (unat c) (drop (unat srcIdx) src)) t) =
      poke (unat dest) (padded src (unat srcIdx) (unat req)) t" for t :: "'a rt"
  proof (cases "req = 0")
    case False
    with req have "unat (ucast dest :: i64) = unat dest" "unat (ucast dest + c) = unat dest + unat c"
      using c by (auto simp: unat_ucast_small unat_word_ariths)
    moreover have "length (take (unat c) (drop (unat srcIdx) src)) = unat c" using c by simp
    ultimately show ?thesis
      by (metis padded_split [OF c] poke_append)
  qed (use c in \<open>simp add: padded_def\<close>)
  show ?thesis
    unfolding copyBytes_def Let_def require_eq val_of.simps c_def [symmetric] array_getPtr_def z src dst ..
qed

text \<open>
  C23: copying into memory (CALLDATACOPY, CODECOPY, EXTCODECOPY). A copy that is not aborted writes, at
  the destination and within bounds, the bytes of the source from the given index on, continued with
  zeros past its end, also when the index is beyond the source or does not fit in 64 bits; all other
  bytes keep their value, or are zero where memory grew.
\<close>

theorem copyBytes_correct:
  assumes ok: "mem_ok s" and small: "unat (arr_size (mem s)) < 2 ^ 33"
    and gas: "0 \<le> sint (gas s)" "gas s \<noteq> gasMax"
    and size: "srcSize = of_nat (length src)" "length src < 2 ^ 63"
    and res: "copyBytes e src srcSize srcIdx dest req s = Some s'"
  shows "mem_ok s' \<and> (req \<noteq> 0 \<longrightarrow> unat dest + unat req \<le> length (arr_data (mem s'))) \<and>
    (req \<noteq> 0 \<longrightarrow>
      take (unat req) (drop (unat dest) (arr_data (mem s'))) = padded src (unat srcIdx) (unat req)) \<and>
    (\<forall>k < length (arr_data (mem s')). k < unat dest \<or> unat dest + unat req \<le> k \<longrightarrow>
       arr_data (mem s') ! k = (if k < length (arr_data (mem s)) then arr_data (mem s) ! k else 0))"
proof -
  from res obtain t0 where t0: "mem_require e dest req s = Some t0"
    by (auto simp: copyBytes_def require_eq split: bind_splits)
  note b = mem_require_bounds [OF ok small gas t0]
  from b(3) obtain k where k: "arr_data (mem t0) = arr_data (mem s) @ replicate k 0" by blast
  have r: "req = 0 \<or> unat dest \<le> 2 ^ 33 \<and> unat req \<le> 2 ^ 33" using b(4) by blast
  obtain g where s': "s' = poke (unat dest) (padded src (unat srcIdx) (unat req)) (t0\<lparr>gas := g\<rparr>)"
    using res t0 unfolding copyBytes_poke [OF size r]
    by (auto split: bind_splits dest!: countCopy_gas)
  have ok': "mem_ok (t0\<lparr>gas := g\<rparr>)" using b(1) by (simp add: mem_ok_def)
  have "take (unat req) (drop (unat dest) (arr_data (mem s'))) = padded src (unat srcIdx) (unat req)"
    if "req \<noteq> 0" using b(2) that by (simp add: s' write_mem_slice)
  then show ?thesis
    using poke_ok [OF ok'] b(2) poke_outside [of "t0\<lparr>gas := g\<rparr>" s k _ "unat dest"] k
    by (auto simp: s' nth_write_mem nth_append)
qed

theorem copyBytes_correct_witness:
  "\<exists>s'. copyBytes (sample_env EVM_AION) [1, 2, 3] 3 1 4 5 (sample_rt 100) = Some s' \<and>
     take 5 (drop 4 (arr_data (mem s'))) = [2, 3, 0, 0, 0]"
proof -
  let ?e = "sample_env EVM_AION"
  have "mem_require ?e 4 5 (sample_rt 100) = Some (mem_grow 32 (sample_rt 99))"
    using mem_require_in [OF sample_mem_ok(1), of 100 4 5 ?e]
    by (simp add: sample_mem_ok Let_def mem_need_def memcost_def sample_env_def, simp add: sample_rt_def)
  moreover have "countCopy 1 (mem_grow 32 (sample_rt 99)) \<noteq> None"
    by (simp add: countCopy_def count64_def gas_check_iff sample_mem_ok schedule_def)
  ultimately obtain s' where "copyBytes ?e [1, 2, 3] 3 1 4 5 (sample_rt 100) = Some s'"
    using copyBytes_poke [of 3 "[1, 2, 3]" 5 4 ?e 1 "sample_rt 100"] by auto
  moreover have "padded [1, 2, 3] 1 5 = [2, 3, 0, 0, 0]"
    by (simp add: padded_def eval_nat_numeral)
  ultimately show ?thesis
    using copyBytes_correct [OF sample_mem_ok(1,2), of 100 3 "[1, 2, 3]" ?e 1 4 5 s']
    by (simp add: sample_mem_ok gasMax_def)
qed

lemma overrun_iff:
  fixes srcIdx req :: i128 and srcSize :: i64
  assumes size: "srcSize = of_nat (length src)" "length src < 2 ^ 63"
  shows "srcIdx + req < req \<or> ucast srcSize < srcIdx + req \<longleftrightarrow>
    unat srcIdx + unat req > length src"
proof -
  have sz: "unat (ucast srcSize :: i128) = length src"
    using size by (simp add: unsigned_ucast_eq unat_of_nat take_bit_nat_eq_self)
  show ?thesis
  proof (cases "unat srcIdx + unat req < 2 ^ 128")
    case True
    then have "unat (srcIdx + req) = unat srcIdx + unat req" by (simp add: unat_word_ariths)
    then show ?thesis by (simp add: word_less_nat_alt sz)
  next
    case False
    moreover have "unat srcIdx < 2 ^ 128" "unat req < 2 ^ 128"
      using unsigned_less [of srcIdx] unsigned_less [of req] by simp_all
    ultimately have "unat (srcIdx + req) = unat srcIdx + unat req - 2 ^ 128"
      by (simp add: unat_word_ariths mod_if)
    with \<open>unat srcIdx < 2 ^ 128\<close> False have "srcIdx + req < req" by (simp add: word_less_nat_alt)
    with False size(2) show ?thesis by auto
  qed
qed

lemma overrun_penalty:
  assumes "0 \<le> sint (gas t)" "sint (gas t) < 2 ^ 63 - 3"
  shows "countCopy gasMax t = None"
  using assms by (simp add: countCopy_def count64_def gas_check_iff gasMax_def schedule_def)

text \<open>
  C24: copying return data (RETURNDATACOPY). A range that runs past the buffer, or wraps around, aborts
  unless the gas is within 2 of the largest amount there is; otherwise exactly the requested bytes of
  the buffer arrive at the destination.
\<close>

theorem copyBytesNoPadding_correct:
  assumes ok: "mem_ok s" and small: "unat (arr_size (mem s)) < 2 ^ 33"
    and gas: "0 \<le> sint (gas s)" "sint (gas s) < 2 ^ 63 - 3"
    and size: "srcSize = of_nat (length src)" "length src < 2 ^ 63"
  shows "(unat srcIdx + unat req > length src \<longrightarrow>
      copyBytesNoPadding e src srcSize srcIdx dest req s = None) \<and>
    (\<forall>s'. req \<noteq> 0 \<and> copyBytesNoPadding e src srcSize srcIdx dest req s = Some s' \<longrightarrow>
      mem_ok s' \<and> unat dest + unat req \<le> length (arr_data (mem s')) \<and>
      take (unat req) (drop (unat dest) (arr_data (mem s'))) =
        take (unat req) (drop (unat srcIdx) src))"
proof -
  have gm: "gas s \<noteq> gasMax" using gas(2) gasMax_sint by auto
  note over = overrun_iff [OF size, of srcIdx req]
  have pen: "countCopy gasMax t = None" if "mem_require e dest req s = Some t" for t
    using mem_require_bounds(5,6) [OF ok small gas(1) gm that] gas(2) by (intro overrun_penalty) auto
  have none: "copyBytesNoPadding e src srcSize srcIdx dest req s = None"
    if "srcIdx + req < req \<or> ucast srcSize < srcIdx + req"
    using that pen by (simp add: copyBytesNoPadding_def require_eq Let_def split: bind_splits)
  show ?thesis
  proof (rule conjI; intro allI impI)
    assume "length src < unat srcIdx + unat req"
    then show "copyBytesNoPadding e src srcSize srcIdx dest req s = None"
      using over none by blast
  next
    fix s' assume *: "req \<noteq> 0 \<and> copyBytesNoPadding e src srcSize srcIdx dest req s = Some s'"
    from * obtain t where t: "mem_require e dest req s = Some t"
      by (auto simp: copyBytesNoPadding_def require_eq split: bind_splits)
    note b = mem_require_bounds [OF ok small gas(1) gm t]
    have fine: "\<not> (srcIdx + req < req \<or> ucast srcSize < srcIdx + req)"
      using * none by auto
    then have i: "unat srcIdx + unat req \<le> length src" using over by simp
    then have "unat srcIdx < 2 ^ 64" "unat req < 2 ^ 64" using size(2) by simp_all
    then have u: "unat (ucast srcIdx :: i64) = unat srcIdx" "unat (ucast req :: i64) = unat req"
      by (simp_all only: unat_ucast_small)
    have d: "unat (ucast dest :: i64) = unat dest"
      using b(4) * by (intro unat_ucast_small) simp
    have "copyBytesNoPadding e src srcSize srcIdx dest req s =
        Option.bind (countCopy ((ucast req + 31) div 32) t)
          (\<lambda>s. Some (poke (unat dest) (take (unat req) (drop (unat srcIdx) src)) s))"
      using fine unfolding copyBytesNoPadding_def require_eq val_of.simps t
      by (simp add: Let_def array_getPtr_def u d read_mem_slice [OF i])
    then obtain g where s': "s' = poke (unat dest) (take (unat req) (drop (unat srcIdx) src)) (t\<lparr>gas := g\<rparr>)"
      using * by (auto split: bind_splits dest!: countCopy_gas)
    show "mem_ok s' \<and> unat dest + unat req \<le> length (arr_data (mem s')) \<and>
        take (unat req) (drop (unat dest) (arr_data (mem s'))) = take (unat req) (drop (unat srcIdx) src)"
      using b(1,2) * i by (simp add: s' write_mem_slice mem_ok_def)
  qed
qed

theorem copyBytesNoPadding_correct_witness:
  "copyBytesNoPadding (sample_env EVM_AION) [1, 2, 3] 3 2 0 2 (sample_rt 100) = None"
  using copyBytesNoPadding_correct [OF sample_mem_ok(1,2), of 100 3 "[1, 2, 3]" 2 2 "sample_env EVM_AION" 0]
  by (simp add: sample_mem_ok)

end
