(* ===== verification/Keccak.thy ===== *)
theory Keccak
  imports FVM_Prelude
begin

unbundle bit_operations_syntax

text \<open>
  The hash behind SHA3: \<open>keccak\<close> of \<^verbatim>\<open>src/fastvm/libevmjit/Utils.cpp\<close>.

  The state is an array of 25 lanes of 64 bits, addressed as 200 bytes when input is mixed in and
  output taken; the code reads the lanes through a cast pointer, so lane \<open>i\<close> is bytes \<open>8 i\<close> to
  \<open>8 i + 7\<close> in little endian order. The second half shows that this is the hash of the Keccak standard, whose
  step mappings, offsets and round constants are stated without the tables of the code.
\<close>

section \<open>Constants\<close>

definition rho :: "nat list" where
  "rho = [1, 3, 6, 10, 15, 21, 28, 36, 45, 55, 2, 14, 27, 41, 56, 8, 25, 43, 62, 18, 39, 61, 20, 44]"

definition pi_idx :: "nat list" where
  "pi_idx = [10, 7, 11, 17, 18, 3, 5, 16, 8, 21, 24, 4, 15, 23, 19, 13, 12, 2, 20, 14, 22, 9, 6, 1]"

definition RC :: "i64 list" where
  "RC = [1, 0x8082, 0x800000000000808a, 0x8000000080008000, 0x808b, 0x80000001, 0x8000000080008081,
     0x8000000000008009, 0x8a, 0x88, 0x80008009, 0x8000000a, 0x8000808b, 0x800000000000008b,
     0x8000000000008089, 0x8000000000008003, 0x8000000000008002, 0x8000000000000080, 0x800a,
     0x800000008000000a, 0x8000000080008081, 0x8000000000008080, 0x80000001, 0x8000000080008008]"

definition rol :: "i64 \<Rightarrow> nat \<Rightarrow> i64" where
  "rol x s = push_bit s x OR drop_bit (64 - s) x"


section \<open>The permutation\<close>

text \<open>The loops over \<open>x\<close> and \<open>y\<close> of the macros, in the order in which they run.\<close>

definition theta_b :: "i64 list \<Rightarrow> i64 list" where
  "theta_b a = map (\<lambda>x. foldl (\<lambda>b y. b XOR a ! (x + y)) 0 [0, 5, 10, 15, 20]) [0..<5]"

definition theta :: "i64 list \<Rightarrow> i64 list" where
  "theta a =
     (let b = theta_b a in
      foldl (\<lambda>a (x, y). a[y + x := a ! (y + x) XOR (b ! ((x + 4) mod 5) XOR rol (b ! ((x + 1) mod 5)) 1)])
        a (List.product [0..<5] [0, 5, 10, 15, 20]))"

definition rho_pi :: "i64 list \<Rightarrow> i64 list" where
  "rho_pi a =
     snd (foldl (\<lambda>(t, a) x. (a ! (pi_idx ! x), a[pi_idx ! x := rol t (rho ! x)])) (a ! 1, a) [0..<24])"

definition chi :: "i64 list \<Rightarrow> i64 list" where
  "chi a =
     foldl (\<lambda>a y.
       let b = map (\<lambda>x. a ! (y + x)) [0..<5] in
       foldl (\<lambda>a x. a[y + x := b ! x XOR (NOT (b ! ((x + 1) mod 5)) AND b ! ((x + 2) mod 5))]) a [0..<5])
       a [0, 5, 10, 15, 20]"

definition iota :: "nat \<Rightarrow> i64 list \<Rightarrow> i64 list" where
  "iota i a = a[0 := a ! 0 XOR RC ! i]"

definition keccakf :: "i64 list \<Rightarrow> i64 list" where
  "keccakf a = foldl (\<lambda>a i. iota i (chi (rho_pi (theta a)))) a [0..<24]"


section \<open>The sponge\<close>

definition le_bytes64 :: "i64 \<Rightarrow> byte list" where
  "le_bytes64 w = rev (be_bytes 8 w)"

definition lanes_of :: "byte list \<Rightarrow> i64 list" where
  "lanes_of bs = map (\<lambda>i. be_word (rev (take 8 (drop (8 * i) bs)))) [0..<25]"

definition bytes_of :: "i64 list \<Rightarrow> byte list" where
  "bytes_of a = concat (map le_bytes64 a)"

definition P :: "byte list \<Rightarrow> byte list" where
  "P a = bytes_of (keccakf (lanes_of a))"

definition Plen :: nat where
  "Plen = 200"

definition xorin :: "byte list \<Rightarrow> byte list \<Rightarrow> nat \<Rightarrow> byte list" where
  "xorin dst src n = foldl (\<lambda>dst i. dst[i := dst ! i XOR src ! i]) dst [0..<n]"

definition setout :: "byte list \<Rightarrow> nat \<Rightarrow> byte list" where
  "setout src n = map (\<lambda>i. src ! i) [0..<n]"

function foldP_in :: "nat \<Rightarrow> byte list \<Rightarrow> byte list \<Rightarrow> byte list \<times> byte list" where
  "foldP_in rate a inp =
     (if rate > 0 \<and> length inp \<ge> rate
      then foldP_in rate (P (xorin a inp rate)) (drop rate inp)
      else (a, inp))"
  by pat_completeness auto

termination
  by (relation "measure (\<lambda>(rate, a, inp). length inp)") auto

function foldP_out :: "nat \<Rightarrow> byte list \<Rightarrow> byte list \<Rightarrow> nat \<Rightarrow> byte list \<times> byte list \<times> nat" where
  "foldP_out rate a out outlen =
     (if rate > 0 \<and> outlen \<ge> rate
      then foldP_out rate (P a) (out @ setout a rate) (outlen - rate)
      else (a, out, outlen))"
  by pat_completeness auto

termination
  by (relation "measure (\<lambda>(rate, a, out, outlen). outlen)") auto

declare foldP_in.simps [simp del] foldP_out.simps [simp del]

text \<open>The pointer checks of the source are about the caller's buffers; \<open>rate\<close> must be below 200.\<close>

definition hash :: "nat \<Rightarrow> byte list \<Rightarrow> nat \<Rightarrow> byte \<Rightarrow> byte list option" where
  "hash outlen inp rate delim =
     (if rate \<ge> Plen then None
      else let a = replicate Plen 0;
               (a, inp) = foldP_in rate a inp;
               a = a[length inp := a ! length inp XOR delim];
               a = a[rate - 1 := a ! (rate - 1) XOR 0x80];
               a = xorin a inp (length inp);
               a = P a;
               (a, out, outlen) = foldP_out rate a [] outlen
           in Some (out @ setout a outlen))"

definition keccak_256 :: "nat \<Rightarrow> byte list \<Rightarrow> byte list option" where
  "keccak_256 outlen inp =
     (if outlen > 256 div 8 then None else hash outlen inp (200 - 256 div 4) 0x01)"

definition keccak :: "byte list \<Rightarrow> byte list" where
  "keccak inp = (case keccak_256 32 inp of Some h \<Rightarrow> h | None \<Rightarrow> [])"


section \<open>The standard\<close>

text \<open>
  The permutation and the sponge as the Keccak standard states them: the step mappings by coordinates,
  lane \<open>(x, y)\<close> being lane \<open>5 y + x\<close>, the rotation offsets along the walk of the standard, the round constants
  from the shift register, and the padded message absorbed block by block.
\<close>

definition theta_spec :: "i64 list \<Rightarrow> i64 list" where
  "theta_spec a =
     (let c = \<lambda>x. a ! x XOR a ! (x + 5) XOR a ! (x + 10) XOR a ! (x + 15) XOR a ! (x + 20)
      in map (\<lambda>i. a ! i XOR (c ((i mod 5 + 4) mod 5) XOR rol (c ((i mod 5 + 1) mod 5)) 1)) [0..<25])"

fun rho_walk :: "nat \<Rightarrow> nat \<times> nat" where
  "rho_walk 0 = (1, 0)"
| "rho_walk (Suc t) = (case rho_walk t of (x, y) \<Rightarrow> (y, (2 * x + 3 * y) mod 5))"

definition rho_offset :: "nat \<Rightarrow> nat" where
  "rho_offset i =
     (case find (\<lambda>t. rho_walk t = (i mod 5, i div 5)) [0..<24] of
        Some t \<Rightarrow> ((t + 1) * (t + 2) div 2) mod 64
      | None \<Rightarrow> 0)"

definition rho_pi_spec :: "i64 list \<Rightarrow> i64 list" where
  "rho_pi_spec a =
     map (\<lambda>i. let x = i mod 5; y = i div 5; j = 5 * x + (x + 3 * y) mod 5 in rol (a ! j) (rho_offset j)) [0..<25]"

definition chi_spec :: "i64 list \<Rightarrow> i64 list" where
  "chi_spec a =
     map (\<lambda>i. let x = i mod 5; y = 5 * (i div 5)
        in a ! i XOR (NOT (a ! (y + (x + 1) mod 5)) AND a ! (y + (x + 2) mod 5))) [0..<25]"

text \<open>
  The round constants of the standard do not refer to the table of the code: the shift register of eight bits for the
  polynomial \<open>x^8 + x^6 + x^5 + x^4 + 1\<close> runs from the state 1, and bit \<open>2^j - 1\<close> of the constant of round \<open>i\<close> is
  the output of the register after \<open>j + 7 i\<close> steps; all other bits are zero.
\<close>

primrec lfsr :: "nat \<Rightarrow> bool list" where
  "lfsr 0 = [True, False, False, False, False, False, False, False]"
| "lfsr (Suc t) =
     (let r = lfsr t; c = r ! 7
      in [c, r ! 0, r ! 1, r ! 2, r ! 3 \<noteq> c, r ! 4 \<noteq> c, r ! 5 \<noteq> c, r ! 6])"

definition round_constant :: "nat \<Rightarrow> i64" where
  "round_constant i = foldl (\<lambda>w j. if lfsr (j + 7 * i) ! 0 then set_bit (2 ^ j - 1) w else w) 0 [0..<7]"

definition round_spec :: "i64 list \<Rightarrow> nat \<Rightarrow> i64 list" where
  "round_spec a i =
     (let a = chi_spec (rho_pi_spec (theta_spec a)) in a[0 := a ! 0 XOR round_constant i])"

definition P_spec :: "byte list \<Rightarrow> byte list" where
  "P_spec a = bytes_of (foldl round_spec (lanes_of a) [0..<24])"

lemma round_constants: "RC = map round_constant [0..<24]"
  by code_simp

lemma list25E:
  assumes "length a = (25 :: nat)"
  obtains a0 a1 a2 a3 a4 a5 a6 a7 a8 a9 a10 a11 a12 a13 a14 a15 a16 a17 a18 a19 a20 a21 a22 a23 a24 where "a = [a0, a1, a2, a3, a4, a5, a6, a7, a8, a9, a10, a11, a12, a13, a14, a15, a16, a17, a18, a19, a20, a21, a22, a23, a24]"
  using assms by (auto simp: numeral_eq_Suc length_Suc_conv)

lemma rho_offsets:
  "map rho_offset [0..<25] =
     [0, 1, 62, 28, 27, 36, 44, 6, 55, 20, 3, 10, 43, 25, 39, 41, 45, 15, 21, 8, 18, 2, 61, 56, 14]"
  by code_simp

lemma rho_offset_nth:
  assumes "i < 25"
  shows "rho_offset i = [0, 1, 62, 28, 27, 36, 44, 6, 55, 20, 3, 10, 43, 25, 39, 41, 45, 15, 21, 8, 18, 2, 61, 56, 14] ! i"
  unfolding rho_offsets [symmetric] using assms by simp

lemma theta_eq: "length a = 25 \<Longrightarrow> theta a = theta_spec a"
  by (erule list25E) (simp add: theta_def theta_spec_def theta_b_def upt_rec Let_def xor.assoc)

lemma rho_pi_eq: "length a = 25 \<Longrightarrow> rho_pi a = rho_pi_spec a"
proof (erule list25E)
  fix a0 a1 a2 a3 a4 a5 a6 a7 a8 a9 a10 a11 a12 a13 a14 a15 a16 a17 a18 a19 a20 a21 a22 a23 a24 :: i64
  have "rol x 0 = x" for x by (simp add: rol_def)
  then show "rho_pi a = rho_pi_spec a" if "a = [a0, a1, a2, a3, a4, a5, a6, a7, a8, a9, a10, a11, a12, a13, a14, a15, a16, a17, a18, a19, a20, a21, a22, a23, a24]"
    unfolding that rho_pi_spec_def by (simp add: rho_pi_def rho_def pi_idx_def upt_rec Let_def rho_offset_nth)
qed

lemma chi_eq: "length a = 25 \<Longrightarrow> chi a = chi_spec a"
  by (erule list25E) (simp add: chi_def chi_spec_def upt_rec Let_def)

lemma length_spec [simp]:
  "length (theta_spec a) = 25" "length (rho_pi_spec a) = 25" "length (chi_spec a) = 25" "length (round_spec a i) = 25"
  by (simp_all add: theta_spec_def rho_pi_spec_def chi_spec_def round_spec_def Let_def)

lemma round_eq: "length a = 25 \<Longrightarrow> i < 24 \<Longrightarrow> iota i (chi (rho_pi (theta a))) = round_spec a i"
  by (simp add: theta_eq rho_pi_eq chi_eq round_spec_def iota_def Let_def round_constants)

lemma keccakf_eq:
  assumes "length a = 25"
  shows "keccakf a = foldl round_spec a [0..<24]" "length (keccakf a) = 25"
proof -
  have "foldl (\<lambda>a i. iota i (chi (rho_pi (theta a)))) a is = foldl round_spec a is \<and> length (foldl round_spec a is) = 25"
    if "set is \<subseteq> {..<24}" for "is"
    using assms that by (induction "is" arbitrary: a) (simp_all add: round_eq)
  from this [of "[0..<24]"] show "keccakf a = foldl round_spec a [0..<24]" "length (keccakf a) = 25"
    by (simp_all add: keccakf_def subset_eq)
qed

lemma P_eq: "P a = P_spec a"
  by (simp add: P_def P_spec_def keccakf_eq(1) lanes_of_def)

text \<open>The padded message and its absorption.\<close>

definition pad :: "nat \<Rightarrow> byte \<Rightarrow> byte list \<Rightarrow> byte list" where
  "pad rate delim inp =
     (let z = rate - 1 - length inp mod rate
      in if z = 0 then inp @ [delim XOR 0x80] else inp @ delim # replicate (z - 1) 0 @ [0x80])"

definition xor_block :: "byte list \<Rightarrow> byte list \<Rightarrow> byte list" where
  "xor_block a b = map2 (XOR) (take (length b) a) b @ drop (length b) a"

fun absorb :: "nat \<Rightarrow> byte list \<Rightarrow> byte list \<Rightarrow> byte list" where
  "absorb rate a bs =
     (if rate > 0 \<and> rate \<le> length bs then absorb rate (P_spec (xor_block a (take rate bs))) (drop rate bs) else a)"

declare absorb.simps [simp del]

lemma xorin_eq: "n \<le> length a \<Longrightarrow> n \<le> length b \<Longrightarrow> xorin a b n = xor_block a (take n b)"
proof -
  have len: "length (xorin a b n) = length a" for n by (induction n) (simp_all add: xorin_def)
  have nth: "n \<le> length a \<Longrightarrow> k < length a \<Longrightarrow> xorin a b n ! k = (if k < n then a ! k XOR b ! k else a ! k)" for n k
  proof (induction n)
    case (Suc n)
    moreover have "xorin a b (Suc n) = (xorin a b n)[n := xorin a b n ! n XOR b ! n]" by (simp add: xorin_def)
    ultimately show ?case by (auto simp: len nth_list_update less_Suc_eq)
  qed (simp add: xorin_def)
  assume "n \<le> length a" "n \<le> length b"
  then show ?thesis
    by (intro nth_equalityI) (auto simp: len nth xor_block_def nth_append)
qed

lemma length_P [simp]: "length (P a) = 200"
proof -
  have "length (bytes_of x) = 8 * length x" for x
    by (induction x) (simp_all add: bytes_of_def le_bytes64_def)
  then show ?thesis by (simp add: P_def keccakf_eq(2) lanes_of_def)
qed

lemma length_P_spec [simp]: "length (P_spec a) = 200"
  by (simp flip: P_eq)

lemma length_xor_block [simp]: "length b \<le> length a \<Longrightarrow> length (xor_block a b) = length a"
  by (simp add: xor_block_def)

lemma foldP_in_eq:
  assumes "rate > 0" "rate \<le> 200" "length a = 200"
  shows "\<exists>a' r. foldP_in rate a inp = (a', r) \<and> length a' = 200 \<and> length r < rate \<and> length r = length inp mod rate \<and>
    (\<forall>tl. absorb rate a (inp @ tl) = absorb rate a' (r @ tl))"
  using assms
proof (induction rate a inp rule: foldP_in.induct)
  case (1 rate a inp)
  show ?case
  proof (cases "rate \<le> length inp")
    case True
    let ?a = "P (xorin a inp rate)"
    have fold: "foldP_in rate a inp = foldP_in rate ?a (drop rate inp)"
      using True 1 by (simp add: foldP_in.simps [of rate a inp])
    have "absorb rate a (inp @ tl) = absorb rate ?a (drop rate inp @ tl)" for tl
      using True 1 by (simp add: absorb.simps [of rate a "inp @ tl"] xorin_eq P_eq)
    moreover have "length (drop rate inp) mod rate = length inp mod rate"
      using True by (simp add: le_mod_geq)
    ultimately show ?thesis using "1.IH" True "1.prems" by (simp add: fold)
  next
    case False
    then show ?thesis using 1 by (simp add: foldP_in.simps [of rate a inp])
  qed
qed

lemma last_block:
  assumes "length r < rate" "rate < 200" "length a = 200"
  shows "xorin ((a[length r := a ! length r XOR d])[rate - 1 := (a[length r := a ! length r XOR d]) ! (rate - 1) XOR 0x80])
      r (length r) =
    xor_block a (pad rate d r)"
proof -
  have m: "length r mod rate = length r" using assms by simp
  have len: "length (pad rate d r) = rate"
    using assms by (auto simp: pad_def Let_def m)
  show ?thesis
    apply (subst xorin_eq)
    subgoal using assms by simp
    subgoal by simp
    apply (rule nth_equalityI)
    subgoal using assms len by simp
    subgoal for k
      using assms len
      by (auto simp: xor_block_def nth_append nth_list_update pad_def Let_def m nth_Cons' not_less xor.assoc)
    done
qed

lemma length_padding: "length r < rate \<Longrightarrow> length (pad rate d r) = rate"
  by (auto simp: pad_def Let_def)

lemma hash_eq:
  assumes "0 < rate" "rate < 200" "outlen < rate"
  shows "hash outlen inp rate d = Some (setout (absorb rate (replicate 200 0) (pad rate d inp)) outlen)"
proof -
  obtain a r where fold: "foldP_in rate (replicate 200 0) inp = (a, r)" "length a = 200" "length r < rate"
    "length r = length inp mod rate" "\<And>tl. absorb rate (replicate 200 0) (inp @ tl) = absorb rate a (r @ tl)"
    using foldP_in_eq [of rate "replicate 200 0" inp] assms by auto
  have "pad rate d inp = inp @ drop (length r) (pad rate d r)" "pad rate d r = r @ drop (length r) (pad rate d r)"
    using fold(3) by (simp_all add: pad_def Let_def fold(4) [symmetric])
  then have "absorb rate (replicate 200 0) (pad rate d inp) = absorb rate a (pad rate d r)"
    using fold(5) by metis
  also have "\<dots> = P_spec (xor_block a (pad rate d r))"
    using assms length_padding [OF fold(3), of d]
    by (simp add: absorb.simps [of rate a] absorb.simps [of rate "P_spec _"])
  finally show ?thesis
    using last_block [OF fold(3) assms(2) fold(2), of d] assms(2,3)
    by (simp add: hash_def fold(1) Let_def foldP_out.simps [of rate] Plen_def P_eq)
qed


lemma length_keccak [simp]: "length (keccak inp) = 32"
  by (simp add: keccak_def keccak_256_def hash_eq setout_def)

end
