(* ===== verification/JitExt.thy ===== *)
theory JitExt
  imports JitMemory Keccak
begin

text \<open>
  What a running contract asks of its surroundings: \<^verbatim>\<open>src/fastvm/libevmjit/RuntimeManager.cpp\<close>,
  \<^verbatim>\<open>src/fastvm/libevmjit/Ext.cpp\<close> and the function \<open>call_v2\<close> of \<^verbatim>\<open>src/fastvm/libevmjit/JIT.cpp\<close>.

  Data crosses the interface of the host as byte arrays. The generated code holds a word in the byte
  order of the machine, converts it with \<open>toBE\<close>, stores it to a temporary and passes the address; the
  conversions are kept here, and the theorems show that the host sees and provides big-endian numbers
  on every machine.
\<close>

section \<open>RuntimeManager\<close>

definition getAddress :: "'h jit_env \<Rightarrow> i256" where
  "getAddress e = mem_word (host_le e) (rd_address (rtdata e))"

definition getCaller :: "'h jit_env \<Rightarrow> i256" where
  "getCaller e = mem_word (host_le e) (rd_caller (rtdata e))"

definition getValue :: "'h jit_env \<Rightarrow> i128" where
  "getValue e = mem_word (host_le e) (apparentValue (rtdata e))"

definition getDepth :: "'h jit_env \<Rightarrow> i64" where
  "getDepth e = rd_depth (rtdata e)"

definition getCallData :: "'h jit_env \<Rightarrow> byte list" where
  "getCallData e = callData (rtdata e)"

definition getCallDataSize :: "'h jit_env \<Rightarrow> i128" where
  "getCallDataSize e = ucast (of_nat (length (callData (rtdata e))) :: i64)"

definition getCode :: "'h jit_env \<Rightarrow> byte list" where
  "getCode e = rd_code (rtdata e)"

definition getCodeSize :: "'h jit_env \<Rightarrow> i128" where
  "getCodeSize e = of_nat (length (rd_code (rtdata e)))"

definition resetReturnBuf :: "'h rt \<Rightarrow> 'h rt" where
  "resetReturnBuf s = s\<lparr>retbuf := []\<rparr>"

definition registerReturnData :: "i128 \<Rightarrow> i128 \<Rightarrow> 'h rt \<Rightarrow> 'h rt" where
  "registerReturnData off sz s = s\<lparr>ret_range := Some (off, ucast sz)\<rparr>"

text \<open>The transaction context is fetched once, by the first instruction that reads it.\<close>

definition loadTxCtx :: "'h jit_env \<Rightarrow> 'h rt \<Rightarrow> 'h rt" where
  "loadTxCtx e s =
     (case txctx s of
        Some _ \<Rightarrow> s
      | None \<Rightarrow> s\<lparr>txctx := Some (get_tx_context (fns e) (host s))\<rparr>)"

definition tx_item :: "(evm_tx_context \<Rightarrow> 'v::zero) \<Rightarrow> 'h rt \<Rightarrow> 'v" where
  "tx_item f s = (case txctx s of Some c \<Rightarrow> f c | None \<Rightarrow> 0)"


section \<open>Ext\<close>

text \<open>A word as the host receives it through a pointer, and as it is loaded from one.\<close>

definition to_ptr :: "'h jit_env \<Rightarrow> 'a::len word \<Rightarrow> byte list" where
  "to_ptr e w = mem_bytes (host_le e) w"

definition from_ptr :: "'h jit_env \<Rightarrow> byte list \<Rightarrow> 'a::len word" where
  "from_ptr e bs = mem_word (host_le e) bs"

definition myAddr :: "'h jit_env \<Rightarrow> i256" where
  "myAddr e = toBE (host_le e) (ucast (toNative (host_le e) (getAddress e)) :: i256)"

definition sload :: "'h jit_env \<Rightarrow> i128 \<Rightarrow> 'h rt \<Rightarrow> i128" where
  "sload e index s =
     (let index = toBE (host_le e) index;
          pValue = get_storage (fns e) (host s) (to_ptr e (myAddr e)) (to_ptr e index)
      in toNative (host_le e) (from_ptr e pValue))"

definition sstore :: "'h jit_env \<Rightarrow> i128 \<Rightarrow> i128 \<Rightarrow> 'h rt \<Rightarrow> 'h rt" where
  "sstore e index v s =
     (let index = toBE (host_le e) index;
          v = toBE (host_le e) v
      in s\<lparr>host := set_storage (fns e) (host s) (to_ptr e (myAddr e)) (to_ptr e index) (to_ptr e v)\<rparr>)"

definition ext_selfdestruct :: "'h jit_env \<Rightarrow> i256 \<Rightarrow> 'h rt \<Rightarrow> 'h rt" where
  "ext_selfdestruct e beneficiary s =
     (let b = toBE (host_le e) (ucast beneficiary :: i256)
      in s\<lparr>host := selfdestruct (fns e) (host s) (to_ptr e (myAddr e)) (to_ptr e b)\<rparr>)"

definition calldataload :: "'h jit_env \<Rightarrow> i128 \<Rightarrow> i128" where
  "calldataload e idx0 =
     (let callDataSize = getCallDataSize e;
          callDataSize64 = (ucast callDataSize :: i64);
          idxValid = idx0 < callDataSize;
          idx = (ucast (if idxValid then idx0 else callDataSize) :: i64);
          end1 = idx + 16;
          end2 = if end1 \<le> callDataSize64 then end1 else callDataSize64;
          copySize = end2 - idx;
          padSize = 16 - copySize;
          copied = read_mem (junk_byte e) (getCallData e) (unat idx) (unat copySize);
          pResult = copied @ replicate (unat padSize) 0
      in toNative (host_le e) (from_ptr e pResult))"

definition balance :: "'h jit_env \<Rightarrow> i256 \<Rightarrow> 'h rt \<Rightarrow> i128" where
  "balance e addr s =
     (let addr = toBE (host_le e) (ucast addr :: i256);
          pResult = get_balance (fns e) (host s) (to_ptr e addr)
      in toNative (host_le e) (from_ptr e pResult))"

definition exists :: "'h jit_env \<Rightarrow> i256 \<Rightarrow> 'h rt \<Rightarrow> bool" where
  "exists e addr s =
     (let addr = toBE (host_le e) (ucast addr :: i256);
          r = account_exists (fns e) (host s) (to_ptr e addr)
      in bit r 0)"

definition blockHash :: "'h jit_env \<Rightarrow> i128 \<Rightarrow> 'h rt \<Rightarrow> i256" where
  "blockHash e num s =
     (let pResult = get_block_hash (fns e) (host s) (ucast num :: i64)
      in toNative (host_le e) (from_ptr e pResult))"

definition sha3 :: "'h jit_env \<Rightarrow> i128 \<Rightarrow> i128 \<Rightarrow> 'h rt \<Rightarrow> i256" where
  "sha3 e inOff inSize s =
     toNative (host_le e) (from_ptr e (keccak (getBytes e inOff (ucast inSize) s)))"

definition extcode :: "'h jit_env \<Rightarrow> i256 \<Rightarrow> 'h rt \<Rightarrow> byte list \<times> i128" where
  "extcode e addr s =
     (let addr = toBE (host_le e) (ucast addr :: i256);
          code = get_code (fns e) (host s) (to_ptr e addr);
          sz = (of_nat (length code) :: i64);
          size128 = ucast sz
      in (code, size128))"

definition extcodesize :: "'h jit_env \<Rightarrow> i256 \<Rightarrow> 'h rt \<Rightarrow> i128" where
  "extcodesize e addr s =
     (let addr = toBE (host_le e) (ucast addr :: i256);
          sz = (of_nat (length (get_code (fns e) (host s) (to_ptr e addr))) :: i64)
      in ucast sz)"

definition ext_log :: "'h jit_env \<Rightarrow> i128 \<Rightarrow> i128 \<Rightarrow> i128 list \<Rightarrow> 'h rt \<Rightarrow> 'h rt" where
  "ext_log e memIdx dataLen topics s =
     (let dataBytes = getBytes e memIdx (ucast dataLen) s;
          m_topics = map (\<lambda>t. to_ptr e (toBE (host_le e) t)) topics
      in s\<lparr>host := host_log (fns e) (host s) (to_ptr e (myAddr e)) dataBytes m_topics\<rparr>)"


section \<open>Calls\<close>

definition EVM_CALL_FAILURE :: i64 where
  "EVM_CALL_FAILURE = 0x8000000000000000"

definition call_msg ::
  "'h jit_env \<Rightarrow> evm_call_kind \<Rightarrow> i64 \<Rightarrow> byte list \<Rightarrow> byte list \<Rightarrow> byte list \<Rightarrow> evm_message" where
  "call_msg e knd g addr val inputData =
     (let cur = currentMsg e in
      \<lparr>address = addr,
       caller = if knd \<noteq> EVM_DELEGATECALL then address cur else caller cur,
       msg_value = if knd \<noteq> EVM_DELEGATECALL then val else msg_value cur,
       msg_input = inputData,
       code_hash = undef_addr e,
       msg_gas = g,
       depth = depth cur + 1,
       kind = if knd = EVM_STATICCALL then kind_num EVM_CALL else kind_num knd,
       flags = if knd = EVM_STATICCALL then flags cur OR EVM_STATIC else flags cur\<rparr>)"

text \<open>
  \<open>call_v2\<close> returns the gas with the failure flag, the bytes it copies to the caller's output buffer,
  the new return data buffer and the host.
\<close>

definition call_v2 ::
  "'h jit_env \<Rightarrow> evm_call_kind \<Rightarrow> i64 \<Rightarrow> byte list \<Rightarrow> byte list \<Rightarrow> byte list \<Rightarrow> i64 \<Rightarrow> 'h \<Rightarrow>
   i64 \<times> byte list \<times> byte list \<times> 'h" where
  "call_v2 e knd g addr val inputData outputSize h =
     (let (result, h) = host_call (fns e) h (call_msg e knd g addr val inputData);
          r = gas_left result;
          sz = min (unat outputSize) (length (output_data result));
          out = take sz (output_data result);
          out = if knd = EVM_CREATE \<and> status_code result = status_num EVM_SUCCESS
                then read_mem (junk_byte e) (output_data result) 0 32 else out;
          r = if status_code result \<noteq> status_num EVM_SUCCESS then r OR EVM_CALL_FAILURE else r
      in (r, out, output_data result, h))"

text \<open>The generated wrapper: the depth and balance checks before the call leaves the contract.\<close>

definition call_wrapper ::
  "'h jit_env \<Rightarrow> evm_call_kind \<Rightarrow> i64 \<Rightarrow> byte list \<Rightarrow> byte list \<Rightarrow> byte list \<Rightarrow> i64 \<Rightarrow> i256 \<Rightarrow> i64 \<Rightarrow> 'h rt \<Rightarrow>
   i64 \<times> byte list \<times> 'h rt" where
  "call_wrapper e knd g addr valuePtr inputData outputSize my dep s =
     (let depthOk = dep <s 1024;
          notDelegateCall = knd \<noteq> EVM_DELEGATECALL;
          val = (from_ptr e valuePtr :: i128);
          valueNonZero = val \<noteq> 0;
          transfer = notDelegateCall \<and> valueNonZero;
          bal = (from_ptr e (get_balance (fns e) (host s) (to_ptr e my)) :: i128);
          balanceOk = toNative (host_le e) val \<le> toNative (host_le e) bal
      in if depthOk \<and> (\<not> transfer \<or> balanceOk)
         then let (r, out, buf, h) = call_v2 e knd g addr valuePtr inputData outputSize (host s)
              in (r, out, s\<lparr>retbuf := buf, host := h\<rparr>)
         else (g OR EVM_CALL_FAILURE, [], s))"

definition ext_call ::
  "'h jit_env \<Rightarrow> evm_call_kind \<Rightarrow> i64 \<Rightarrow> i256 \<Rightarrow> i128 \<Rightarrow> i128 \<Rightarrow> i128 \<Rightarrow> i128 \<Rightarrow> i128 \<Rightarrow> 'h rt \<Rightarrow> 'h rt" where
  "ext_call e knd g addr val inOff inSize outOff outSize s =
     (let addr = toBE (host_le e) (ucast addr :: i256);
          inData = getBytes e inOff (ucast inSize) s;
          pValue = to_ptr e (toBE (host_le e) val);
          s = resetReturnBuf s;
          (r, out, s) = call_wrapper e knd g (to_ptr e addr) pValue inData (ucast outSize) (myAddr e)
                          (getDepth e) s
      in poke (unat outOff) out s\<lparr>call_ret := r\<rparr>)"

definition ext_create :: "'h jit_env \<Rightarrow> i64 \<Rightarrow> i128 \<Rightarrow> i128 \<Rightarrow> i128 \<Rightarrow> 'h rt \<Rightarrow> 'h rt" where
  "ext_create e g endowment initOff initSize s =
     (let pValue = to_ptr e (toBE (host_le e) endowment);
          inData = getBytes e initOff (ucast initSize) s;
          s = resetReturnBuf s;
          (r, out, s) = call_wrapper e EVM_CREATE g (undef_addr e) pValue inData 32 (myAddr e)
                          (getDepth e) s
      in s\<lparr>call_ret := r, pAddr := write_mem 0 out (undef_addr e)\<rparr>)"


section \<open>What the host sees\<close>

lemma be_bytes_zero: "be_bytes n (0 :: 'a::len word) = replicate n 0"
  by (induction n) (simp_all add: replicate_append_same)

lemma be_word_zeros: "be_word (replicate n 0) = (0 :: 'a::len word)"
  using be_word_be_bytes [of n "0 :: 'a word"] by (simp add: be_bytes_zero)

lemma toNative_0: "toNative le (0 :: 'a::len word) = 0"
  by (simp add: toNative_def bswapIfLE_def bswap_def be_bytes_zero be_word_zeros)

lemma to_ptr_toBE [codec_simps]:
  fixes w :: "'a::len word"
  assumes "8 dvd LENGTH('a)"
  shows "to_ptr e (toBE (host_le e) w) = be_bytes (LENGTH('a) div 8) w"
  using assms by (simp add: to_ptr_def mem_bytes_toBE)

lemma from_ptr_toNative [codec_simps]:
  fixes bs :: "byte list"
  assumes "8 dvd LENGTH('a)" "length bs = LENGTH('a) div 8"
  shows "toNative (host_le e) (from_ptr e bs :: 'a::len word) = be_word bs"
  using assms by (simp add: from_ptr_def toNative_mem_word)

lemma from_ptr_to_ptr:
  fixes w :: "'a::len word"
  assumes "8 dvd LENGTH('a)"
  shows "from_ptr e (to_ptr e w) = w"
  using assms by (simp add: from_ptr_def to_ptr_def mem_word_mem_bytes)

lemma sample_env_simps:
  "get_storage (fns (sample_env r)) h a k = replicate 16 0"
  "get_balance (fns (sample_env r)) h a = replicate 16 0"
  "rd_address (rtdata (sample_env r)) = replicate 32 1"
  "getCallData (sample_env r) = [1, 2, 3]"
  by (simp_all add: sample_env_def sample_fns_def getCallData_def)

lemma to_ptr_myAddr:
  assumes "length (rd_address (rtdata e)) = 32"
  shows "to_ptr e (myAddr e) = rd_address (rtdata e)"
proof -
  have "to_ptr e (myAddr e) = be_bytes 32 (be_word (rd_address (rtdata e)) :: i256)"
    using assms by (simp add: myAddr_def getAddress_def codec_simps)
  then show ?thesis
    using be_bytes_be_word [of "rd_address (rtdata e)", where ?'a = 256] assms by simp
qed

text \<open>
  C31: byte order at the interface of the host. On a machine of either byte order, SLOAD and SSTORE
  pass the contract's own address and the key as big-endian bytes, the stored value arrives in big
  endian, and the value read is the big-endian number the host returned; the same holds for the
  address and the result of BALANCE.
\<close>

theorem host_sees_big_endian:
  assumes "length (rd_address (rtdata e)) = 32"
    and "\<And>h a k. length (get_storage (fns e) h a k) = 16"
    and "\<And>h a. length (get_balance (fns e) h a) = 16"
  shows "sload e i s =
      be_word (get_storage (fns e) (host s) (rd_address (rtdata e)) (be_bytes 16 i)) \<and>
    host (sstore e i v s) =
      set_storage (fns e) (host s) (rd_address (rtdata e)) (be_bytes 16 i) (be_bytes 16 v) \<and>
    balance e a s = be_word (get_balance (fns e) (host s) (be_bytes 32 a))"
  using assms by (simp add: sload_def sstore_def balance_def Let_def to_ptr_myAddr codec_simps)

theorem host_sees_big_endian_witness:
  "sload (sample_env EVM_AION) 5 (sample_rt 0) = 0 \<and>
   balance (sample_env EVM_AION) 7 (sample_rt 0) = 0"
  using host_sees_big_endian [of "sample_env EVM_AION" 5 "sample_rt 0" 0 7]
  by (simp add: sample_env_simps be_word_zeros)

lemma read_mem_min:
  assumes "i \<le> length src"
  shows "read_mem j src i (min n (length src - i)) = take n (drop i src)"
  using assms by (subst read_mem_slice) (auto simp: min_def)

lemma unat_ucast_up: "unat (ucast (w :: i64) :: i128) = unat w"
proof -
  have "unat w < 2 ^ 64" using unsigned_less [of w] by simp
  then show ?thesis by (simp add: unsigned_ucast_eq take_bit_nat_eq_self)
qed

lemma calldataload_bytes:
  assumes len: "length (getCallData e) < 2 ^ 63"
  shows "calldataload e idx =
    toNative (host_le e) (from_ptr e (padded (getCallData e) (unat idx) 16))"
proof -
  let ?n = "length (getCallData e)"
  define i :: i64 where "i = ucast (if idx < getCallDataSize e then idx else getCallDataSize e)"
  define c :: i64 where "c = (if i + 16 \<le> ucast (getCallDataSize e) then i + 16
    else ucast (getCallDataSize e)) - i"
  have sz: "unat (getCallDataSize e) = ?n"
    using len by (simp add: getCallDataSize_def getCallData_def unat_ucast_up unat_of_nat)
  then have sz64: "unat (ucast (getCallDataSize e) :: i64) = ?n"
    using len by (simp add: unat_ucast_small)
  have i: "unat i = min (unat idx) ?n"
    using len sz sz64 by (auto simp: i_def word_less_nat_alt unat_ucast_small)
  have i16: "unat (i + 16) = unat i + 16"
    using len i by (simp add: unat_word_ariths)
  have c: "unat c = min 16 (?n - unat i)"
    using sz64 i i16 by (auto simp: c_def word_le_nat_alt unat_sub)
  have z: "unat (16 - c) = 16 - unat c"
    using c by (simp add: unat_sub word_le_nat_alt)
  have "calldataload e idx = toNative (host_le e) (from_ptr e
      (read_mem (junk_byte e) (getCallData e) (unat i) (unat c) @ replicate (unat (16 - c)) 0))"
    by (simp add: calldataload_def Let_def i_def c_def)
  moreover have "read_mem (junk_byte e) (getCallData e) (unat i) (unat c) =
      take 16 (drop (unat i) (getCallData e))"
    using i by (simp add: c read_mem_min)
  moreover have "take 16 (drop (unat i) (getCallData e)) @ replicate (16 - unat c) 0 =
      padded (getCallData e) (unat idx) 16"
    using i c by (auto simp: padded_def min_def)
  ultimately show ?thesis by (simp add: z)
qed

text \<open>
  CALLDATALOAD reads the 16 bytes at the given index as a big-endian number, with zeros for the
  bytes beyond the end of the data, for every 128-bit index.
\<close>

theorem calldataload_correct:
  assumes "length (getCallData e) < 2 ^ 63"
  shows "calldataload e idx = be_word (padded (getCallData e) (unat idx) 16)"
  using calldataload_bytes [OF assms] by (simp add: codec_simps)

theorem calldataload_correct_witness:
  "calldataload (sample_env EVM_AION) 1 = be_word ([2, 3] @ replicate 14 0)"
proof -
  have "padded (getCallData (sample_env EVM_AION)) 1 16 = [2, 3] @ replicate 14 0"
    by (simp add: padded_def sample_env_simps)
  with calldataload_correct [of "sample_env EVM_AION" 1] show ?thesis
    by (simp add: sample_env_simps)
qed

text \<open>
  C30: a call that may not leave the contract. At call depth 1024 or more, or when a call other than
  DELEGATECALL transfers more than the contract owns, the wrapper does not reach the host: the host and
  the memory are unchanged, the return data is empty, and the result is the gas of the call with the
  failure flag set.
\<close>

theorem refused_call:
  assumes len: "\<And>h a. length (get_balance (fns e) h a) = 16"
    and refused: "1024 \<le> sint (getDepth e) \<or>
      knd \<noteq> EVM_DELEGATECALL \<and> balance e (be_word (rd_address (rtdata e))) s < v"
    and addr: "length (rd_address (rtdata e)) = 32"
  shows "ext_call e knd g a v inOff inSize outOff outSize s =
    s\<lparr>retbuf := [], call_ret := g OR EVM_CALL_FAILURE\<rparr>"
proof -
  have val: "toNative (host_le e) (from_ptr e (to_ptr e (toBE (host_le e) v)) :: i128) = v"
    by (simp add: codec_simps)
  then have nz: "v \<noteq> 0 \<longleftrightarrow> (from_ptr e (to_ptr e (toBE (host_le e) v)) :: i128) \<noteq> 0"
    using toNative_0 [of "host_le e", where ?'a = 128]
    by (auto simp: from_ptr_to_ptr toBE_def toNative_def)
  have bal: "balance e (be_word (rd_address (rtdata e))) s =
      toNative (host_le e) (from_ptr e (get_balance (fns e) (host s) (to_ptr e (myAddr e))))"
    using addr be_bytes_be_word [of "rd_address (rtdata e)", where ?'a = 256]
    by (simp add: balance_def codec_simps to_ptr_myAddr)
  have "\<not> getDepth e <s 1024 \<or> knd \<noteq> EVM_DELEGATECALL \<and> v \<noteq> 0 \<and>
      \<not> v \<le> toNative (host_le e) (from_ptr e (get_balance (fns e) (host s) (to_ptr e (myAddr e))) :: i128)"
    using refused by (auto simp: word_sless_alt bal)
  then show ?thesis
    by (auto simp: ext_call_def call_wrapper_def resetReturnBuf_def Let_def val nz)
qed

theorem refused_call_witness:
  "ext_call (sample_env EVM_AION) EVM_CALL 500 7 1 0 0 0 0 (sample_rt 9) =
     (sample_rt 9)\<lparr>retbuf := [], call_ret := 500 OR EVM_CALL_FAILURE\<rparr>"
proof -
  have "balance (sample_env EVM_AION) a (sample_rt 9) = 0" for a
    by (simp add: balance_def codec_simps sample_env_simps be_word_zeros)
  then show ?thesis
    using refused_call [of "sample_env EVM_AION" EVM_CALL "sample_rt 9" 1 500 7 0 0 0 0]
    by (simp add: sample_env_simps)
qed

end
