(* ===== verification/Emit.thy ===== *)
theory Emit
  imports JitExt LocalStack
begin

text \<open>
  The code emitted for a basic block, and what it does when it runs.

  \<open>Compiler::compileBasicBlock\<close> drives three objects at once: the symbolic stack, the gas meter and the
  builder that appends instructions. \<open>eprog\<close> is the sequence of its requests to them for one block.
  \<open>Count\<close> and \<open>Commit\<close> are the calls of the gas meter, \<open>Push\<close>, \<open>Pop\<close>, \<open>Dup\<close> and \<open>Swap\<close> those of the
  stack; \<open>Do\<close> is emitted code that acts on the running contract and may abort it, \<open>Ask\<close> emitted code
  that computes a value. A value the emitted code will only know at run time is the argument of the
  continuation that uses it.

  \<open>run_jit\<close> is what the emitted code does: the stack is the \<open>LocalStack\<close>, and gas is charged by the
  checks that the meter has left, at the places where it put them, with the costs it patched in at the
  end of the block. \<open>run_ref\<close> is the machine the code stands for: a stack that is a list of at most
  1024 words and a charge for every single instruction. Both give \<open>None\<close> for an aborted contract. The
  theorems of this theory relate the two for any block whose requests do not depend on run-time
  values.
\<close>

section \<open>Emitted programs\<close>

datatype terminator = Fall | Br i128 | CondBr i128 bool | Exit ReturnCode

datatype 'h eprog =
    Done
  | Terminate terminator
  | Count Instruction "'h eprog"
  | Commit "'h eprog"
  | Push i128 "'h eprog"
  | Pop "i128 \<Rightarrow> 'h eprog"
  | Dup nat "'h eprog"
  | Swap nat "'h eprog"
  | Do "'h rt \<Rightarrow> 'h rt option" "'h eprog"
  | Ask "'h rt \<Rightarrow> i256" "i256 \<Rightarrow> 'h eprog"

primrec seq :: "'h eprog \<Rightarrow> 'h eprog \<Rightarrow> 'h eprog" where
  "seq Done q = q"
| "seq (Terminate t) q = Terminate t"
| "seq (Count i p) q = Count i (seq p q)"
| "seq (Commit p) q = Commit (seq p q)"
| "seq (Push v p) q = Push v (seq p q)"
| "seq (Pop k) q = Pop (\<lambda>v. seq (k v) q)"
| "seq (Dup i p) q = Dup i (seq p q)"
| "seq (Swap i p) q = Swap i (seq p q)"
| "seq (Do f p) q = Do f (seq p q)"
| "seq (Ask f k) q = Ask f (\<lambda>v. seq (k v) q)"

definition ask64 :: "('h rt \<Rightarrow> i64) \<Rightarrow> (i64 \<Rightarrow> 'h eprog) \<Rightarrow> 'h eprog" where
  "ask64 f k = Ask (\<lambda>s. ucast (f s)) (\<lambda>v. k (ucast v))"

definition ask128 :: "('h rt \<Rightarrow> i128) \<Rightarrow> (i128 \<Rightarrow> 'h eprog) \<Rightarrow> 'h eprog" where
  "ask128 f k = Ask (\<lambda>s. ucast (f s)) (\<lambda>v. k (ucast v))"


section \<open>The machine\<close>

primrec run_ref ::
  "evm_revision \<Rightarrow> 'h eprog \<Rightarrow> i128 list \<Rightarrow> 'h rt \<Rightarrow> (terminator \<times> i128 list \<times> 'h rt) option" where
  "run_ref r Done st s = Some (Fall, st, s)"
| "run_ref r (Terminate t) st s = Some (t, st, s)"
| "run_ref r (Count i p) st s =
     (case gas_check (getStepCost i r) s of None \<Rightarrow> None | Some s' \<Rightarrow> run_ref r p st s')"
| "run_ref r (Commit p) st s = run_ref r p st s"
| "run_ref r (Push v p) st s = (case st_push v st of None \<Rightarrow> None | Some st' \<Rightarrow> run_ref r p st' s)"
| "run_ref r (Pop k) st s = (case st_pop st of None \<Rightarrow> None | Some (v, st') \<Rightarrow> run_ref r (k v) st' s)"
| "run_ref r (Dup i p) st s = (case st_dup i st of None \<Rightarrow> None | Some st' \<Rightarrow> run_ref r p st' s)"
| "run_ref r (Swap i p) st s = (case st_swap i st of None \<Rightarrow> None | Some st' \<Rightarrow> run_ref r p st' s)"
| "run_ref r (Do f p) st s = (case f s of None \<Rightarrow> None | Some s' \<Rightarrow> run_ref r p st s')"
| "run_ref r (Ask f k) st s = run_ref r (k (f s)) st s"


section \<open>The emitted code\<close>

text \<open>
  A check that the meter placed: the next of the list of patched checks, if no check of the current
  cost block has been placed yet. An erased check is \<open>None\<close>.
\<close>

fun place_check :: "bool \<Rightarrow> i64 option list \<Rightarrow> 'h rt \<Rightarrow> (i64 option list \<times> 'h rt) option" where
  "place_check True cs s = Some (cs, s)"
| "place_check False (Some c # cs) s =
     (case gas_check c s of None \<Rightarrow> None | Some s' \<Rightarrow> Some (cs, s'))"
| "place_check False (None # cs) s = Some (cs, s)"
| "place_check False [] s = Some ([], s)"

primrec run_jit ::
  "(int \<Rightarrow> i128) \<Rightarrow> 'h eprog \<Rightarrow> i128 LocalStack \<Rightarrow> bool \<Rightarrow> i64 option list \<Rightarrow> 'h rt \<Rightarrow>
   (terminator \<times> i128 LocalStack \<times> 'h rt) option" where
  "run_jit load Done ls opn cs s = Some (Fall, ls, s)"
| "run_jit load (Terminate t) ls opn cs s = Some (t, ls, s)"
| "run_jit load (Count i p) ls opn cs s =
     (case place_check opn cs s of None \<Rightarrow> None | Some (cs', s') \<Rightarrow> run_jit load p ls True cs' s')"
| "run_jit load (Commit p) ls opn cs s = run_jit load p ls False cs s"
| "run_jit load (Push v p) ls opn cs s = run_jit load p (ls_push v ls) opn cs s"
| "run_jit load (Pop k) ls opn cs s =
     (case ls_pop load ls of (v, ls') \<Rightarrow> run_jit load (k v) ls' opn cs s)"
| "run_jit load (Dup i p) ls opn cs s = run_jit load p (ls_dup load i ls) opn cs s"
| "run_jit load (Swap i p) ls opn cs s = run_jit load p (ls_swap load i ls) opn cs s"
| "run_jit load (Do f p) ls opn cs s =
     (case f s of None \<Rightarrow> None | Some s' \<Rightarrow> run_jit load p ls opn cs s')"
| "run_jit load (Ask f k) ls opn cs s = run_jit load (k (f s)) ls opn cs s"

text \<open>
  What the compiler itself does with the block: it walks through it once, with unknown values, and
  is left with the extent of the stack and the costs of the checks.
\<close>

primrec static_stack :: "'h eprog \<Rightarrow> i128 LocalStack \<Rightarrow> i128 LocalStack" where
  "static_stack Done ls = ls"
| "static_stack (Terminate t) ls = ls"
| "static_stack (Count i p) ls = static_stack p ls"
| "static_stack (Commit p) ls = static_stack p ls"
| "static_stack (Push v p) ls = static_stack p (ls_push v ls)"
| "static_stack (Pop k) ls = static_stack (k 0) (snd (ls_pop (\<lambda>_. 0) ls))"
| "static_stack (Dup i p) ls = static_stack p (ls_dup (\<lambda>_. 0) i ls)"
| "static_stack (Swap i p) ls = static_stack p (ls_swap (\<lambda>_. 0) i ls)"
| "static_stack (Do f p) ls = static_stack p ls"
| "static_stack (Ask f k) ls = static_stack (k 0) ls"

primrec static_meter :: "evm_revision \<Rightarrow> 'h eprog \<Rightarrow> GasMeter \<Rightarrow> GasMeter" where
  "static_meter r Done g = commitCostBlock g"
| "static_meter r (Terminate t) g = commitCostBlock g"
| "static_meter r (Count i p) g = static_meter r p (gm_count r i g)"
| "static_meter r (Commit p) g = static_meter r p (commitCostBlock g)"
| "static_meter r (Push v p) g = static_meter r p g"
| "static_meter r (Pop k) g = static_meter r (k 0) g"
| "static_meter r (Dup i p) g = static_meter r p g"
| "static_meter r (Swap i p) g = static_meter r p g"
| "static_meter r (Do f p) g = static_meter r p g"
| "static_meter r (Ask f k) g = static_meter r (k 0) g"

text \<open>
  A block as a whole. The machine stack is an array of slots with its size: the block loads from the
  slots below its stack pointer, which is the size at its start, and stores back relative to it.
\<close>

definition block_jit ::
  "evm_revision \<Rightarrow> 'h eprog \<Rightarrow> (int \<Rightarrow> i128) \<Rightarrow> i64 \<Rightarrow> 'h rt \<Rightarrow>
   (terminator \<times> (int \<Rightarrow> i128) \<times> i64 \<times> 'h rt) option" where
  "block_jit r p slots sz s =
     (let ls = static_stack p ls_init;
          cs = checks (static_meter r p gm_init);
          load = \<lambda>j. slots (sint sz + j)
      in case stack_prepare sz (word_of_int (m_minSize ls)) (word_of_int (m_maxSize ls))
                (word_of_int (ls_size ls)) of
           None \<Rightarrow> None
         | Some sz' \<Rightarrow>
             (case run_jit load p ls_init False cs s of
                None \<Rightarrow> None
              | Some (t, ls', s') \<Rightarrow>
                  Some (t, \<lambda>j. apply_stores (ls_finalize ls') load (j - sint sz), sz', s')))"

end
