(* ===== verification/EmitCorrect.thy ===== *)
theory EmitCorrect
  imports Emit
begin

text \<open>
  The two facts that make the emitted code of a block equivalent to the machine: the symbolic stack
  with its check at the start stands for the machine stack, and the gas checks of the cost blocks stand
  for a charge per instruction. Both rest on the requests of a block being the same whatever the
  values at run time are (\<open>uniform\<close>), which is what lets the compiler walk through the block once.
\<close>

section \<open>The requests of a block\<close>

datatype ev = EvPush | EvPop | EvDup nat | EvSwap nat | EvCount Instruction | EvCommit | EvEnd

primrec trace :: "'h eprog \<Rightarrow> ev list" where
  "trace Done = []"
| "trace (Terminate t) = [EvEnd]"
| "trace (Count i p) = EvCount i # trace p"
| "trace (Commit p) = EvCommit # trace p"
| "trace (Push v p) = EvPush # trace p"
| "trace (Pop k) = EvPop # trace (k 0)"
| "trace (Dup i p) = EvDup i # trace p"
| "trace (Swap i p) = EvSwap i # trace p"
| "trace (Do f p) = trace p"
| "trace (Ask f k) = trace (k 0)"

primrec uniform :: "'h eprog \<Rightarrow> bool" where
  "uniform Done = True"
| "uniform (Terminate t) = True"
| "uniform (Count i p) = uniform p"
| "uniform (Commit p) = uniform p"
| "uniform (Push v p) = uniform p"
| "uniform (Pop k) = ((\<forall>v w. trace (k v) = trace (k w)) \<and> (\<forall>v. uniform (k v)))"
| "uniform (Dup i p) = uniform p"
| "uniform (Swap i p) = uniform p"
| "uniform (Do f p) = uniform p"
| "uniform (Ask f k) = ((\<forall>v w. trace (k v) = trace (k w)) \<and> (\<forall>v. uniform (k v)))"

text \<open>Falling through to the next block is the end of a program and not one of its terminators.\<close>

primrec no_fall_end :: "'h eprog \<Rightarrow> bool" where
  "no_fall_end Done = True"
| "no_fall_end (Terminate t) = (t \<noteq> Fall)"
| "no_fall_end (Count i p) = no_fall_end p"
| "no_fall_end (Commit p) = no_fall_end p"
| "no_fall_end (Push v p) = no_fall_end p"
| "no_fall_end (Pop k) = (\<forall>v. no_fall_end (k v))"
| "no_fall_end (Dup i p) = no_fall_end p"
| "no_fall_end (Swap i p) = no_fall_end p"
| "no_fall_end (Do f p) = no_fall_end p"
| "no_fall_end (Ask f k) = (\<forall>v. no_fall_end (k v))"

lemma uniform_next:
  "uniform (Pop k) \<Longrightarrow> trace (k v) = trace (k 0)" "uniform (Pop k) \<Longrightarrow> uniform (k v)"
  "uniform (Ask f k') \<Longrightarrow> trace (k' w) = trace (k' 0)" "uniform (Ask f k') \<Longrightarrow> uniform (k' w)"
  by simp_all

fun ev_ok :: "ev \<Rightarrow> bool" where
  "ev_ok (EvDup i) = (i < 32)"
| "ev_ok (EvSwap i) = (0 < i \<and> i \<le> 32)"
| "ev_ok (EvCount i) = wf_inst i"
| "ev_ok _ = True"

fun ev_extent :: "ev \<Rightarrow> extent \<Rightarrow> extent" where
  "ev_extent EvPush e = extent_push e"
| "ev_extent EvPop e = extent_pop e"
| "ev_extent (EvDup i) e = extent_push (extent_need i e)"
| "ev_extent (EvSwap i) e = extent_need i e"
| "ev_extent _ e = e"

definition tr_extent :: "ev list \<Rightarrow> extent \<Rightarrow> extent" where
  "tr_extent tr e = foldl (\<lambda>e x. ev_extent x e) e tr"

lemma tr_extent_simps [simp]:
  "tr_extent [] e = e" "tr_extent (x # tr) e = tr_extent tr (ev_extent x e)"
  by (simp_all add: tr_extent_def)

lemma fits_ev_mono: "ev_ok x \<Longrightarrow> fits n (ev_extent x e) \<Longrightarrow> fits n e"
  by (cases x) (auto simp: fits_push fits_pop fits_need)

lemma fits_tr_mono: "list_all ev_ok tr \<Longrightarrow> fits n (tr_extent tr e) \<Longrightarrow> fits n e"
proof (induction tr arbitrary: e)
  case (Cons x tr)
  then have "fits n (ev_extent x e)" by simp
  with Cons.prems(1) show ?case using fits_ev_mono [of x] by simp
qed simp

lemma not_fits_tr: "list_all ev_ok tr \<Longrightarrow> \<not> fits n e \<Longrightarrow> \<not> fits n (tr_extent tr e)"
  using fits_tr_mono by blast


section \<open>The stack\<close>

lemma static_stack_extent:
  assumes "list_all ev_ok (trace p)" "ls_inv ls"
  shows "ls_extent (static_stack p ls) = tr_extent (trace p) (ls_extent ls)
    \<and> ls_inv (static_stack p ls)"
  using assms
  by (induction p arbitrary: ls)
    (simp_all add: ls.extent_push ls.extent_pop ls.extent_dup ls.extent_swap
      ls.inv_push ls.inv_pop ls.inv_dup ls.inv_swap)

text \<open>
  The emitted code with the machine's stack in place of the symbolic one, and the checks as they are.
\<close>

primrec run_chk ::
  "'h eprog \<Rightarrow> i128 list \<Rightarrow> bool \<Rightarrow> i64 option list \<Rightarrow> 'h rt \<Rightarrow>
   (terminator \<times> i128 list \<times> 'h rt) option" where
  "run_chk Done st opn cs s = Some (Fall, st, s)"
| "run_chk (Terminate t) st opn cs s = Some (t, st, s)"
| "run_chk (Count i p) st opn cs s =
     (case place_check opn cs s of None \<Rightarrow> None | Some (cs', s') \<Rightarrow> run_chk p st True cs' s')"
| "run_chk (Commit p) st opn cs s = run_chk p st False cs s"
| "run_chk (Push v p) st opn cs s =
     (case st_push v st of None \<Rightarrow> None | Some st' \<Rightarrow> run_chk p st' opn cs s)"
| "run_chk (Pop k) st opn cs s =
     (case st_pop st of None \<Rightarrow> None | Some (v, st') \<Rightarrow> run_chk (k v) st' opn cs s)"
| "run_chk (Dup i p) st opn cs s =
     (case st_dup i st of None \<Rightarrow> None | Some st' \<Rightarrow> run_chk p st' opn cs s)"
| "run_chk (Swap i p) st opn cs s =
     (case st_swap i st of None \<Rightarrow> None | Some st' \<Rightarrow> run_chk p st' opn cs s)"
| "run_chk (Do f p) st opn cs s = (case f s of None \<Rightarrow> None | Some s' \<Rightarrow> run_chk p st opn cs s')"
| "run_chk (Ask f k) st opn cs s = run_chk (k (f s)) st opn cs s"

definition stack_sim ::
  "(int \<Rightarrow> i128) \<Rightarrow> nat \<Rightarrow> extent \<Rightarrow> (terminator \<times> i128 LocalStack \<times> 'h rt) option \<Rightarrow>
   (terminator \<times> i128 list \<times> 'h rt) option \<Rightarrow> bool" where
  "stack_sim load n e jit chk \<longleftrightarrow>
     (if fits n e
      then (case chk of
          None \<Rightarrow> jit = None
        | Some (t, st', s') \<Rightarrow> \<exists>ls'. jit = Some (t, ls', s') \<and> ls_inv ls' \<and> ls_extent ls' = e \<and>
            stands_for (ls_view load ls') (ls_extent ls') n st')
      else chk = None)"

lemma stack_sim_None: "stack_sim load n e None None"
  by (simp add: stack_sim_def)

lemma run_jit_stack:
  assumes "list_all ev_ok (trace p)" "uniform p" "ls_inv ls"
    "stands_for (ls_view load ls) (ls_extent ls) n st" "fits n (ls_extent ls)"
  shows "stack_sim load n (tr_extent (trace p) (ls_extent ls))
    (run_jit load p ls opn cs s) (run_chk p st opn cs s)"
  using assms
proof (induction p arbitrary: ls st opn cs s)
  case (Count i p)
  then show ?case by (auto simp: stack_sim_None split: option.splits)
next
  case (Do f p)
  then show ?case by (auto simp: stack_sim_None split: option.splits)
next
  case (Push v p)
  let ?ls = "ls_push v ls"
  note st = ls.sim_push [OF Push.prems(3-5), of v]
  show ?case
  proof (cases "fits n (ls_extent ?ls)")
    case True
    with st Push.IH [of ?ls "v # st"] Push.prems show ?thesis
      by (simp add: ls.inv_push ls.extent_push)
  next
    case False
    then have "\<not> fits n (tr_extent (trace p) (extent_push (ls_extent ls)))"
      using Push.prems(1,3) not_fits_tr by (simp add: ls.extent_push)
    with False st show ?thesis
      by (simp add: stack_sim_def)
  qed
next
  case (Pop k)
  let ?ls = "snd (ls_pop load ls)" and ?v = "fst (ls_pop load ls)"
  note st = ls.sim_pop [OF Pop.prems(3-5)]
  note tr = uniform_next(1,2) [OF Pop.prems(2), of ?v]
  show ?case
  proof (cases "fits n (ls_extent ?ls)")
    case True
    with st Pop.IH [of "k ?v" ?ls "tl st"] Pop.prems(1,3) tr show ?thesis
      by (simp add: ls.inv_pop ls.extent_pop case_prod_beta)
  next
    case False
    then have "\<not> fits n (tr_extent (trace (k 0)) (extent_pop (ls_extent ls)))"
      using Pop.prems(1,3) not_fits_tr by (simp add: ls.extent_pop)
    with False st show ?thesis
      by (simp add: stack_sim_def)
  qed
next
  case (Dup i p)
  let ?ls = "ls_dup load i ls"
  note st = ls.sim_dup [OF Dup.prems(3-5), of i]
  show ?case
  proof (cases "fits n (ls_extent ?ls)")
    case True
    with st Dup.IH [of ?ls "st ! i # st"] Dup.prems show ?thesis
      by (simp add: ls.inv_dup ls.extent_dup)
  next
    case False
    then have "\<not> fits n (tr_extent (trace p) (extent_push (extent_need i (ls_extent ls))))"
      using Dup.prems(1,3) not_fits_tr by (simp add: ls.extent_dup)
    with False st show ?thesis
      by (simp add: stack_sim_def)
  qed
next
  case (Swap i p)
  let ?ls = "ls_swap load i ls"
  from Swap.prems(1) have i: "0 < i" by simp
  note st = ls.sim_swap [OF Swap.prems(3-5) i]
  show ?case
  proof (cases "fits n (ls_extent ?ls)")
    case True
    with st Swap.IH [of ?ls "st[0 := st ! i, i := st ! 0]"] Swap.prems show ?thesis
      by (simp add: ls.inv_swap ls.extent_swap)
  next
    case False
    then have "\<not> fits n (tr_extent (trace p) (extent_need i (ls_extent ls)))"
      using Swap.prems(1,3) not_fits_tr by (simp add: ls.extent_swap)
    with False st show ?thesis
      by (simp add: stack_sim_def)
  qed
next
  case (Ask f k)
  with uniform_next(3,4) [OF Ask.prems(2), of "f s"] Ask.IH [of "k (f s)" ls st opn cs s] Ask.prems(1,3-5) show ?case by simp
next
  case (Commit p)
  then show ?case by simp
qed (simp_all add: stack_sim_def)


section \<open>The gas\<close>

definition check_of :: "i64 \<Rightarrow> i64 option" where
  "check_of c = (if c = 0 then None else Some c)"

fun tr_cost :: "evm_revision \<Rightarrow> ev list \<Rightarrow> i64" where
  "tr_cost r [] = 0"
| "tr_cost r (EvCount i # tr) = getStepCost i r + tr_cost r tr"
| "tr_cost r (EvCommit # tr) = 0"
| "tr_cost r (x # tr) = tr_cost r tr"

fun tr_checks :: "evm_revision \<Rightarrow> bool \<Rightarrow> ev list \<Rightarrow> i64 option list" where
  "tr_checks r opn [] = []"
| "tr_checks r opn (EvCount i # tr) =
     (if opn then [] else [check_of (getStepCost i r + tr_cost r tr)]) @ tr_checks r True tr"
| "tr_checks r opn (EvCommit # tr) = tr_checks r False tr"
| "tr_checks r opn (x # tr) = tr_checks r opn tr"

lemma static_meter_checks:
  assumes "m_checkCall g \<or> m_blockCost g = 0"
  shows "checks (static_meter r p g) = checks g @
    (if m_checkCall g then [check_of (m_blockCost g + tr_cost r (trace p))] else []) @
    tr_checks r (m_checkCall g) (trace p)"
  using assms
proof (induction p arbitrary: g)
  case (Count i p)
  then show ?case by (auto simp: gm_count_def Let_def add.assoc)
qed (auto simp: commitCostBlock_def check_of_def)

definition gas_ok :: "'h rt \<Rightarrow> bool" where
  "gas_ok s \<longleftrightarrow> 0 \<le> sint (gas s) \<and> gas s \<noteq> gasMax"

definition spends :: "('h rt \<Rightarrow> 'h rt option) \<Rightarrow> bool" where
  "spends f \<longleftrightarrow> (\<forall>s s'. gas_ok s \<and> f s = Some s' \<longrightarrow> gas_ok s' \<and> sint (gas s') \<le> sint (gas s))"

text \<open>
  A metered operation treats gas as a counter it only charges: with \<open>d\<close> less it does the same, if what
  it leaves is at least \<open>d\<close>, and aborts otherwise.
\<close>

definition metered :: "('h rt \<Rightarrow> 'h rt option) \<Rightarrow> bool" where
  "metered f \<longleftrightarrow> spends f \<and>
     (\<forall>s d. gas_ok s \<and> 0 \<le> sint d \<and> sint d \<le> sint (gas s) \<longrightarrow>
        f (s\<lparr>gas := gas s - d\<rparr>) =
          (case f s of None \<Rightarrow> None
           | Some s' \<Rightarrow> if sint d \<le> sint (gas s') then Some (s'\<lparr>gas := gas s' - d\<rparr>) else None))"

definition gas_blind :: "('h rt \<Rightarrow> 'v) \<Rightarrow> bool" where
  "gas_blind f \<longleftrightarrow> (\<forall>s g. f (s\<lparr>gas := g\<rparr>) = f s)"

primrec meterable :: "bool \<Rightarrow> 'h eprog \<Rightarrow> bool" where
  "meterable opn Done = True"
| "meterable opn (Terminate t) = True"
| "meterable opn (Count i p) = meterable True p"
| "meterable opn (Commit p) = meterable False p"
| "meterable opn (Push v p) = meterable opn p"
| "meterable opn (Pop k) = (\<forall>v. meterable opn (k v))"
| "meterable opn (Dup i p) = meterable opn p"
| "meterable opn (Swap i p) = meterable opn p"
| "meterable opn (Do f p) = ((if opn then metered f else spends f) \<and> meterable opn p)"
| "meterable opn (Ask f k) = ((opn \<longrightarrow> gas_blind f) \<and> (\<forall>v. meterable opn (k v)))"

lemma tr_cost_range:
  assumes "list_all ev_ok tr" "length tr < 2 ^ 40"
  shows "0 \<le> sint (tr_cost r tr) \<and> sint (tr_cost r tr) \<le> 200000 * int (length tr)"
  using assms
proof (induction r tr rule: tr_cost.induct)
  case (2 r i tr)
  then have c: "0 \<le> sint (getStepCost i r)" "sint (getStepCost i r) \<le> 200000"
    using getStepCost_ok [of i r] by (simp_all add: cost_ok_def)
  moreover have t: "0 \<le> sint (tr_cost r tr)" "sint (tr_cost r tr) \<le> 200000 * int (length tr)"
    using 2 by auto
  moreover have "sint (getStepCost i r + tr_cost r tr) = sint (getStepCost i r) + sint (tr_cost r tr)"
    using c t 2 by (intro sint64_add) auto
  ultimately show ?case by simp
qed auto

lemma tr_cost_Count:
  assumes "list_all ev_ok (EvCount i # tr)" "length (EvCount i # tr) < 2 ^ 40"
  shows "sint (getStepCost i r + tr_cost r tr) = sint (getStepCost i r) + sint (tr_cost r tr)"
    "0 \<le> sint (getStepCost i r)" "0 \<le> sint (tr_cost r tr)"
proof -
  show c: "0 \<le> sint (getStepCost i r)" and "0 \<le> sint (tr_cost r tr)"
    using assms getStepCost_ok [of i r] tr_cost_range [of tr r] by (simp_all add: cost_ok_def)
  then show "sint (getStepCost i r + tr_cost r tr) = sint (getStepCost i r) + sint (tr_cost r tr)"
    using assms getStepCost_ok [of i r] tr_cost_range [of tr r]
    by (intro sint64_add) (auto simp: cost_ok_def)
qed

lemma gas_ok_minus:
  assumes "gas_ok s" "0 \<le> sint c" "sint c \<le> sint (gas s)"
  shows "gas_ok (s\<lparr>gas := gas s - c\<rparr>)" "sint (gas s - c) = sint (gas s) - sint c"
proof -
  show d: "sint (gas s - c) = sint (gas s) - sint c"
    using assms by (simp add: gas_simps gas_ok_def)
  have "sint (gas s) < 2 ^ 63 - 1"
  proof -
    have "sint (gas s) \<noteq> sint gasMax"
      using assms(1) by (auto simp: gas_ok_def intro: signed_word_eqI)
    then show ?thesis using sint_lt [of "gas s"] by (simp add: gasMax_sint)
  qed
  with d assms show "gas_ok (s\<lparr>gas := gas s - c\<rparr>)"
    by (auto simp: gas_ok_def gasMax_sint)
qed

lemma run_ref_spends:
  assumes "meterable opn p" "list_all ev_ok (trace p)" "uniform p" "gas_ok s"
    "run_ref r p st s = Some (t, st', s')"
  shows "gas_ok s' \<and> sint (gas s') \<le> sint (gas s)"
  using assms
proof (induction p arbitrary: opn st s)
  case (Count i p)
  then obtain s1 where s1: "gas_check (getStepCost i r) s = Some s1" "run_ref r p st s1 = Some (t, st', s')"
    by (auto split: option.splits)
  have c: "0 \<le> sint (getStepCost i r)"
    using Count.prems(2) getStepCost_ok [of i r] by (simp add: cost_ok_def)
  then have "s1 = s\<lparr>gas := gas s - getStepCost i r\<rparr>" "sint (getStepCost i r) \<le> sint (gas s)"
    using s1(1) Count.prems(4) by (auto simp: gas_simps gas_ok_def split: if_splits)
  then show ?case
    using gas_ok_minus [OF Count.prems(4) c] Count.IH [OF _ _ _ _ s1(2)] Count.prems c by fastforce
next
  case (Do f p)
  then obtain s1 where s1: "f s = Some s1" "run_ref r p st s1 = Some (t, st', s')"
    by (auto split: option.splits)
  then have "gas_ok s1 \<and> sint (gas s1) \<le> sint (gas s)"
    using Do.prems(1,4) by (auto simp: metered_def spends_def split: if_splits)
  then show ?case using Do.IH [OF _ _ _ _ s1(2)] Do.prems by fastforce
next
  case (Pop k)
  then obtain v st1 where "run_ref r (k v) st1 s = Some (t, st', s')"
    by (auto split: option.splits)
  with Pop.IH [of "k v" opn s st1] Pop.prems(1,2,4) uniform_next(1,2) [OF Pop.prems(3), of v]
  show ?case by simp
next
  case (Ask f k)
  with Ask.IH [of "k (f s)" opn s st] Ask.prems(1,2,4) uniform_next(3,4) [OF Ask.prems(3), of "f s"]
  show ?case by simp
qed (fastforce split: option.splits)+


lemma metered_less:
  assumes "metered f" "gas_ok s" "0 \<le> sint d" "sint d \<le> sint (gas s)"
  shows "f (s\<lparr>gas := gas s - d\<rparr>) =
    (case f s of None \<Rightarrow> None
     | Some s' \<Rightarrow> if sint d \<le> sint (gas s') then Some (s'\<lparr>gas := gas s' - d\<rparr>) else None)"
  using assms by (simp add: metered_def)

lemma run_ref_short:
  assumes "meterable True p" "list_all ev_ok (trace p)" "uniform p" "length (trace p) < 2 ^ 40"
    "gas_ok s" "sint (gas s) < sint (tr_cost r (trace p))"
  shows "run_ref r p st s = None"
  using assms
proof (induction p arbitrary: st s)
  case (Count i p)
  have c: "sint (getStepCost i r + tr_cost r (trace p)) = sint (getStepCost i r) + sint (tr_cost r (trace p))"
    "0 \<le> sint (getStepCost i r)"
    using tr_cost_Count [of i "trace p" r] Count.prems by simp_all
  show ?case
  proof (cases "sint (getStepCost i r) \<le> sint (gas s)")
    case True
    with Count.IH [of "s\<lparr>gas := gas s - getStepCost i r\<rparr>" st]
      gas_ok_minus [OF Count.prems(5) c(2)] Count.prems c
    show ?thesis by (simp add: gas_simps gas_ok_def)
  qed (use c Count.prems in \<open>simp add: gas_simps gas_ok_def\<close>)
next
  case (Do f p)
  show ?case
  proof (cases "f s")
    case (Some s1)
    then have "gas_ok s1" "sint (gas s1) \<le> sint (gas s)"
      using Do.prems(1,5) by (auto simp: metered_def spends_def)
    with Do.IH [of s1 st] Do.prems Some show ?thesis by simp
  qed simp
next
  case (Pop k)
  have "run_ref r (k v) st1 s = None" for v st1
    using Pop.IH [of "k v" s st1] Pop.prems(1,2,4-) uniform_next(1,2) [OF Pop.prems(3), of v] by simp
  then show ?case by (simp split: option.splits)
next
  case (Ask f k)
  show ?case
    using Ask.IH [of "k (f s)" s st] Ask.prems(1,2,4-) uniform_next(3,4) [OF Ask.prems(3), of "f s"]
    by simp
qed (fastforce simp: gas_ok_def split: option.splits)+

text \<open>
  In the middle of a cost block the emitted code has already paid for the rest of it; the machine has
  not. The two agree for as long as the machine can pay, and both abort in the end if it cannot.
\<close>

lemma run_chk_run_ref:
  assumes "meterable opn p" "list_all ev_ok (trace p)" "uniform p" "length (trace p) < 2 ^ 40" "gas_ok s"
    "opn \<Longrightarrow> sint (tr_cost r (trace p)) \<le> sint (gas s)"
  shows "run_chk p st opn (tr_checks r opn (trace p))
      (if opn then s\<lparr>gas := gas s - tr_cost r (trace p)\<rparr> else s) = run_ref r p st s"
  using assms
proof (induction p arbitrary: opn st s)
  case (Count i p)
  let ?c = "getStepCost i r" and ?d = "tr_cost r (trace p)"
  have c: "sint (?c + ?d) = sint ?c + sint ?d" "0 \<le> sint ?c" "0 \<le> sint ?d"
    using tr_cost_Count [of i "trace p" r] Count.prems by simp_all
  show ?case
  proof (cases "sint ?c + sint ?d \<le> sint (gas s)")
    case True
    with c have le: "sint ?c \<le> sint (gas s)" by simp
    note ok = gas_ok_minus [OF Count.prems(5) c(2) le]
    have pay: "gas s - (?c + ?d) = gas s - ?c - ?d" by simp
    have "run_chk p st True (tr_checks r True (trace p)) (s\<lparr>gas := gas s - (?c + ?d)\<rparr>) =
        run_ref r p st (s\<lparr>gas := gas s - ?c\<rparr>)"
      using Count.IH [of True "s\<lparr>gas := gas s - ?c\<rparr>" st] ok Count.prems(1-4) c True
      by (simp add: pay)
    moreover have "?c + ?d = 0 \<Longrightarrow> gas s - (?c + ?d) = gas s" by simp
    ultimately show ?thesis
      using c True le Count.prems(5)
      by (auto simp: check_of_def gas_check_iff gas_ok_def)
  next
    case False
    then have "?c + ?d \<noteq> 0" using c Count.prems(5) by (auto simp: gas_ok_def)
    moreover have "run_ref r (Count i p) st s = None"
      using run_ref_short [of "Count i p" s r st] Count.prems(1-5) False c by simp
    ultimately show ?thesis
      using False c Count.prems(5,6) by (auto simp: check_of_def gas_check_iff gas_ok_def)
  qed
next
  case (Commit p)
  then show ?case by (cases opn) (simp_all, fastforce+)
next
  case (Do f p)
  let ?d = "tr_cost r (trace p)"
  have d: "0 \<le> sint ?d" using tr_cost_range [of "trace p" r] Do.prems by simp
  show ?case
  proof (cases "f s")
    case None
    then show ?thesis using metered_less [of f s ?d] Do.prems d by auto
  next
    case (Some s1)
    then have s1: "gas_ok s1" "sint (gas s1) \<le> sint (gas s)"
      using Do.prems(1,5) by (auto simp: metered_def spends_def split: if_splits)
    show ?thesis
    proof (cases "opn \<and> \<not> sint ?d \<le> sint (gas s1)")
      case True
      then have "run_ref r p st s1 = None" using run_ref_short [of p s1 r st] s1 Do.prems by simp
      then show ?thesis using True Some metered_less [of f s ?d] Do.prems d by simp
    next
      case False
      then show ?thesis
        using Do.IH [of opn s1 st] Some metered_less [of f s ?d] Do.prems d s1 by auto
    qed
  qed
next
  case (Pop k)
  have "run_chk (k v) st1 opn (tr_checks r opn (trace (k 0)))
      (if opn then s\<lparr>gas := gas s - tr_cost r (trace (k 0))\<rparr> else s) = run_ref r (k v) st1 s" for v st1
    using Pop.IH [of "k v" opn s st1] Pop.prems(1,2,4-) uniform_next(1,2) [OF Pop.prems(3), of v]
    by (cases opn) simp_all
  then show ?case by (cases opn) (simp_all split: option.splits)
next
  case (Ask f k)
  have "f (if opn then s\<lparr>gas := g\<rparr> else s) = f s" for g
    using Ask.prems(1) by (simp add: gas_blind_def)
  then show ?case
    using Ask.IH [of "k (f s)" opn s st] Ask.prems(1,2,4-) uniform_next(3,4) [OF Ask.prems(3), of "f s"]
    by (cases opn) simp_all
next
  case (Push v p)
  then show ?case using Push.IH [of opn s] by (cases opn) (simp_all split: option.splits)
next
  case (Dup i p)
  then show ?case using Dup.IH [of opn s] by (cases opn) (simp_all split: option.splits)
next
  case (Swap i p)
  then show ?case using Swap.IH [of opn s] by (cases opn) (simp_all split: option.splits)
qed simp_all



section \<open>Sequences\<close>

lemma trace_seq: "trace (seq p q) = (if EvEnd \<in> set (trace p) then trace p else trace p @ trace q)"
  by (induction p) simp_all

lemma uniform_seq: "uniform p \<Longrightarrow> uniform q \<Longrightarrow> uniform (seq p q)"
proof (induction p)
  case (Pop k)
  moreover have "trace (seq (k v) q) = trace (seq (k w) q)" for v w
    using Pop.prems(1) unfolding trace_seq by (metis uniform_next(1))
  ultimately show ?case by simp
next
  case (Ask f k)
  moreover have "trace (seq (k v) q) = trace (seq (k w) q)" for v w
    using Ask.prems(1) unfolding trace_seq by (metis uniform_next(3))
  ultimately show ?case by simp
qed simp_all

lemma meterable_seq: "meterable opn p \<Longrightarrow> (\<And>opn. meterable opn q) \<Longrightarrow> meterable opn (seq p q)"
  by (induction p arbitrary: opn) auto

lemma run_ref_seq:
  "run_ref r (seq p q) st s =
     (case run_ref r p st s of Some (Fall, st', s') \<Rightarrow> run_ref r q st' s' | x \<Rightarrow> x)"
  if "no_fall_end p"
  using that by (induction p arbitrary: st s) (auto split: option.splits terminator.splits)

section \<open>The block\<close>

text \<open>
  The slots of the stack array below its size hold the machine stack, the topmost item last.
\<close>

definition slots_hold :: "(int \<Rightarrow> i128) \<Rightarrow> i64 \<Rightarrow> i128 list \<Rightarrow> bool" where
  "slots_hold slots sz st \<longleftrightarrow> sint sz = int (length st) \<and> length st \<le> 1024 \<and>
     (\<forall>i < length st. slots (sint sz - 1 - int i) = st ! i)"


lemma ev_extent_bounds:
  "ev_ok x \<Longrightarrow> ev_extent x (c, mn, mx) = (c1, mn1, mx1) \<Longrightarrow>
   min mn (c - 33) \<le> mn1 \<and> mx1 \<le> max mx (c + 1) \<and> c - 1 \<le> c1 \<and> c1 \<le> c + 1"
  by (cases x) auto

lemma tr_extent_bounds:
  assumes "list_all ev_ok tr" "tr_extent tr (c, mn, mx) = (c', mn', mx')"
  shows "min mn (c - int (length tr) - 33) \<le> mn' \<and> mx' \<le> max mx (c + int (length tr))"
  using assms
proof (induction tr arbitrary: c mn mx)
  case (Cons x tr)
  obtain c1 mn1 mx1 where e: "ev_extent x (c, mn, mx) = (c1, mn1, mx1)"
    by (cases "ev_extent x (c, mn, mx)")
  have "min mn1 (c1 - int (length tr) - 33) \<le> mn'" "mx' \<le> max mx1 (c1 + int (length tr))"
    using Cons.IH [of c1 mn1 mx1] Cons.prems e by simp_all
  moreover have "min mn (c - 33) \<le> mn1" "mx1 \<le> max mx (c + 1)" "c - 1 \<le> c1" "c1 \<le> c + 1"
    using ev_extent_bounds [OF _ e] Cons.prems(1) by simp_all
  ultimately have "min mn (c - (1 + int (length tr)) - 33) \<le> mn' \<and> mx' \<le> max mx (c + (1 + int (length tr)))"
    by linarith
  then show ?case by simp
qed simp

lemma static_prepare:
  assumes "list_all ev_ok (trace p)" "length (trace p) < 2 ^ 40" "n \<le> 1024"
  shows "stack_prepare (of_nat n) (word_of_int (m_minSize (static_stack p ls_init)))
      (word_of_int (m_maxSize (static_stack p ls_init)))
      (word_of_int (ls_size (static_stack p ls_init))) =
    (if fits n (tr_extent (trace p) (0, 0, 0))
     then Some (word_of_int (int n + ls_size (static_stack p ls_init))) else None)"
proof -
  let ?ls = "static_stack p ls_init"
  from static_stack_extent [OF assms(1) ls_init_inv]
  have "tr_extent (trace p) (0, 0, 0) = ls_extent ?ls" and inv: "ls_inv ?ls"
    by (simp_all add: ls_init_extent)
  then have e: "tr_extent (trace p) (0, 0, 0) = (ls_size ?ls, m_minSize ?ls, m_maxSize ?ls)"
    by (simp add: ls_extent_def)
  have "min 0 (0 - int (length (trace p)) - 33) \<le> m_minSize ?ls"
    "m_maxSize ?ls \<le> max 0 (0 + int (length (trace p)))"
    using tr_extent_bounds [OF assms(1) e] by simp_all
  with assms(2) have b: "- (2 ^ 62) \<le> m_minSize ?ls" "m_maxSize ?ls < 2 ^ 62"
    by (simp_all add: min_def max_def split: if_splits)
  show ?thesis
    unfolding e by (rule stack_prepare_iff [OF assms(3) b(1) ls_inv_extent_bounds [OF inv] b(2)])
qed


definition block_ok :: "'h eprog \<Rightarrow> bool" where
  "block_ok p \<longleftrightarrow> meterable False p \<and> list_all ev_ok (trace p) \<and> uniform p \<and> length (trace p) < 2 ^ 40"

text \<open>
  The stack and the checks together: the emitted code of a block does what its requests do on the machine's stack,
  with the checks that the meter placed.
\<close>

lemma block_jit_chk:
  assumes p: "list_all ev_ok (trace p)" "uniform p" "length (trace p) < 2 ^ 40" and hold: "slots_hold slots sz st"
  shows "case run_chk p st False (tr_checks r False (trace p)) s of
      None \<Rightarrow> block_jit r p slots sz s = None
    | Some (t, st', s') \<Rightarrow> \<exists>slots' sz'. block_jit r p slots sz s = Some (t, slots', sz', s') \<and>
        slots_hold slots' sz' st'"
proof -
  let ?n = "length st" and ?ls = "static_stack p ls_init" and ?e = "tr_extent (trace p) (0, 0, 0)"
  define load where "load = (\<lambda>j. slots (sint sz + j))"
  let ?chk = "run_chk p st False (tr_checks r False (trace p)) s"
  have sz: "sint sz = int ?n" "?n \<le> 1024" and ld: "\<And>i. i < ?n \<Longrightarrow> load (- int i - 1) = st ! i"
    using hold by (auto simp: slots_hold_def load_def algebra_simps)
  have szn: "sz = of_nat ?n"
  proof -
    have "sint (word_of_int (int ?n) :: i64) = int ?n"
      using sz(2) by (intro sint64_of_int) auto
    then have "sint sz = sint (of_nat ?n :: i64)" using sz(1) by simp
    then show ?thesis by (simp only: sint64_inj)
  qed
  have cs: "checks (static_meter r p gm_init) = tr_checks r False (trace p)"
    by (simp add: static_meter_checks gm_init_def)
  have size: "ls_size ?ls = fst ?e"
    using static_stack_extent [OF p(1) ls_init_inv] ls_init_extent
    by (metis fst_conv ls_extent_def)
  have fits0: "fits ?n (ls_extent (ls_init :: i128 LocalStack))"
    using sz by (simp add: ls_init_extent fits_def)
  have sim: "stack_sim load ?n ?e (run_jit load p ls_init False (tr_checks r False (trace p)) s)
      (?chk)"
    using run_jit_stack [OF p(1,2) ls_init_inv ls_init_stands_for [of st load, OF ld] fits0,
        of False "tr_checks r False (trace p)" s]
    by (simp add: ls_init_extent)
  note prep = static_prepare [OF p(1,3) sz(2), folded szn]
  show ?thesis
  proof (cases "fits ?n ?e \<and> ?chk \<noteq> None")
    case True
    then obtain t st' s' where ref: "?chk = Some (t, st', s')" by auto
    with sim True obtain ls' where ls': "run_jit load p ls_init False (tr_checks r False (trace p)) s =
        Some (t, ls', s')" "ls_inv ls'" "ls_extent ls' = ?e"
        "stands_for (ls_view load ls') (ls_extent ls') ?n st'"
      by (auto simp: stack_sim_def)
    then have "ls_size ls' = fst ?e" by (metis fst_conv ls_extent_def)
    with ls'(3,4) size have len: "int (length st') = int ?n + ls_size ls'" "ls_size ls' = ls_size ?ls"
      by (simp_all add: stands_for_def)
    let ?slots = "\<lambda>j. apply_stores (ls_finalize ls') load (j - sint sz)"
    have jit: "block_jit r p slots sz s =
        Some (t, ?slots, word_of_int (int (length st')), s')"
      using True ls'(1) prep cs len by (simp add: block_jit_def Let_def flip: load_def)
    have le: "length st' \<le> 1024"
    proof -
      have "fits ?n (ls_extent ls')" using True ls'(3) by simp
      then show ?thesis using len ls'(2) by (auto simp: ls_inv_def ls_extent_def fits_def)
    qed
    then have "sint (word_of_int (int (length st')) :: i64) = int (length st')"
      by (intro sint64_of_int) auto
    then have "slots_hold ?slots (word_of_int (int (length st'))) st'"
      using le len finalized_stack(2) [OF ls'(2,4)] sz(1)
      by (simp add: slots_hold_def algebra_simps del: of_int_of_nat_eq)
    with ref jit show ?thesis by auto
  next
    case False
    then consider "?chk = None" | "\<not> fits ?n ?e" by blast
    then have "?chk = None"
      by cases (use sim in \<open>simp_all add: stack_sim_def\<close>)
    moreover have "block_jit r p slots sz s = None"
      using sim prep cs calculation
      by (auto simp: stack_sim_def block_jit_def Let_def load_def split: if_splits)
    ultimately show ?thesis by simp
  qed
qed

text \<open>
  The stack and the gas together. Whatever the machine does with the block, the emitted code does; it
  aborts exactly when the machine does.
\<close>

lemma block_jit_correct:
  assumes ok: "block_ok p" and hold: "slots_hold slots sz st" and gas: "gas_ok s"
  shows "case run_ref r p st s of
      None \<Rightarrow> block_jit r p slots sz s = None
    | Some (t, st', s') \<Rightarrow> \<exists>slots' sz'. block_jit r p slots sz s = Some (t, slots', sz', s') \<and>
        slots_hold slots' sz' st'"
proof -
  have p: "meterable False p" "list_all ev_ok (trace p)" "uniform p" "length (trace p) < 2 ^ 40"
    using ok by (simp_all add: block_ok_def)
  show ?thesis using block_jit_chk [OF p(2-4) hold, of r s] run_chk_run_ref [OF p gas, of r st] by simp
qed

end
