(* ===== verification/Compiler.thy ===== *)
theory Compiler
  imports Emit
begin

text \<open>
  The compiler: \<^verbatim>\<open>src/fastvm/libevmjit/Compiler.cpp\<close>.

  One definition per case of the switch of \<open>Compiler::compileBasicBlock\<close> gives the requests which
  that case makes of the local stack, the gas meter, the memory and the host
  (\<open>emit_SHA3\<close> and so on; the instructions that only compute a value take it from \<open>InstArith\<close>).
  \<open>compile_inst\<close> is the switch and \<open>compile_range\<close> the loop over the bytes of a block.
  \<open>createBasicBlocks\<close> cuts the code into blocks, \<open>jumpTable\<close> is the table to which every block
  that starts with JUMPDEST is added, and \<open>jit_step\<close> follows the branches between blocks as
  \<open>resolveJumps\<close> sets them. A constant destination is looked up in the same table at compile time and
  not at run time, which gives the same block.
\<close>

section \<open>Words on the stack\<close>

definition un :: "(i128 \<Rightarrow> i128) \<Rightarrow> 'h eprog" where
  "un f = Pop (\<lambda>a. Push (f a) Done)"

definition bin :: "(i128 \<Rightarrow> i128 \<Rightarrow> i128) \<Rightarrow> 'h eprog" where
  "bin f = Pop (\<lambda>a. Pop (\<lambda>b. Push (f a b) Done))"

definition ter :: "(i128 \<Rightarrow> i128 \<Rightarrow> i128 \<Rightarrow> i128) \<Rightarrow> 'h eprog" where
  "ter f = Pop (\<lambda>a. Pop (\<lambda>b. Pop (\<lambda>c. Push (f a b c) Done)))"

definition pushWord256 :: "i256 \<Rightarrow> 'h eprog \<Rightarrow> 'h eprog" where
  "pushWord256 w p = Push (ucast w) (Push (ucast (drop_bit 128 w)) p)"

definition popWord256 :: "(i256 \<Rightarrow> 'h eprog) \<Rightarrow> 'h eprog" where
  "popWord256 k = Pop (\<lambda>hi. Pop (\<lambda>lo. k (or (push_bit 128 (ucast hi)) (ucast lo))))"

primrec popWords :: "nat \<Rightarrow> i128 list \<Rightarrow> (i128 list \<Rightarrow> 'h eprog) \<Rightarrow> 'h eprog" where
  "popWords 0 ws k = k ws"
| "popWords (Suc n) ws k = Pop (\<lambda>w. popWords n (ws @ [w]) k)"

definition invalidInstruction :: "'h eprog" where
  "invalidInstruction = Terminate (Exit OutOfGas)"


section \<open>The instructions\<close>

definition emit_EXP :: "'h jit_env \<Rightarrow> 'h eprog" where
  "emit_EXP e = Pop (\<lambda>base. Pop (\<lambda>exponent. Do (countExp (m_rev e) exponent)
     (Push (exp_value (Runtime base) (Runtime exponent)) Done)))"

definition emit_SHA3 :: "'h jit_env \<Rightarrow> 'h eprog" where
  "emit_SHA3 e = Pop (\<lambda>inOff. Pop (\<lambda>inSize.
     Do (require e inOff (Runtime inSize)) (Do (countSha3Data inSize)
     (Ask (sha3 e inOff inSize) (\<lambda>hash. pushWord256 hash Done)))))"

definition emit_POP :: "'h eprog" where
  "emit_POP = Pop (\<lambda>_. Done)"

definition emit_PUSH :: "byte list \<Rightarrow> 'h eprog" where
  "emit_PUSH rest = (case readPushData rest of (width, v, _) \<Rightarrow>
     if 128 < width then pushWord256 v Done else Push (ucast v) Done)"

definition emit_DUP :: "'h jit_env \<Rightarrow> nat \<Rightarrow> 'h eprog" where
  "emit_DUP e n =
     (if BASE_DUP (DUP n) then Dup (n - 1) Done
      else if m_rev e < EVM_AION_V1 then invalidInstruction else Dup (n - 17 + 16) Done)"

definition emit_SWAP :: "'h jit_env \<Rightarrow> nat \<Rightarrow> 'h eprog" where
  "emit_SWAP e n =
     (if BASE_SWAP (SWAP n) then Swap (n - 1 + 1) Done
      else if m_rev e < EVM_AION_V1 then invalidInstruction else Swap (n - 17 + 17) Done)"

definition emit_MLOAD :: "'h jit_env \<Rightarrow> 'h eprog" where
  "emit_MLOAD e = Pop (\<lambda>addr. Do (loadWord_check e addr)
     (ask128 (mload_func e addr) (\<lambda>word. Push word Done)))"

definition emit_MSTORE :: "'h jit_env \<Rightarrow> 'h eprog" where
  "emit_MSTORE e = Pop (\<lambda>addr. Pop (\<lambda>word. Do (storeWord e addr word) Done))"

definition emit_MSTORE8 :: "'h jit_env \<Rightarrow> 'h eprog" where
  "emit_MSTORE8 e = Pop (\<lambda>addr. Pop (\<lambda>word. Do (storeByte e addr word) Done))"

definition emit_MSIZE :: "'h eprog" where
  "emit_MSIZE = ask128 getSize (\<lambda>word. Push word Done)"

definition emit_SLOAD :: "'h jit_env \<Rightarrow> 'h eprog" where
  "emit_SLOAD e = Pop (\<lambda>index. ask128 (sload e index) (\<lambda>v. Push v Done))"

definition countSStore :: "'h jit_env \<Rightarrow> i128 \<Rightarrow> i128 \<Rightarrow> 'h rt \<Rightarrow> 'h rt option" where
  "countSStore e index newValue s =
     (let oldValue = sload e index s in count64 (sstore_cost (m_rev e) oldValue newValue) s)"

definition emit_SSTORE :: "'h jit_env \<Rightarrow> 'h eprog" where
  "emit_SSTORE e =
     (if m_staticCall e then invalidInstruction
      else Pop (\<lambda>index. Pop (\<lambda>v. Do (countSStore e index v)
        (Do (\<lambda>s. Some (sstore e index v s)) Done))))"

definition emit_JUMP :: "'h eprog" where
  "emit_JUMP = Pop (\<lambda>destIdx. Terminate (Br destIdx))"

definition emit_JUMPI :: "'h eprog" where
  "emit_JUMPI = Pop (\<lambda>destIdx. Pop (\<lambda>c. Terminate (CondBr destIdx (c \<noteq> 0))))"

definition emit_PC :: "nat \<Rightarrow> 'h eprog" where
  "emit_PC it = Push (of_nat it) Done"

definition emit_GAS :: "'h eprog" where
  "emit_GAS = Commit (ask64 gas (\<lambda>g. Push (ucast g) Done))"

definition emit_ADDRESS :: "'h jit_env \<Rightarrow> 'h eprog" where
  "emit_ADDRESS e = pushWord256 (toNative (host_le e) (getAddress e)) Done"

definition emit_CALLER :: "'h jit_env \<Rightarrow> 'h eprog" where
  "emit_CALLER e = pushWord256 (toNative (host_le e) (getCaller e)) Done"

text \<open>An item of the transaction context is fetched and loaded at its type in the context.\<close>

definition getTxContextItem ::
  "'h jit_env \<Rightarrow> (evm_tx_context \<Rightarrow> 'a::len word) \<Rightarrow> ('a word \<Rightarrow> 'h eprog) \<Rightarrow> 'h eprog" where
  "getTxContextItem e f k =
     Do (\<lambda>s. Some (loadTxCtx e s)) (Ask (\<lambda>s. ucast (tx_item f s)) (\<lambda>w. k (ucast w)))"

definition emit_ORIGIN :: "'h jit_env \<Rightarrow> 'h eprog" where
  "emit_ORIGIN e = getTxContextItem e (\<lambda>c. from_ptr e (tx_origin c))
     (\<lambda>a. pushWord256 (toNative (host_le e) a) Done)"

definition emit_COINBASE :: "'h jit_env \<Rightarrow> 'h eprog" where
  "emit_COINBASE e = getTxContextItem e (\<lambda>c. from_ptr e (block_coinbase c))
     (\<lambda>a. pushWord256 (toNative (host_le e) a) Done)"

definition emit_GASPRICE :: "'h jit_env \<Rightarrow> 'h eprog" where
  "emit_GASPRICE e = getTxContextItem e (\<lambda>c. from_ptr e (tx_gas_price c))
     (\<lambda>v. Push (toNative (host_le e) v) Done)"

definition emit_DIFFICULTY :: "'h jit_env \<Rightarrow> 'h eprog" where
  "emit_DIFFICULTY e = getTxContextItem e (\<lambda>c. from_ptr e (block_difficulty c))
     (\<lambda>v. Push (toNative (host_le e) v) Done)"

definition emit_GASLIMIT :: "'h jit_env \<Rightarrow> 'h eprog" where
  "emit_GASLIMIT e = getTxContextItem e block_gas_limit (\<lambda>v. Push (ucast v) Done)"

definition emit_NUMBER :: "'h jit_env \<Rightarrow> 'h eprog" where
  "emit_NUMBER e = getTxContextItem e block_number (\<lambda>v. Push (ucast v) Done)"

definition emit_TIMESTAMP :: "'h jit_env \<Rightarrow> 'h eprog" where
  "emit_TIMESTAMP e = getTxContextItem e block_timestamp (\<lambda>v. Push (ucast v) Done)"

definition emit_CALLVALUE :: "'h jit_env \<Rightarrow> 'h eprog" where
  "emit_CALLVALUE e = Push (toNative (host_le e) (getValue e)) Done"

definition emit_RETURNDATASIZE :: "'h jit_env \<Rightarrow> 'h eprog" where
  "emit_RETURNDATASIZE e =
     (if m_rev e < EVM_BYZANTIUM then invalidInstruction
      else ask64 (\<lambda>s. of_nat (length (retbuf s))) (\<lambda>n. Push (ucast n) Done))"

definition emit_BLOCKHASH :: "'h jit_env \<Rightarrow> 'h eprog" where
  "emit_BLOCKHASH e = Pop (\<lambda>number.
     let isBigNumber = (ucast gasMax :: i128) < number
     in Ask (blockHash e number) (\<lambda>hash. pushWord256 (if isBigNumber then 0 else hash) Done))"

definition emit_BALANCE :: "'h jit_env \<Rightarrow> 'h eprog" where
  "emit_BALANCE e = popWord256 (\<lambda>addr. ask128 (balance e addr) (\<lambda>v. Push v Done))"

definition emit_EXTCODESIZE :: "'h jit_env \<Rightarrow> 'h eprog" where
  "emit_EXTCODESIZE e = popWord256 (\<lambda>addr. ask128 (extcodesize e addr) (\<lambda>v. Push v Done))"

definition emit_CALLDATACOPY :: "'h jit_env \<Rightarrow> 'h eprog" where
  "emit_CALLDATACOPY e = Pop (\<lambda>destMemIdx. Pop (\<lambda>srcIdx. Pop (\<lambda>reqBytes.
     Do (copyBytes e (getCallData e) (getCallDataSize e) srcIdx destMemIdx reqBytes) Done)))"

definition emit_RETURNDATACOPY :: "'h jit_env \<Rightarrow> 'h eprog" where
  "emit_RETURNDATACOPY e =
     (if m_rev e < EVM_BYZANTIUM then invalidInstruction
      else Pop (\<lambda>destMemIdx. Pop (\<lambda>srcIdx. Pop (\<lambda>reqBytes.
        Do (\<lambda>s. copyBytesNoPadding e (retbuf s) (of_nat (length (retbuf s))) srcIdx destMemIdx reqBytes s)
          Done))))"

definition emit_CODECOPY :: "'h jit_env \<Rightarrow> 'h eprog" where
  "emit_CODECOPY e = Pop (\<lambda>destMemIdx. Pop (\<lambda>srcIdx. Pop (\<lambda>reqBytes.
     Do (copyBytes e (getCode e) (getCodeSize e) srcIdx destMemIdx reqBytes) Done)))"

definition emit_EXTCODECOPY :: "'h jit_env \<Rightarrow> 'h eprog" where
  "emit_EXTCODECOPY e = popWord256 (\<lambda>addr. Pop (\<lambda>destMemIdx. Pop (\<lambda>srcIdx. Pop (\<lambda>reqBytes.
     Do (\<lambda>s. case extcode e addr s of (code, sz) \<Rightarrow>
           copyBytes e code sz srcIdx destMemIdx reqBytes s) Done))))"

definition emit_CALLDATALOAD :: "'h jit_env \<Rightarrow> 'h eprog" where
  "emit_CALLDATALOAD e = un (calldataload e)"

text \<open>CREATE passes on all gas but a 64th, and has what the new contract left of it added to that.\<close>

definition do_create :: "'h jit_env \<Rightarrow> i128 \<Rightarrow> i128 \<Rightarrow> i128 \<Rightarrow> 'h rt \<Rightarrow> 'h rt option" where
  "do_create e endowment initOff initSize s =
     (let gasKept = if m_rev e \<ge> EVM_TANGERINE_WHISTLE then drop_bit 6 (gas s) else 0;
          createGas = gas s - gasKept;
          s = ext_create e createGas endowment initOff initSize s;
          r = call_ret s;
          ret = 0 <=s r;
          rmagic = if ret then 0 else EVM_CALL_FAILURE;
          gasLeft = r - rmagic
      in Some (s\<lparr>gas := gasLeft + gasKept\<rparr>))"

definition emit_CREATE :: "'h jit_env \<Rightarrow> 'h eprog" where
  "emit_CREATE e =
     (if m_staticCall e then invalidInstruction
      else Pop (\<lambda>endowment. Pop (\<lambda>initOff. Pop (\<lambda>initSize.
        Do (require e initOff (Runtime initSize)) (Commit
        (Do (do_create e endowment initOff initSize)
        (Ask (\<lambda>s. if 0 <=s call_ret s then toNative (host_le e) (from_ptr e (pAddr s)) else 0)
          (\<lambda>addr. pushWord256 addr Done))))))))"

definition call_kind :: "Instruction \<Rightarrow> evm_call_kind" where
  "call_kind inst = (case inst of CALL \<Rightarrow> EVM_CALL | CALLCODE \<Rightarrow> EVM_CALLCODE
     | DELEGATECALL \<Rightarrow> EVM_DELEGATECALL | _ \<Rightarrow> EVM_STATICCALL)"

definition call_transfer_cost :: "'h jit_env \<Rightarrow> Instruction \<Rightarrow> i128 \<Rightarrow> i64" where
  "call_transfer_cost e inst val =
     (let noTransfer = val = 0;
          transferGas = if inst = CALL \<and> m_staticCall e then gasMax
            else if m_rev e \<ge> EVM_AION then 15000 else valueTransferGas schedule
      in if noTransfer then 0 else transferGas)"

definition call_penalty :: "'h jit_env \<Rightarrow> i256 \<Rightarrow> i128 \<Rightarrow> 'h rt \<Rightarrow> i64" where
  "call_penalty e addr val s =
     (let accountExists = exists e addr s;
          noPenaltyCond = if m_rev e \<ge> EVM_SPURIOUS_DRAGON then accountExists \<or> val = 0 else accountExists
      in if noPenaltyCond then 0 else callNewAccount schedule)"

definition call_gas :: "'h jit_env \<Rightarrow> i128 \<Rightarrow> 'h rt \<Rightarrow> i128" where
  "call_gas e declGas s =
     (if m_rev e \<ge> EVM_TANGERINE_WHISTLE
      then let gas64th = drop_bit 6 (gas s);
               gasMaxAllowed = ucast (gas s - gas64th)
           in if gasMaxAllowed < declGas then gasMaxAllowed else declGas
      else declGas)"

text \<open>The call itself, when its gas has been charged: the stipend is added, what is left given back.\<close>

definition call_leave ::
  "'h jit_env \<Rightarrow> Instruction \<Rightarrow> i128 \<Rightarrow> i256 \<Rightarrow> i128 \<Rightarrow> i128 \<Rightarrow> i128 \<Rightarrow> i128 \<Rightarrow> i128 \<Rightarrow> 'h rt \<Rightarrow> 'h rt" where
  "call_leave e inst declGas addr val inOff inSize outOff outSize s =
     (let stipend = if val = 0 then 0 else callStipend schedule;
          g = ucast declGas + stipend;
          s = ext_call e (call_kind inst) g addr val inOff inSize outOff outSize s;
          r = call_ret s;
          ret = 0 <=s r;
          rmagic = if ret then 0 else EVM_CALL_FAILURE;
          finalGas = r - rmagic
      in giveBack finalGas s)"

definition do_call ::
  "'h jit_env \<Rightarrow> Instruction \<Rightarrow> i128 \<Rightarrow> i256 \<Rightarrow> i128 \<Rightarrow> i128 \<Rightarrow> i128 \<Rightarrow> i128 \<Rightarrow> i128 \<Rightarrow> 'h rt \<Rightarrow> 'h rt option" where
  "do_call e inst declGas addr val inOff inSize outOff outSize s =
     Option.bind (require e outOff (Runtime outSize) s) (\<lambda>s.
     Option.bind (require e inOff (Runtime inSize) s) (\<lambda>s.
     Option.bind (count64 (call_transfer_cost e inst val) s) (\<lambda>s.
     Option.bind (if inst = CALL then count64 (call_penalty e addr val s) s else Some s) (\<lambda>s.
       let declGas = call_gas e declGas s in
     Option.bind (count128 declGas s) (\<lambda>s.
       Some (call_leave e inst declGas addr val inOff inSize outOff outSize s))))))"

definition emit_CALL :: "'h jit_env \<Rightarrow> Instruction \<Rightarrow> 'h eprog" where
  "emit_CALL e inst =
     (let hasValue = inst = CALL \<or> inst = CALLCODE;
          popValue = \<lambda>k. if hasValue then Pop k else k 0
      in if inst = DELEGATECALL \<and> m_rev e < EVM_HOMESTEAD then invalidInstruction
         else if inst = STATICCALL \<and> m_rev e < EVM_BYZANTIUM then invalidInstruction
         else Pop (\<lambda>declGas. popWord256 (\<lambda>addr. popValue (\<lambda>val.
           Pop (\<lambda>inOff. Pop (\<lambda>inSize. Pop (\<lambda>outOff. Pop (\<lambda>outSize. Commit
             (Do (do_call e inst declGas addr val inOff inSize outOff outSize)
             (ask128 (\<lambda>s. zext1 (0 <=s call_ret s)) (\<lambda>ret. Push ret Done)))))))))))"

definition emit_RETURN :: "'h jit_env \<Rightarrow> Instruction \<Rightarrow> 'h eprog" where
  "emit_RETURN e inst =
     (if inst = REVERT \<and> m_rev e < EVM_BYZANTIUM then invalidInstruction
      else Pop (\<lambda>index. Pop (\<lambda>sz.
        Do (require e index (Runtime sz)) (Do (\<lambda>s. Some (registerReturnData index sz s))
        (Terminate (Exit (if inst = REVERT then Revert else Return)))))))"

definition selfdestruct_penalty :: "'h jit_env \<Rightarrow> i256 \<Rightarrow> 'h rt \<Rightarrow> i64" where
  "selfdestruct_penalty e dest s =
     (let destExists = exists e dest s;
          addr = toNative (host_le e) (getAddress e);
          noTransfer = balance e addr s = 0;
          noPenaltyCond = if m_rev e \<ge> EVM_SPURIOUS_DRAGON then destExists \<or> noTransfer else destExists
      in if noPenaltyCond then 0 else callNewAccount schedule)"

definition emit_SELFDESTRUCT :: "'h jit_env \<Rightarrow> 'h eprog" where
  "emit_SELFDESTRUCT e =
     (if m_staticCall e then invalidInstruction
      else popWord256 (\<lambda>dest.
        Do (\<lambda>s. if m_rev e \<ge> EVM_TANGERINE_WHISTLE then count64 (selfdestruct_penalty e dest s) s else Some s)
        (Do (\<lambda>s. Some (ext_selfdestruct e dest s)) (Terminate (Exit Stop)))))"

definition emit_LOG :: "'h jit_env \<Rightarrow> nat \<Rightarrow> 'h eprog" where
  "emit_LOG e numTopics =
     (if m_staticCall e then invalidInstruction
      else Pop (\<lambda>beginIdx. Pop (\<lambda>len.
        Do (require e beginIdx (Runtime len)) (Do (countLogData (m_rev e) len)
        (popWords (2 * numTopics) [] (\<lambda>topics.
          Do (\<lambda>s. Some (ext_log e beginIdx len topics s)) Done))))))"

primrec compile_inst :: "Instruction \<Rightarrow> 'h jit_env \<Rightarrow> nat \<Rightarrow> byte list \<Rightarrow> 'h eprog" where
  "compile_inst ADD e it rest = bin inst_ADD"
| "compile_inst SUB e it rest = bin inst_SUB"
| "compile_inst MUL e it rest = bin inst_MUL"
| "compile_inst DIV e it rest = bin (inst_DIV (div_undef e))"
| "compile_inst SDIV e it rest = bin (inst_SDIV (div_undef e))"
| "compile_inst MOD e it rest = bin (inst_MOD (div_undef e))"
| "compile_inst SMOD e it rest = bin (inst_SMOD (div_undef e))"
| "compile_inst ADDMOD e it rest = ter (inst_ADDMOD (div_undef e))"
| "compile_inst MULMOD e it rest = ter (inst_MULMOD (div_undef e))"
| "compile_inst EXP e it rest = emit_EXP e"
| "compile_inst Instruction.NOT e it rest = un inst_NOT"
| "compile_inst LT e it rest = bin inst_LT"
| "compile_inst GT e it rest = bin inst_GT"
| "compile_inst SLT e it rest = bin inst_SLT"
| "compile_inst SGT e it rest = bin inst_SGT"
| "compile_inst EQ e it rest = bin inst_EQ"
| "compile_inst ISZERO e it rest = un inst_ISZERO"
| "compile_inst Instruction.AND e it rest = bin inst_AND"
| "compile_inst Instruction.OR e it rest = bin inst_OR"
| "compile_inst Instruction.XOR e it rest = bin inst_XOR"
| "compile_inst BYTE e it rest = bin (inst_BYTE (host_le e))"
| "compile_inst SIGNEXTEND e it rest = bin inst_SIGNEXTEND"
| "compile_inst SHA3 e it rest = emit_SHA3 e"
| "compile_inst POP e it rest = emit_POP"
| "compile_inst (PUSH n) e it rest = emit_PUSH rest"
| "compile_inst (DUP n) e it rest = emit_DUP e n"
| "compile_inst (SWAP n) e it rest = emit_SWAP e n"
| "compile_inst MLOAD e it rest = emit_MLOAD e"
| "compile_inst MSTORE e it rest = emit_MSTORE e"
| "compile_inst MSTORE8 e it rest = emit_MSTORE8 e"
| "compile_inst MSIZE e it rest = emit_MSIZE"
| "compile_inst SLOAD e it rest = emit_SLOAD e"
| "compile_inst SSTORE e it rest = emit_SSTORE e"
| "compile_inst JUMP e it rest = emit_JUMP"
| "compile_inst JUMPI e it rest = emit_JUMPI"
| "compile_inst JUMPDEST e it rest = Done"
| "compile_inst PC e it rest = emit_PC it"
| "compile_inst GAS e it rest = emit_GAS"
| "compile_inst ADDRESS e it rest = emit_ADDRESS e"
| "compile_inst CALLER e it rest = emit_CALLER e"
| "compile_inst ORIGIN e it rest = emit_ORIGIN e"
| "compile_inst COINBASE e it rest = emit_COINBASE e"
| "compile_inst GASPRICE e it rest = emit_GASPRICE e"
| "compile_inst DIFFICULTY e it rest = emit_DIFFICULTY e"
| "compile_inst GASLIMIT e it rest = emit_GASLIMIT e"
| "compile_inst NUMBER e it rest = emit_NUMBER e"
| "compile_inst TIMESTAMP e it rest = emit_TIMESTAMP e"
| "compile_inst CALLVALUE e it rest = emit_CALLVALUE e"
| "compile_inst CODESIZE e it rest = Push (getCodeSize e) Done"
| "compile_inst CALLDATASIZE e it rest = Push (getCallDataSize e) Done"
| "compile_inst RETURNDATASIZE e it rest = emit_RETURNDATASIZE e"
| "compile_inst BLOCKHASH e it rest = emit_BLOCKHASH e"
| "compile_inst BALANCE e it rest = emit_BALANCE e"
| "compile_inst EXTCODESIZE e it rest = emit_EXTCODESIZE e"
| "compile_inst CALLDATACOPY e it rest = emit_CALLDATACOPY e"
| "compile_inst RETURNDATACOPY e it rest = emit_RETURNDATACOPY e"
| "compile_inst CODECOPY e it rest = emit_CODECOPY e"
| "compile_inst EXTCODECOPY e it rest = emit_EXTCODECOPY e"
| "compile_inst CALLDATALOAD e it rest = emit_CALLDATALOAD e"
| "compile_inst CREATE e it rest = emit_CREATE e"
| "compile_inst CALL e it rest = emit_CALL e CALL"
| "compile_inst CALLCODE e it rest = emit_CALL e CALLCODE"
| "compile_inst DELEGATECALL e it rest = emit_CALL e DELEGATECALL"
| "compile_inst STATICCALL e it rest = emit_CALL e STATICCALL"
| "compile_inst RETURN e it rest = emit_RETURN e RETURN"
| "compile_inst REVERT e it rest = emit_RETURN e REVERT"
| "compile_inst SELFDESTRUCT e it rest = emit_SELFDESTRUCT e"
| "compile_inst STOP e it rest = Terminate (Exit Stop)"
| "compile_inst (LOG n) e it rest = emit_LOG e n"
| "compile_inst (INVALID b) e it rest = invalidInstruction"

text \<open>
  The loop of \<open>compileBasicBlock\<close> from the byte at \<open>it\<close> up to the end of the block. An invalid
  instruction ends the block, which is what the sequence does after a terminator.
\<close>

definition inst_end :: "Instruction \<Rightarrow> nat \<Rightarrow> byte list \<Rightarrow> nat" where
  "inst_end inst it rest = (case inst of PUSH n \<Rightarrow> it + snd (snd (readPushData rest)) | _ \<Rightarrow> it)"

function compile_range :: "'h jit_env \<Rightarrow> nat \<Rightarrow> nat \<Rightarrow> 'h eprog" where
  "compile_range e it fin =
     (if fin \<le> it then Done
      else let rest = drop it (take fin (m_code e));
               inst = decode (hd rest)
           in Count inst (seq (compile_inst inst e it rest)
                (compile_range e (inst_end inst it rest + 1) fin)))"
  by pat_completeness auto
termination
  by (relation "measure (\<lambda>(e, it, fin). fin - it)") (auto simp: inst_end_def split: Instruction.splits)

declare compile_range.simps [simp del]


section \<open>Blocks and jumps\<close>

record BasicBlock =
  m_firstInstrIdx :: nat
  m_end :: nat

definition compileBasicBlock :: "'h jit_env \<Rightarrow> BasicBlock \<Rightarrow> 'h eprog" where
  "compileBasicBlock e b = compile_range e (m_firstInstrIdx b) (m_end b)"

definition next_inst :: "byte list \<Rightarrow> nat \<Rightarrow> nat" where
  "next_inst code cur = cur + skipPushDataAndGetNext (drop cur code)"

definition inst_at :: "byte list \<Rightarrow> nat \<Rightarrow> Instruction" where
  "inst_at code i = decode (code ! i)"

definition ends_dead :: "Instruction \<Rightarrow> bool" where
  "ends_dead inst = (inst \<in> {JUMP, RETURN, REVERT, STOP, SELFDESTRUCT})"

function blocks_from :: "byte list \<Rightarrow> nat \<Rightarrow> nat \<Rightarrow> bool \<Rightarrow> BasicBlock list" where
  "blocks_from code cur start isDead =
     (if length code \<le> cur then []
      else let nxt = next_inst code cur;
               inst = inst_at code cur
           in if isDead \<and> inst \<noteq> JUMPDEST then blocks_from code nxt start True
              else let start = if isDead then cur else start;
                       isDead = ends_dead inst;
                       isEnd = isDead \<or> inst = JUMPI \<or> nxt = length code \<or> inst_at code nxt = JUMPDEST
                   in if isEnd
                      then \<lparr>m_firstInstrIdx = start, m_end = nxt\<rparr> # blocks_from code nxt nxt isDead
                      else blocks_from code nxt start isDead)"
  by pat_completeness auto
termination
  by (relation "measure (\<lambda>(code, cur, start, isDead). length code - cur)")
    (use skipPushDataAndGetNext_pos in \<open>auto simp: next_inst_def diff_less_mono2\<close>)

declare blocks_from.simps [simp del]

definition createBasicBlocks :: "byte list \<Rightarrow> BasicBlock list" where
  "createBasicBlocks code = blocks_from code 0 0 False"

text \<open>The switch of the jump table: its cases, with the number of the block each one leads to.\<close>

definition jumpTable :: "byte list \<Rightarrow> (i128 \<times> nat) list" where
  "jumpTable code =
     [(of_nat (m_firstInstrIdx b), k). (k, b) \<leftarrow> enumerate 0 (createBasicBlocks code),
        inst_at code (m_firstInstrIdx b) = JUMPDEST]"


section \<open>Running the compiled code\<close>

datatype 'h outcome = Exited ReturnCode "'h rt" | Aborted

datatype 'h jit_config =
    InBlock nat "int \<Rightarrow> i128" i64 "'h rt"
  | JitDone "'h outcome"

definition jit_jump :: "'h jit_env \<Rightarrow> i128 \<Rightarrow> (int \<Rightarrow> i128) \<Rightarrow> i64 \<Rightarrow> 'h rt \<Rightarrow> 'h jit_config" where
  "jit_jump e d slots sz s =
     (case map_of (jumpTable (m_code e)) d of
        None \<Rightarrow> JitDone Aborted
      | Some k \<Rightarrow> InBlock k slots sz s)"

text \<open>
  From one block to the next. Behind the last block stands the block that stops; the branch to the
  block that aborts, and an abort in the middle of a block, are both \<open>Aborted\<close>.
\<close>

fun jit_step :: "'h jit_env \<Rightarrow> 'h jit_config \<Rightarrow> 'h jit_config" where
  "jit_step e (JitDone x) = JitDone x"
| "jit_step e (InBlock k slots sz s) =
     (let blocks = createBasicBlocks (m_code e)
      in if length blocks \<le> k then JitDone (Exited Stop s)
         else case block_jit (m_rev e) (compileBasicBlock e (blocks ! k)) slots sz s of
             None \<Rightarrow> JitDone Aborted
           | Some (Fall, slots', sz', s') \<Rightarrow> InBlock (k + 1) slots' sz' s'
           | Some (Br d, slots', sz', s') \<Rightarrow> jit_jump e d slots' sz' s'
           | Some (CondBr d c, slots', sz', s') \<Rightarrow>
               if c then jit_jump e d slots' sz' s' else InBlock (k + 1) slots' sz' s'
           | Some (Exit rc, slots', sz', s') \<Rightarrow> JitDone (Exited rc s'))"

definition jit_main :: "'h jit_env \<Rightarrow> nat \<Rightarrow> (int \<Rightarrow> i128) \<Rightarrow> 'h rt \<Rightarrow> 'h jit_config" where
  "jit_main e fuel slots s = (jit_step e ^^ fuel) (InBlock 0 slots 0 s)"


section \<open>The machine\<close>

text \<open>
  The instruction set as a machine that takes one instruction at a time: it pays for it, and its stack
  and its gas are checked by that instruction alone. Jumps go to the JUMPDEST instructions that
  are not push data.
\<close>

function inst_starts :: "byte list \<Rightarrow> nat \<Rightarrow> nat list" where
  "inst_starts code i =
     (if length code \<le> i then [] else i # inst_starts code (next_inst code i))"
  by pat_completeness auto
termination
  by (relation "measure (\<lambda>(code, i). length code - i)")
    (use skipPushDataAndGetNext_pos in \<open>auto simp: next_inst_def diff_less_mono2\<close>)

declare inst_starts.simps [simp del]

definition valid_dest :: "byte list \<Rightarrow> i128 \<Rightarrow> bool" where
  "valid_dest code d \<longleftrightarrow> unat d \<in> set (inst_starts code 0) \<and> inst_at code (unat d) = JUMPDEST"

datatype 'h config =
    Running nat "i128 list" "'h rt"
  | Halted "'h outcome"

definition evm_jump :: "'h jit_env \<Rightarrow> i128 \<Rightarrow> i128 list \<Rightarrow> 'h rt \<Rightarrow> 'h config" where
  "evm_jump e d st s =
     (if valid_dest (m_code e) d then Running (unat d) st s else Halted Aborted)"

definition evm_inst :: "'h jit_env \<Rightarrow> nat \<Rightarrow> 'h eprog" where
  "evm_inst e pc =
     (let inst = inst_at (m_code e) pc
      in Count inst (compile_inst inst e pc (drop pc (m_code e))))"

fun evm_step :: "'h jit_env \<Rightarrow> 'h config \<Rightarrow> 'h config" where
  "evm_step e (Halted x) = Halted x"
| "evm_step e (Running pc st s) =
     (if length (m_code e) \<le> pc then Halted (Exited Stop s)
      else case run_ref (m_rev e) (evm_inst e pc) st s of
          None \<Rightarrow> Halted Aborted
        | Some (Fall, st', s') \<Rightarrow> Running (next_inst (m_code e) pc) st' s'
        | Some (Br d, st', s') \<Rightarrow> evm_jump e d st' s'
        | Some (CondBr d c, st', s') \<Rightarrow>
            if c then evm_jump e d st' s' else Running (next_inst (m_code e) pc) st' s'
        | Some (Exit rc, st', s') \<Rightarrow> Halted (Exited rc s'))"

end
