(* ===== verification/Metered.thy ===== *)
theory Metered
  imports EmitCorrect Compiler
begin

text \<open>
  Every operation of the generated code treats gas as the emitted programs need it: the
  operations inside a cost block are metered, the values they read do not depend on the gas, and the
  calls, which do, stand outside of cost blocks and leave no more gas than they found.
\<close>

named_theorems metered_intro "operations that only charge gas"
named_theorems blind_simps "operations that do not touch gas"

section \<open>Laws\<close>

lemma metered_charge:
  assumes "\<And>s. 0 \<le> sint (c s)" "\<And>s g. c (s\<lparr>gas := g\<rparr>) = c s"
  shows "metered (\<lambda>s. gas_check (c s) s)"
  unfolding metered_def
proof (intro conjI allI impI)
  show "spends (\<lambda>s. gas_check (c s) s)"
    unfolding spends_def
  proof (intro allI impI)
    fix s s' assume a: "gas_ok s \<and> gas_check (c s) s = Some s'"
    then have "sint (c s) \<le> sint (gas s)" "s' = s\<lparr>gas := gas s - c s\<rparr>"
      using assms(1) by (auto simp: gas_check_iff gas_ok_def split: if_splits)
    then show "gas_ok s' \<and> sint (gas s') \<le> sint (gas s)"
      using gas_ok_minus [of s "c s"] a assms(1) by simp
  qed
next
  fix s :: "'a rt" and d :: i64
  assume a: "gas_ok s \<and> 0 \<le> sint d \<and> sint d \<le> sint (gas s)"
  then have d: "gas_ok (s\<lparr>gas := gas s - d\<rparr>)" "sint (gas s - d) = sint (gas s) - sint d"
    using gas_ok_minus by blast+
  have "sint (c s) \<le> sint (gas s) \<Longrightarrow> sint (gas s - c s) = sint (gas s) - sint (c s)"
    using gas_ok_minus [of s "c s"] a assms(1) by blast
  then show "gas_check (c (s\<lparr>gas := gas s - d\<rparr>)) (s\<lparr>gas := gas s - d\<rparr>) =
      (case gas_check (c s) s of None \<Rightarrow> None
       | Some s' \<Rightarrow> if sint d \<le> sint (gas s') then Some (s'\<lparr>gas := gas s' - d\<rparr>) else None)"
    using a d assms by (auto simp: gas_check_iff gas_ok_def algebra_simps)
qed

lemma metered_update [metered_intro]:
  assumes "\<And>s g. f (s\<lparr>gas := g\<rparr>) = (f s)\<lparr>gas := g\<rparr>"
  shows "metered (\<lambda>s. Some (f s))"
proof -
  have "gas (f s) = gas s" for s
  proof -
    have "gas (f s) = gas (f (s\<lparr>gas := gas s\<rparr>))" by simp
    also have "\<dots> = gas s" by (subst assms) simp
    finally show ?thesis .
  qed
  then show ?thesis
    using assms by (simp add: metered_def spends_def gas_ok_def)
qed

lemma metered_spendsD:
  assumes "metered f" "gas_ok s" "f s = Some s'"
  shows "gas_ok s' \<and> sint (gas s') \<le> sint (gas s)"
  using assms by (auto simp: metered_def spends_def)

lemma metered_bind [metered_intro]:
  assumes f: "metered f" and g: "metered g"
  shows "metered (\<lambda>s. Option.bind (f s) g)"
  unfolding metered_def
proof (intro conjI allI impI)
  show "spends (\<lambda>s. Option.bind (f s) g)"
    unfolding spends_def
  proof (intro allI impI)
    fix s s' assume a: "gas_ok s \<and> Option.bind (f s) g = Some s'"
    then obtain s1 where "f s = Some s1" "g s1 = Some s'" by (auto simp: bind_eq_Some_conv)
    then show "gas_ok s' \<and> sint (gas s') \<le> sint (gas s)"
      using a metered_spendsD [OF f, of s s1] metered_spendsD [OF g, of s1 s'] by simp
  qed
next
  fix s :: "'a rt" and d :: i64
  assume a: "gas_ok s \<and> 0 \<le> sint d \<and> sint d \<le> sint (gas s)"
  show "Option.bind (f (s\<lparr>gas := gas s - d\<rparr>)) g =
      (case Option.bind (f s) g of None \<Rightarrow> None
       | Some s' \<Rightarrow> if sint d \<le> sint (gas s') then Some (s'\<lparr>gas := gas s' - d\<rparr>) else None)"
  proof (cases "f s")
    case None
    then show ?thesis using metered_less [OF f, of s d] a by simp
  next
    case (Some s1)
    then have s1: "gas_ok s1" using metered_spendsD [OF f] a by blast
    show ?thesis
    proof (cases "g s1")
      case None
      with Some show ?thesis
        using metered_less [OF f, of s d] metered_less [OF g, of s1 d] a s1 by simp
    next
      case (Some s2)
      moreover have "sint (gas s2) \<le> sint (gas s1)" using metered_spendsD [OF g s1 Some] by simp
      ultimately show ?thesis
        using \<open>f s = Some s1\<close> metered_less [OF f, of s d] metered_less [OF g, of s1 d] a s1 by simp
    qed
  qed
qed

lemma metered_read:
  assumes "\<And>v. metered (f v)" "\<And>s g. v (s\<lparr>gas := g\<rparr>) = v s"
  shows "metered (\<lambda>s. f (v s) s)"
  using assms unfolding metered_def spends_def by auto

lemma metered_None [metered_intro]: "metered (\<lambda>s. None)"
  by (simp add: metered_def spends_def)

lemma metered_if:
  assumes "metered f" "metered g" "\<And>s d. b (s\<lparr>gas := d\<rparr>) = b s"
  shows "metered (\<lambda>s. if b s then f s else g s)"
  using metered_read [of "\<lambda>v. if v then f else g" b] assms by (simp add: if_distribR)

lemma gas_ok_lt:
  assumes "gas_ok s"
  shows "sint (gas s) < 2 ^ 63 - 1"
proof -
  have "sint (gas s) \<noteq> sint gasMax" using assms by (simp add: gas_ok_def sint64_inj)
  then show ?thesis using sint64_range [of "gas s"] by (simp add: gasMax_sint)
qed

lemma metered_spends [metered_intro]: "metered f \<Longrightarrow> spends f"
  by (simp add: metered_def)


section \<open>The operations\<close>

lemma metered_count64:
  assumes "\<And>s. 0 \<le> sint (c s)" "\<And>s g. c (s\<lparr>gas := g\<rparr>) = c s"
  shows "metered (\<lambda>s. count64 (c s) s)"
  using metered_charge [of c] assms by (simp add: count64_def)

lemma metered_count64_const: "0 \<le> sint c \<Longrightarrow> metered (count64 c)"
  using metered_count64 [of "\<lambda>_. c"] by simp

lemma count128_cost_nonneg:
  "0 \<le> sint (if (ucast gasMax :: i128) < c then gasMax else ucast c)"
proof (cases "(ucast gasMax :: i128) < c")
  case False
  then have "uint c < 2 ^ 63" by (simp add: word_less_def gasMax_def)
  then have "uint (ucast c :: i64) < 2 ^ 63"
    by (simp add: unsigned_ucast_eq take_bit_int_eq_self)
  then show ?thesis using False by (simp add: sint64_small)
qed (simp add: gasMax_sint)

lemma metered_count128 [metered_intro]: "metered (count128 c)"
  using metered_charge [of "\<lambda>_. if (ucast gasMax :: i128) < c then gasMax else ucast c"]
    count128_cost_nonneg by (simp add: count128_def)

lemma metered_countExp [metered_intro]: "metered (countExp r x)"
  unfolding countExp_def by (intro metered_count64_const countExp_cost_range)

lemma metered_countLogData [metered_intro]: "metered (countLogData r n)"
  unfolding countLogData_def by (rule metered_count128)

lemma words_nonneg: "0 \<le> sint (3 * ((x :: i64) div 32))" "0 \<le> sint (6 * ((x :: i64) div 32))"
proof -
  have "unat x < 2 ^ 64" using unsigned_less [of x] by simp
  then have "unat (x div 32) < 2 ^ 59" by (simp add: unat_div less_mult_imp_div_less)
  then have "unat (3 * (x div 32)) < 2 ^ 63" "unat (6 * (x div 32)) < 2 ^ 63"
    by (simp_all add: unat_word_ariths)
  then show "0 \<le> sint (3 * (x div 32))" "0 \<le> sint (6 * (x div 32))"
    by (simp_all add: sint64_of_unat)
qed

lemma sha3_cost_nonneg: "0 \<le> sint (sha3_cost n)"
  by (simp add: sha3_cost_def Let_def words_nonneg schedule_def)

lemma metered_countSha3Data [metered_intro]: "metered (countSha3Data n)"
  unfolding countSha3Data_def by (rule metered_count64_const [OF sha3_cost_nonneg])

lemma copy_cost_nonneg:
  "0 \<le> sint ((x :: i64) div 32 * copyGas schedule)" "0 \<le> sint (gasMax * copyGas schedule)"
  using words_nonneg(1) [of x] by (simp_all add: schedule_def mult.commute gasMax_def)

text \<open>Growth of the memory is charged with the difference of two costs, which is never negative.\<close>

definition req_size :: "i128 \<Rightarrow> i128 \<Rightarrow> i64" where
  "req_size off sz =
     and ((if off \<le> ucast c_inputMax then ucast off else c_inputMax) +
       (if sz \<le> ucast c_inputMax then ucast sz else c_inputMax) + 31) (push_bit 5 (- 1))"

definition req_cost :: "evm_revision \<Rightarrow> i128 \<Rightarrow> i128 \<Rightarrow> i64 \<Rightarrow> i64" where
  "req_cost r off sz cur =
     (if off \<le> ucast c_inputMax \<and> sz \<le> ucast c_inputMax
      then mem_words_cost r (drop_bit 5 (req_size off sz)) - mem_words_cost r (drop_bit 5 cur)
      else gasMax)"

lemma unat_clamp:
  "unat (if (w :: i128) \<le> ucast c_inputMax then ucast w else c_inputMax :: i64) \<le> 2 ^ 33"
proof (cases "w \<le> ucast c_inputMax")
  case True
  then have "unat w \<le> 2 ^ 33" by (simp only: word_le_nat_alt unat_c_inputMax)
  then show ?thesis using True by (simp add: unat_ucast_small)
qed (simp add: unat_c_inputMax)

lemma req_cost_nonneg:
  assumes "cur < req_size off sz"
  shows "0 \<le> sint (req_cost r off sz cur)"
proof -
  let ?o = "if off \<le> ucast c_inputMax then ucast off else c_inputMax :: i64"
  let ?s = "if sz \<le> ucast c_inputMax then ucast sz else c_inputMax :: i64"
  have "unat (req_size off sz) = 32 * ((unat ?o + unat ?s + 31) div 32)"
    unfolding req_size_def by (rule sizeReq_eq [OF unat_clamp unat_clamp])
  moreover have "(unat ?o + unat ?s + 31) div 32 \<le> (2 ^ 34 + 31) div 32"
    using unat_clamp [of off] unat_clamp [of sz] by (intro div_le_mono) simp
  ultimately have "unat (drop_bit 5 (req_size off sz)) \<le> 2 ^ 29"
    by (simp add: unat_drop_bit)
  moreover have "unat (drop_bit 5 cur) \<le> unat (drop_bit 5 (req_size off sz))"
    using assms by (simp add: unat_drop_bit word_less_nat_alt div_le_mono)
  ultimately have "0 \<le> sint (mem_words_cost r (drop_bit 5 (req_size off sz)) - mem_words_cost r (drop_bit 5 cur))"
    using grow_cost(2) by simp
  then show ?thesis by (simp add: req_cost_def gasMax_sint)
qed

lemma mem_require_req:
  "mem_require e off sz =
     (\<lambda>s. if sz = 0 \<or> req_size off sz \<le> arr_size (mem s) then Some s
       else Option.bind (count64 (if req_size off sz \<le> arr_size (mem s) then 0
           else req_cost (m_rev e) off sz (arr_size (mem s))) s)
         (\<lambda>s. Some (s\<lparr>mem := array_extend (junk_byte e) (req_size off sz) (mem s)\<rparr>)))"
  unfolding mem_require_def Let_def array_size_def req_size_def [symmetric] req_cost_def
  by (rule ext) auto

lemma metered_mem_require: "metered (mem_require e off sz)"
  unfolding mem_require_req
  by (intro metered_if metered_bind metered_update metered_count64)
    (auto simp: not_le intro: req_cost_nonneg)

lemma metered_require [metered_intro]: "metered (require e off v)"
  using metered_mem_require [of e off "val_of v"] by (simp add: require_eq [abs_def])


lemma reads_blind [blind_simps]:
  "sha3 e x y (s\<lparr>gas := g\<rparr>) = sha3 e x y s"
  "mload_func e x (s\<lparr>gas := g\<rparr>) = mload_func e x s"
  "getSize (s\<lparr>gas := g\<rparr>) = getSize s"
  "sload e x (s\<lparr>gas := g\<rparr>) = sload e x s"
  "blockHash e x (s\<lparr>gas := g\<rparr>) = blockHash e x s"
  "balance e a (s\<lparr>gas := g\<rparr>) = balance e a s"
  "exists e a (s\<lparr>gas := g\<rparr>) = exists e a s"
  "extcode e a (s\<lparr>gas := g\<rparr>) = extcode e a s"
  "extcodesize e a (s\<lparr>gas := g\<rparr>) = extcodesize e a s"
  "tx_item f (s\<lparr>gas := g\<rparr>) = tx_item f s"
  "getBytes e x n (s\<lparr>gas := g\<rparr>) = getBytes e x n s"
  by (simp_all add: sha3_def mload_func_def getSize_def sload_def blockHash_def balance_def
      exists_def extcode_def extcodesize_def tx_item_def getBytes_def)

lemma updates_blind [blind_simps]:
  "poke i bs (s\<lparr>gas := g\<rparr>) = (poke i bs s)\<lparr>gas := g\<rparr>"
  "mstore_func e x v (s\<lparr>gas := g\<rparr>) = (mstore_func e x v s)\<lparr>gas := g\<rparr>"
  "mstore8_func x b (s\<lparr>gas := g\<rparr>) = (mstore8_func x b s)\<lparr>gas := g\<rparr>"
  "loadTxCtx e (s\<lparr>gas := g\<rparr>) = (loadTxCtx e s)\<lparr>gas := g\<rparr>"
  "sstore e x v (s\<lparr>gas := g\<rparr>) = (sstore e x v s)\<lparr>gas := g\<rparr>"
  "ext_selfdestruct e a (s\<lparr>gas := g\<rparr>) = (ext_selfdestruct e a s)\<lparr>gas := g\<rparr>"
  "ext_log e x y ts (s\<lparr>gas := g\<rparr>) = (ext_log e x y ts s)\<lparr>gas := g\<rparr>"
  "registerReturnData x y (s\<lparr>gas := g\<rparr>) = (registerReturnData x y s)\<lparr>gas := g\<rparr>"
  by (simp_all add: poke_def mstore_func_def mstore8_func_def loadTxCtx_def sstore_def Let_def
      ext_selfdestruct_def ext_log_def registerReturnData_def getBytes_def split: option.splits)

lemma metered_Some [metered_intro]: "metered Some"
  using metered_update [of "\<lambda>s. s"] by simp

lemma metered_loadWord_check [metered_intro]: "metered (loadWord_check e a)"
  unfolding loadWord_check_def by (rule metered_require)

lemma metered_storeWord [metered_intro]: "metered (storeWord e a w)"
  unfolding storeWord_def [abs_def] by (intro metered_intro) (simp add: blind_simps)

lemma metered_storeByte [metered_intro]: "metered (storeByte e a w)"
  unfolding storeByte_def [abs_def] by (intro metered_intro) (simp add: blind_simps)

lemma metered_countCopy: "0 \<le> sint (c * copyGas schedule) \<Longrightarrow> metered (countCopy c)"
  unfolding countCopy_def by (rule metered_count64_const)

lemma metered_copyBytes [metered_intro]: "metered (copyBytes e src n x d q)"
  unfolding copyBytes_def [abs_def] Let_def
  by (intro metered_intro metered_countCopy copy_cost_nonneg) (simp add: blind_simps)

lemma metered_copyBytesNoPadding: "metered (copyBytesNoPadding e src n x d q)"
  unfolding copyBytesNoPadding_def [abs_def] Let_def
  by (intro metered_intro metered_countCopy) (auto simp: copy_cost_nonneg blind_simps)

lemma metered_returndatacopy [metered_intro]:
  "metered (\<lambda>s. copyBytesNoPadding e (retbuf s) (of_nat (length (retbuf s))) x d q s)"
  using metered_read [of "\<lambda>b. copyBytesNoPadding e b (of_nat (length b)) x d q" retbuf]
  by (simp add: metered_copyBytesNoPadding)

lemma metered_extcodecopy [metered_intro]:
  "metered (\<lambda>s. case extcode e a s of (code, sz) \<Rightarrow> copyBytes e code sz x d q s)"
  using metered_read [of "\<lambda>(code, sz). copyBytes e code sz x d q" "extcode e a"]
  by (simp add: metered_copyBytes blind_simps case_prod_beta)

lemma sstore_cost_nonneg: "0 \<le> sint (sstore_cost r a b)"
  using sstore_cost_range [of r a b] by auto

lemma selfdestruct_penalty_nonneg: "0 \<le> sint (selfdestruct_penalty e a s)"
  by (simp add: selfdestruct_penalty_def Let_def schedule_def)

lemma metered_countSStore [metered_intro]: "metered (countSStore e x v)"
  unfolding countSStore_def [abs_def] Let_def
  by (intro metered_count64 sstore_cost_nonneg) (simp add: blind_simps)

lemma metered_selfdestruct_penalty [metered_intro]:
  "metered (\<lambda>s. if b then count64 (selfdestruct_penalty e a s) s else Some s)"
  by (intro metered_if metered_count64 metered_intro)
    (simp_all add: selfdestruct_penalty_def Let_def schedule_def blind_simps)


section \<open>Calls\<close>

text \<open>
  What is relied on of the host: of the gas it is given with a message it returns some, and no more.
  No message ever carries the largest amount of gas there is.
\<close>

definition host_gas_ok :: "'h jit_env \<Rightarrow> bool" where
  "host_gas_ok e \<longleftrightarrow> (\<forall>h m. 0 \<le> sint (msg_gas m) \<and> msg_gas m \<noteq> gasMax \<longrightarrow>
     0 \<le> sint (gas_left (fst (host_call (fns e) h m))) \<and>
     sint (gas_left (fst (host_call (fns e) h m))) \<le> sint (msg_gas m))"

definition ret_gas :: "i64 \<Rightarrow> i64" where
  "ret_gas r = r - (if 0 <=s r then 0 else EVM_CALL_FAILURE)"

lemma bit_63_iff: "bit (w :: i64) 63 \<longleftrightarrow> sint w < 0"
  using bit_last_iff [of w] by simp

lemma call_failure_bit: "bit EVM_CALL_FAILURE n \<longleftrightarrow> n = 63"
proof -
  have "EVM_CALL_FAILURE = push_bit 63 1" by (simp add: EVM_CALL_FAILURE_def)
  moreover have "bit (push_bit 63 1 :: i64) n \<longleftrightarrow> n = 63"
    by (auto simp: bit_push_bit_iff bit_1_iff simp del: push_bit_of_1 push_bit_numeral)
  ultimately show ?thesis by simp
qed

lemma ret_gas_flag:
  assumes "0 \<le> sint g"
  shows "ret_gas g = g" "ret_gas (or g EVM_CALL_FAILURE) = g"
proof -
  show "ret_gas g = g" using assms by (simp add: ret_gas_def word_sle_zero)
  have "\<not> bit g 63" using assms bit_63_iff [of g] by simp
  then have "or g EVM_CALL_FAILURE = g + EVM_CALL_FAILURE"
    by (intro disjunctive_add [symmetric]) (auto simp: call_failure_bit)
  moreover have "sint (or g EVM_CALL_FAILURE) < 0"
    unfolding bit_63_iff [symmetric] by (simp add: bit_or_iff call_failure_bit)
  ultimately show "ret_gas (or g EVM_CALL_FAILURE) = g"
    by (simp add: ret_gas_def word_sle_zero)
qed

lemma call_msg_gas: "msg_gas (call_msg e knd g a v inp) = g"
  by (simp add: call_msg_def Let_def)

lemma call_wrapper_gas:
  assumes "host_gas_ok e" "0 \<le> sint g" "g \<noteq> gasMax" "call_wrapper e knd g a v inp n my dep s = (r, out, s')"
  shows "gas s' = gas s" "0 \<le> sint (ret_gas r)" "sint (ret_gas r) \<le> sint g"
proof -
  show "gas s' = gas s"
    using assms(4) by (auto simp: call_wrapper_def Let_def split: if_splits prod.splits)
  have "r = or g EVM_CALL_FAILURE \<or> r = fst (call_v2 e knd g a v inp n (host s))"
    using assms(4) by (auto simp: call_wrapper_def Let_def split: if_splits prod.splits)
  moreover let ?m = "call_msg e knd g a v inp"
  have "fst (call_v2 e knd g a v inp n (host s)) \<in>
      {gas_left (fst (host_call (fns e) (host s) ?m)),
       or (gas_left (fst (host_call (fns e) (host s) ?m))) EVM_CALL_FAILURE}"
    by (simp add: call_v2_def Let_def case_prod_beta)
  moreover have "0 \<le> sint (gas_left (fst (host_call (fns e) (host s) ?m)))"
    "sint (gas_left (fst (host_call (fns e) (host s) ?m))) \<le> sint g"
    using assms(1-3) call_msg_gas [of e knd g a v inp] by (metis host_gas_ok_def)+
  ultimately have "0 \<le> sint (ret_gas r) \<and> sint (ret_gas r) \<le> sint g"
    using assms(2) by (auto simp: ret_gas_flag)
  then show "0 \<le> sint (ret_gas r)" "sint (ret_gas r) \<le> sint g" by auto
qed

lemma ext_call_gas:
  assumes "host_gas_ok e" "0 \<le> sint g" "g \<noteq> gasMax" and s': "s' = ext_call e knd g a v x n y m s"
  shows "gas s' = gas s" "0 \<le> sint (ret_gas (call_ret s'))" "sint (ret_gas (call_ret s')) \<le> sint g"
proof -
  obtain r out s1 where w: "call_wrapper e knd g (to_ptr e (toBE (host_le e) (ucast a :: i256)))
      (to_ptr e (toBE (host_le e) v)) (getBytes e x (ucast n) s) (ucast m) (myAddr e) (getDepth e)
      (resetReturnBuf s) = (r, out, s1)" by (cases rule: prod_cases3)
  then have "s' = poke (unat y) out s1\<lparr>call_ret := r\<rparr>" by (simp add: s' ext_call_def Let_def)
  then show "gas s' = gas s" "0 \<le> sint (ret_gas (call_ret s'))" "sint (ret_gas (call_ret s')) \<le> sint g"
    using call_wrapper_gas [OF assms(1-3) w] by (simp_all add: poke_def resetReturnBuf_def)
qed

lemma ext_create_gas:
  assumes "host_gas_ok e" "0 \<le> sint g" "g \<noteq> gasMax" and s': "s' = ext_create e g v x n s"
  shows "gas s' = gas s" "0 \<le> sint (ret_gas (call_ret s'))" "sint (ret_gas (call_ret s')) \<le> sint g"
proof -
  obtain r out s1 where w: "call_wrapper e EVM_CREATE g (undef_addr e)
      (to_ptr e (toBE (host_le e) v)) (getBytes e x (ucast n) s) 32 (myAddr e) (getDepth e)
      (resetReturnBuf s) = (r, out, s1)" by (cases rule: prod_cases3)
  then have "s' = s1\<lparr>call_ret := r, pAddr := write_mem 0 out (undef_addr e)\<rparr>"
    by (simp add: s' ext_create_def Let_def)
  then show "gas s' = gas s" "0 \<le> sint (ret_gas (call_ret s'))" "sint (ret_gas (call_ret s')) \<le> sint g"
    using call_wrapper_gas [OF assms(1-3) w] by (simp_all add: resetReturnBuf_def)
qed


lemma unat_of_nonneg:
  fixes w :: i64
  assumes "0 \<le> sint w"
  shows "unat w < 2 ^ 63"
proof -
  have "uint w < 2 ^ 63" using sint64_nonneg_uint [OF assms] sint64_range [of w] by simp
  then have "int (unat w) < int (2 ^ 63)" by simp
  then show ?thesis by (simp only: of_nat_less_iff)
qed

lemma gas_ok_le:
  assumes "gas_ok s" "0 \<le> sint (gas s')" "sint (gas s') \<le> sint (gas s)"
  shows "gas_ok s'"
proof -
  have "sint (gas s) < 2 ^ 63 - 1" by (rule gas_ok_lt [OF assms(1)])
  with assms(2,3) show ?thesis by (auto simp: gas_ok_def gasMax_sint)
qed

lemma spends_do_create [metered_intro]:
  assumes "host_gas_ok e"
  shows "spends (do_create e v x n)"
  unfolding spends_def
proof (intro allI impI)
  fix s s' assume a: "gas_ok s \<and> do_create e v x n s = Some s'"
  define k where "k = (if m_rev e \<ge> EVM_TANGERINE_WHISTLE then drop_bit 6 (gas s) else 0)"
  define s1 where "s1 = ext_create e (gas s - k) v x n s"
  have g: "0 \<le> sint (gas s)" using a by (simp add: gas_ok_def)
  have le: "unat (drop_bit 6 (gas s)) \<le> unat (gas s)" by (simp add: unat_drop_bit)
  then have "drop_bit 6 (gas s) \<le> gas s" by (simp only: word_le_nat_alt)
  then have "uint (drop_bit 6 (gas s)) \<le> uint (gas s)" by (simp only: word_le_def)
  with le unat_of_nonneg [OF g] g have k: "0 \<le> sint k" "sint k \<le> sint (gas s)"
    by (auto simp: k_def sint64_of_unat)
  then have d: "sint (gas s - k) = sint (gas s) - sint k" using g by (simp add: gas_simps)
  then have "0 \<le> sint (gas s - k)" "gas s - k \<noteq> gasMax"
    using k gas_ok_lt [of s] a by (auto simp: gasMax_sint)
  note r = ext_create_gas [OF assms this s1_def]
  have "sint (ret_gas (call_ret s1) + k) = sint (ret_gas (call_ret s1)) + sint k"
    using r(2,3) d k sint64_range [of "gas s"] by (intro sint64_add) auto
  moreover have "s' = s1\<lparr>gas := ret_gas (call_ret s1) + k\<rparr>"
    using a by (simp add: do_create_def Let_def ret_gas_def k_def s1_def)
  ultimately have "0 \<le> sint (gas s')" "sint (gas s') \<le> sint (gas s)" using r(2,3) d k by simp_all
  with a gas_ok_le show "gas_ok s' \<and> sint (gas s') \<le> sint (gas s)" by blast
qed


lemma transfer_cost_stipend:
  "0 \<le> sint (call_transfer_cost e inst v)"
  "sint (if v = 0 then 0 else callStipend schedule) \<le> sint (call_transfer_cost e inst v)"
  by (simp_all add: call_transfer_cost_def Let_def schedule_def gasMax_sint)

lemma count64_spent:
  assumes "gas_ok s" "0 \<le> sint c" "count64 c s = Some s'"
  shows "s' = s\<lparr>gas := gas s - c\<rparr>" "sint (gas s') = sint (gas s) - sint c" "gas_ok s'"
proof -
  from assms have le: "sint c \<le> sint (gas s)" and s': "s' = s\<lparr>gas := gas s - c\<rparr>"
    by (auto simp: count64_def gas_check_iff gas_ok_def split: if_splits)
  show "s' = s\<lparr>gas := gas s - c\<rparr>" by (rule s')
  show "sint (gas s') = sint (gas s) - sint c" "gas_ok s'"
    using gas_ok_minus [OF assms(1,2) le] by (simp_all add: s')
qed

lemma count128_spent:
  assumes "gas_ok s" "count128 c s = Some s'"
  shows "sint (ucast c :: i64) = uint c" "sint (gas s') = sint (gas s) - uint c" "gas_ok s'"
proof -
  from assms have le: "uint c \<le> sint (gas s)" and s': "s' = s\<lparr>gas := gas s - ucast c\<rparr>"
    by (auto simp: count128_iff gas_ok_def split: if_splits)
  have "uint c < 2 ^ 63" using le sint64_range [of "gas s"] by simp
  then show c: "sint (ucast c :: i64) = uint c"
    by (subst sint64_small) (simp_all add: unsigned_ucast_eq take_bit_int_eq_self)
  then show "sint (gas s') = sint (gas s) - uint c" "gas_ok s'"
    using gas_ok_minus [OF assms(1), of "ucast c"] le by (simp_all add: s')
qed

lemma call_leave_gas:
  assumes "host_gas_ok e" "gas_ok s" "0 \<le> sint (ucast c :: i64)"
    "sint (ucast c :: i64) + sint (if v = 0 then 0 else callStipend schedule) + sint (gas s) < 2 ^ 63 - 1"
    and s': "s' = call_leave e inst c a v x n y m s"
  shows "0 \<le> sint (gas s')"
    "sint (gas s') \<le> sint (gas s) + sint (ucast c :: i64) + sint (if v = 0 then 0 else callStipend schedule)"
proof -
  let ?st = "if v = 0 then 0 else callStipend schedule"
  define s1 where "s1 = ext_call e (call_kind inst) (ucast c + ?st) a v x n y m s"
  have st: "0 \<le> sint ?st" by (simp add: schedule_def)
  have g: "sint (ucast c + ?st) = sint (ucast c :: i64) + sint ?st"
    using assms(2-4) st by (intro sint64_add) (auto simp: gas_ok_def)
  then have "0 \<le> sint (ucast c + ?st)" "ucast c + ?st \<noteq> gasMax"
    using assms(2-4) st by (auto simp: gasMax_sint gas_ok_def)
  note r = ext_call_gas [OF assms(1) this s1_def]
  have "sint (gas s + ret_gas (call_ret s1)) = sint (gas s) + sint (ret_gas (call_ret s1))"
    using r(2,3) g assms(2,4) by (intro sint64_add) (auto simp: gas_ok_def)
  moreover have "gas s' = gas s + ret_gas (call_ret s1)"
    using r(1) by (simp add: s' call_leave_def Let_def giveBack_def ret_gas_def flip: s1_def)
  ultimately show "0 \<le> sint (gas s')" "sint (gas s') \<le> sint (gas s) + sint (ucast c :: i64) + sint ?st"
    using r(2,3) g assms(2) by (simp_all add: gas_ok_def)
qed

lemma do_call_SomeE:
  assumes "do_call e inst c a v x n y m s = Some s'"
  obtains s1 s2 s3 s4 s5 where
    "require e y (Runtime m) s = Some s1" "require e x (Runtime n) s1 = Some s2"
    "count64 (call_transfer_cost e inst v) s2 = Some s3"
    "(if inst = CALL then count64 (call_penalty e a v s3) s3 else Some s3) = Some s4"
    "count128 (call_gas e c s4) s4 = Some s5"
    "s' = call_leave e inst (call_gas e c s4) a v x n y m s5"
  using assms by (auto simp: do_call_def Let_def bind_eq_Some_conv)

lemma call_penalty_nonneg: "0 \<le> sint (call_penalty e a v s)"
  by (simp add: call_penalty_def Let_def schedule_def)

text \<open>From the check of the transfer on, a call spends what it reserves and gives back at most that.\<close>

lemma call_tail_spends:
  assumes host: "host_gas_ok e" and ok2: "gas_ok s2"
    and s3: "count64 (call_transfer_cost e inst v) s2 = Some s3"
    and s4: "(if inst = CALL then count64 (call_penalty e a v s3) s3 else Some s3) = Some s4"
    and s5: "count128 (call_gas e c s4) s4 = Some s5"
    and s': "s' = call_leave e inst (call_gas e c s4) a v x n y m s5"
  shows "gas_ok s'" "sint (gas s') \<le> sint (gas s2)"
proof -
  let ?t = "call_transfer_cost e inst v" and ?st = "if v = 0 then 0 else callStipend schedule"
  note ok3 = count64_spent(2,3) [OF ok2 transfer_cost_stipend(1) s3]
  from s4 ok3 have ok4: "gas_ok s4" "sint (gas s4) \<le> sint (gas s3)"
    using count64_spent [of s3 "call_penalty e a v s3" s4] call_penalty_nonneg [of e a v s3]
    by (auto split: if_splits)
  note ok5 = count128_spent [OF ok4(1) s5]
  have "sint ?st \<le> sint ?t" by (rule transfer_cost_stipend)
  then have le: "sint (ucast (call_gas e c s4) :: i64) + sint ?st + sint (gas s5) \<le> sint (gas s2)"
    using ok5 ok4 ok3 by simp
  have "0 \<le> sint (ucast (call_gas e c s4) :: i64)" using ok5(1) by simp
  moreover have "sint (ucast (call_gas e c s4) :: i64) + sint ?st + sint (gas s5) < 2 ^ 63 - 1"
    using le gas_ok_lt [OF ok2] by simp
  note leave = call_leave_gas [OF host ok5(3) calculation this s']
  then show "sint (gas s') \<le> sint (gas s2)" using le by linarith
  with leave(1) ok2 gas_ok_le show "gas_ok s'" by blast
qed

lemma spends_do_call [metered_intro]:
  assumes host: "host_gas_ok e"
  shows "spends (do_call e inst c a v x n y m)"
  unfolding spends_def
proof (intro allI impI)
  fix s s' assume a: "gas_ok s \<and> do_call e inst c a v x n y m s = Some s'"
  then have "do_call e inst c a v x n y m s = Some s'" by simp
  then show "gas_ok s' \<and> sint (gas s') \<le> sint (gas s)"
  proof (rule do_call_SomeE)
    fix s1 s2 s3 s4 s5
    assume s1: "require e y (Runtime m) s = Some s1" and s2: "require e x (Runtime n) s1 = Some s2"
      and tail: "count64 (call_transfer_cost e inst v) s2 = Some s3"
        "(if inst = CALL then count64 (call_penalty e a v s3) s3 else Some s3) = Some s4"
        "count128 (call_gas e c s4) s4 = Some s5"
        "s' = call_leave e inst (call_gas e c s4) a v x n y m s5"
    have "gas_ok s2" "sint (gas s2) \<le> sint (gas s)"
      using metered_spendsD [OF metered_require _ s1] metered_spendsD [OF metered_require _ s2] a by auto
    with call_tail_spends [OF host _ tail] show ?thesis by fastforce
  qed
qed


section \<open>The programs of the instructions\<close>

definition inst_ok :: "'h eprog \<Rightarrow> bool" where
  "inst_ok p \<longleftrightarrow> meterable True p \<and> list_all ev_ok (trace p) \<and> uniform p \<and> no_fall_end p \<and>
     length (trace p) \<le> 12"

lemma popWords_ok:
  assumes "\<And>ws. trace (k ws) = tr" "\<And>ws. uniform (k ws)" "\<And>ws. no_fall_end (k ws)"
    "\<And>ws. meterable opn (k ws)"
  shows "trace (popWords n ws k) = replicate n EvPop @ tr" "uniform (popWords n ws k)"
    "no_fall_end (popWords n ws k)" "meterable opn (popWords n ws k)"
proof -
  have t: "trace (popWords n ws k) = replicate n EvPop @ tr" for n ws
    using assms(1) by (induction n arbitrary: ws) simp_all
  then show "trace (popWords n ws k) = replicate n EvPop @ tr" .
  show "uniform (popWords n ws k)" "no_fall_end (popWords n ws k)" "meterable opn (popWords n ws k)"
    using assms(2-4) by (induction n arbitrary: ws) (simp_all add: t)
qed

lemmas emit_defs = un_def bin_def ter_def pushWord256_def popWord256_def invalidInstruction_def
  ask64_def ask128_def getTxContextItem_def
  emit_EXP_def emit_SHA3_def emit_POP_def emit_PUSH_def emit_DUP_def emit_SWAP_def emit_MLOAD_def
  emit_MSTORE_def emit_MSTORE8_def emit_MSIZE_def emit_SLOAD_def emit_SSTORE_def emit_JUMP_def
  emit_JUMPI_def emit_PC_def emit_GAS_def emit_ADDRESS_def emit_CALLER_def emit_ORIGIN_def
  emit_COINBASE_def emit_GASPRICE_def emit_DIFFICULTY_def emit_GASLIMIT_def emit_NUMBER_def
  emit_TIMESTAMP_def emit_CALLVALUE_def emit_RETURNDATASIZE_def emit_BLOCKHASH_def emit_BALANCE_def
  emit_EXTCODESIZE_def emit_CALLDATACOPY_def emit_RETURNDATACOPY_def emit_CODECOPY_def
  emit_EXTCODECOPY_def emit_CALLDATALOAD_def emit_CREATE_def emit_CALL_def emit_RETURN_def
  emit_SELFDESTRUCT_def

lemma metered_updates:
  "metered (\<lambda>s. Some (loadTxCtx e s))" "metered (\<lambda>s. Some (sstore e x v s))"
  "metered (\<lambda>s. Some (ext_selfdestruct e a s))" "metered (\<lambda>s. Some (ext_log e x y ts s))"
  "metered (\<lambda>s. Some (registerReturnData x y s))"
  by (intro metered_update; simp add: blind_simps)+

lemmas metered_ops = metered_updates metered_require metered_loadWord_check metered_storeWord
  metered_storeByte metered_copyBytes metered_returndatacopy metered_extcodecopy metered_countSStore
  metered_selfdestruct_penalty metered_countExp metered_countLogData metered_countSha3Data

lemma emit_LOG_ok: "n \<le> 4 \<Longrightarrow> inst_ok (emit_LOG e n)"
proof -
  assume n: "n \<le> 4"
  let ?k = "\<lambda>x y topics. Do (\<lambda>s. Some (ext_log e x y topics s)) Done"
  have "trace (popWords (2 * n) [] (?k x y)) = replicate (2 * n) EvPop"
    "uniform (popWords (2 * n) [] (?k x y))" "no_fall_end (popWords (2 * n) [] (?k x y))"
    "meterable True (popWords (2 * n) [] (?k x y))" for x y
    using popWords_ok [of "?k x y" "[]" True "2 * n" "[]"] by (simp_all add: metered_ops)
  with n show ?thesis
    by (simp add: emit_LOG_def inst_ok_def metered_ops invalidInstruction_def list_all_iff)
qed

lemma dup_swap_range:
  "Suc 0 \<le> n \<Longrightarrow> \<not> BASE_DUP (DUP n) \<Longrightarrow> 17 \<le> n" "Suc 0 \<le> n \<Longrightarrow> \<not> BASE_SWAP (SWAP n) \<Longrightarrow> 17 \<le> n"
  by (auto simp: BASE_DUP_def BASE_SWAP_def)

lemma compile_inst_ok:
  assumes "wf_inst i" "host_gas_ok e"
  shows "inst_ok (compile_inst i e it rest)"
proof (cases "\<exists>n. i \<in> {DUP n, SWAP n, LOG n}")
  case True
  with assms show ?thesis
    using emit_LOG_ok [of _ e] by (auto simp: inst_ok_def emit_defs dest: dup_swap_range)
next
  case False
  with assms show ?thesis
    by (cases i)
      (simp_all add: inst_ok_def emit_defs metered_ops Let_def gas_blind_def blind_simps
        spends_do_call spends_do_create split: prod.splits)
qed

text \<open>Every block that the compiler makes is one for which its checks are right.\<close>

lemma compile_range_ok:
  assumes "host_gas_ok e"
  shows "(\<forall>opn. meterable opn (compile_range e it fin)) \<and> list_all ev_ok (trace (compile_range e it fin)) \<and>
    uniform (compile_range e it fin) \<and> length (trace (compile_range e it fin)) \<le> 13 * (fin - it)"
  using assms
proof (induction e it fin rule: compile_range.induct)
  case (1 e it fin)
  show ?case
  proof (cases "fin \<le> it")
    case True
    then show ?thesis by (simp add: compile_range.simps [of e it])
  next
    case False
    define rest where "rest = drop it (take fin (m_code e))"
    define inst where "inst = decode (hd rest)"
    let ?p = "compile_inst inst e it rest" and ?q = "compile_range e (inst_end inst it rest + 1) fin"
    have i: "wf_inst inst" by (simp add: inst_def wf_decode)
    have p: "inst_ok ?p" by (rule compile_inst_ok [OF i "1.prems"])
    have c: "compile_range e it fin = Count inst (seq ?p ?q)"
      using False by (simp add: compile_range.simps [of e it] Let_def rest_def inst_def)
    have q: "(\<forall>opn. meterable opn ?q) \<and> list_all ev_ok (trace ?q) \<and> uniform ?q \<and>
        length (trace ?q) \<le> 13 * (fin - (inst_end inst it rest + 1))"
      using "1.IH" [OF False rest_def inst_def "1.prems"] by simp
    have "it \<le> inst_end inst it rest" by (simp add: inst_end_def split: Instruction.splits)
    then have "13 * (fin - (inst_end inst it rest + 1)) + 13 \<le> 13 * (fin - it)" using False by simp
    with p q i show ?thesis
      unfolding c by (auto simp: inst_ok_def uniform_seq meterable_seq trace_seq)
  qed
qed

end
