(* ===== verification/BlockStructure.thy ===== *)
theory BlockStructure
  imports Compiler
begin

text \<open>
  How \<open>createBasicBlocks\<close> cuts up the code: every block is a run of whole instructions of which only
  the last can branch or stop and only the first can be a JUMPDEST; a block that can be left at its
  end is followed by the block at which it ends, or ends with the code; and the blocks that start
  with a JUMPDEST are those of the JUMPDEST instructions that a scan of the code finds.
\<close>

section \<open>Moving through the code\<close>

lemma next_inst_less: "cur < next_inst code cur"
  using skipPushDataAndGetNext_pos by (simp add: next_inst_def)

lemma next_inst_le: "cur < length code \<Longrightarrow> next_inst code cur \<le> length code"
  using skipPushDataAndGetNext_le [of "drop cur code"] by (simp add: next_inst_def)

lemma inst_induct [case_names inst]:
  assumes "\<And>cur. (cur < length code \<Longrightarrow> Q (next_inst code cur)) \<Longrightarrow> Q cur"
  shows "Q cur"
proof (induction "length code - cur" arbitrary: cur rule: less_induct)
  case less
  then show ?case using assms [of cur] next_inst_less [of cur code] by simp
qed

lemma drop_Cons_nth: "i < length xs \<Longrightarrow> drop i xs = xs ! i # drop (Suc i) xs"
  by (simp add: Cons_nth_drop_Suc)

lemma next_inst_eq:
  assumes "cur < length code"
  shows "next_inst code cur =
    (case inst_at code cur of PUSH n \<Rightarrow> cur + 1 + min n (length code - cur - 1) | _ \<Rightarrow> cur + 1)"
proof (cases "\<exists>n. inst_at code cur = PUSH n")
  case True
  then show ?thesis
    using assms by (auto simp: next_inst_def inst_at_def drop_Cons_nth skipPushDataAndGetNext_eq numBytes_PUSH)
next
  case False
  then show ?thesis
    using assms by (auto simp: next_inst_def inst_at_def drop_Cons_nth skipPushDataAndGetNext_eq
        split: Instruction.splits)
qed

text \<open>The compiler's loop, which sees the code only up to the end of the block, reads the same.\<close>

lemma hd_rest: "it < fin \<Longrightarrow> fin \<le> length code \<Longrightarrow> hd (drop it (take fin code)) = code ! it"
  by (simp add: hd_drop_conv_nth)

lemma push_rest:
  assumes "it < length code" "next_inst code it \<le> fin" "fin \<le> length code" "inst_at code it = PUSH n"
  shows "readPushData (drop it (take fin code)) = readPushData (drop it code)"
    "it + snd (snd (readPushData (drop it code))) + 1 = next_inst code it"
proof -
  let ?cs = "drop (Suc it) code" and ?cs' = "drop (Suc it) (take fin code)"
  have d: "decode (code ! it) = PUSH n" using assms(4) by (simp add: inst_at_def)
  have nx: "next_inst code it = it + 1 + min n (length code - it - 1)"
    using next_inst_eq [OF assms(1)] assms(4) by simp
  then have "it < fin" using assms(2) by simp
  then have D: "drop it (take fin code) = code ! it # ?cs'" "drop it code = code ! it # ?cs"
    using assms(1,3) by (simp_all add: drop_Cons_nth)
  have L: "min n (length ?cs') = min n (length ?cs)" "n - length ?cs' = n - length ?cs"
    using nx assms(2,3) by (auto simp: min_def split: if_splits)
  have "take n ?cs' = take n ?cs"
    using nx assms(2,3) by (auto simp: drop_take min_def split: if_splits)
  then have "fst (snd (readPushData (code ! it # ?cs'))) = fst (snd (readPushData (code ! it # ?cs)))"
    using L by (simp only: readPushData_value [OF d])
  moreover have "snd (snd (readPushData (code ! it # ?cs'))) = snd (snd (readPushData (code ! it # ?cs)))"
    using L by (simp only: readPushData_moves [OF d])
  moreover have "fst (readPushData (code ! it # ?cs')) = fst (readPushData (code ! it # ?cs))"
    by (simp add: readPushData_def Let_def split: prod.splits)
  ultimately show "readPushData (drop it (take fin code)) = readPushData (drop it code)"
    unfolding D by (metis prod_eqI)
  show "it + snd (snd (readPushData (drop it code))) + 1 = next_inst code it"
    unfolding D readPushData_moves [OF d] nx by simp
qed

lemma compile_inst_rest:
  assumes "it < length code" "next_inst code it \<le> fin" "fin \<le> length code"
  shows "compile_inst (inst_at code it) e it (drop it (take fin code)) =
      compile_inst (inst_at code it) e it (drop it code)"
    "inst_end (inst_at code it) it (drop it (take fin code)) + 1 = next_inst code it"
proof -
  show "compile_inst (inst_at code it) e it (drop it (take fin code)) =
      compile_inst (inst_at code it) e it (drop it code)"
    using push_rest [OF assms] by (cases "inst_at code it") (simp_all add: emit_PUSH_def)
  show "inst_end (inst_at code it) it (drop it (take fin code)) + 1 = next_inst code it"
    using push_rest [OF assms] next_inst_eq [OF assms(1)]
    by (cases "inst_at code it") (simp_all add: inst_end_def)
qed

lemma compile_range_step:
  assumes "it < length (m_code e)" "next_inst (m_code e) it \<le> fin" "fin \<le> length (m_code e)"
  shows "compile_range e it fin =
    Count (inst_at (m_code e) it) (seq (compile_inst (inst_at (m_code e) it) e it (drop it (m_code e)))
      (compile_range e (next_inst (m_code e) it) fin))"
proof -
  have "it < fin" using next_inst_less [of it "m_code e"] assms(2) by simp
  then show ?thesis
    using compile_inst_rest(1) [OF assms, of e] compile_inst_rest(2) [OF assms] assms(3)
    by (subst compile_range.simps) (simp add: Let_def hd_rest inst_at_def [symmetric])
qed


section \<open>Blocks\<close>

text \<open>\<open>walk code p q\<close>: from \<open>p\<close> the instructions up to, and without, the one at \<open>q\<close> belong to one block.\<close>

definition goes_on :: "byte list \<Rightarrow> nat \<Rightarrow> bool" where
  "goes_on code p \<longleftrightarrow> p < length code \<and> \<not> ends_dead (inst_at code p) \<and> inst_at code p \<noteq> JUMPI \<and>
     next_inst code p < length code \<and> inst_at code (next_inst code p) \<noteq> JUMPDEST"

inductive walk :: "byte list \<Rightarrow> nat \<Rightarrow> nat \<Rightarrow> bool" for code where
  walk_refl: "walk code p p"
| walk_step: "goes_on code p \<Longrightarrow> walk code (next_inst code p) q \<Longrightarrow> walk code p q"

lemma walk_snoc: "walk code p q \<Longrightarrow> goes_on code q \<Longrightarrow> walk code p (next_inst code q)"
  by (induction rule: walk.induct) (auto intro: walk.intros)

lemma walk_le: "walk code p q \<Longrightarrow> p \<le> q"
proof (induction rule: walk.induct)
  case (walk_step p q)
  with next_inst_less [of p code] show ?case by simp
qed simp

lemma walk_less_length: "walk code p q \<Longrightarrow> q < length code \<Longrightarrow> p < length code"
  using walk_le by fastforce

lemma walk_no_JUMPDEST:
  assumes "walk code p q" "p \<noteq> q"
  shows "inst_at code q \<noteq> JUMPDEST"
  using assms by (induction rule: walk.induct) (metis goes_on_def)+

definition block_at :: "byte list \<Rightarrow> BasicBlock \<Rightarrow> nat \<Rightarrow> bool" where
  "block_at code b nxt \<longleftrightarrow> (\<exists>q < length code. walk code (m_firstInstrIdx b) q \<and> next_inst code q = m_end b \<and>
     (ends_dead (inst_at code q) \<or> nxt = m_end b))"

definition start_of :: "byte list \<Rightarrow> BasicBlock list \<Rightarrow> nat \<Rightarrow> nat" where
  "start_of code bs k = (if k < length bs then m_firstInstrIdx (bs ! k) else length code)"

lemma start_of_Cons [simp]:
  "start_of code (b # bs) 0 = m_firstInstrIdx b" "start_of code (b # bs) (Suc k) = start_of code bs k"
  by (simp_all add: start_of_def)

text \<open>The cases of the loop.\<close>

lemma blocks_from_cases:
  assumes "cur < length code"
  shows "isDead \<Longrightarrow> inst_at code cur \<noteq> JUMPDEST \<Longrightarrow>
      blocks_from code cur start isDead = blocks_from code (next_inst code cur) start True"
    "\<not> isDead \<or> inst_at code cur = JUMPDEST \<Longrightarrow> goes_on code cur \<Longrightarrow>
      blocks_from code cur start isDead =
        blocks_from code (next_inst code cur) (if isDead then cur else start) False"
    "\<not> isDead \<or> inst_at code cur = JUMPDEST \<Longrightarrow> \<not> goes_on code cur \<Longrightarrow>
      blocks_from code cur start isDead =
        \<lparr>m_firstInstrIdx = (if isDead then cur else start), m_end = next_inst code cur\<rparr> #
        blocks_from code (next_inst code cur) (next_inst code cur) (ends_dead (inst_at code cur))"
  using assms next_inst_le [OF assms]
  by (subst blocks_from.simps; force simp: Let_def goes_on_def)+


lemma blocks_head:
  assumes "cur < length code \<or> start = length code"
  shows "start_of code (blocks_from code cur start False) 0 = start"
  using assms
proof (induction cur rule: inst_induct [of code])
  case (inst cur)
  consider "length code \<le> cur" | "cur < length code" "goes_on code cur" | "cur < length code" "\<not> goes_on code cur"
    by linarith
  then show ?case
  proof cases
    case 1
    then show ?thesis using inst.prems by (simp add: blocks_from.simps start_of_def)
  next
    case 2
    then show ?thesis
      using inst.IH blocks_from_cases(2) [of cur code False start] by (simp add: goes_on_def)
  next
    case 3
    then show ?thesis using blocks_from_cases(3) [of cur code False start] by simp
  qed
qed

lemma blocks_from_block_at:
  assumes "isDead \<or> walk code start cur" "k < length (blocks_from code cur start isDead)"
  shows "block_at code (blocks_from code cur start isDead ! k)
    (start_of code (blocks_from code cur start isDead) (k + 1))"
  using assms
proof (induction cur arbitrary: start isDead k rule: inst_induct [of code])
  case (inst cur)
  let ?n = "next_inst code cur" and ?start = "if isDead then cur else start"
  have cur: "cur < length code"
    using inst.prems(2) by (cases "cur < length code") (simp_all add: blocks_from.simps)
  have walk: "walk code ?start cur" using inst.prems(1) by (auto intro: walk_refl)
  consider "isDead" "inst_at code cur \<noteq> JUMPDEST"
    | "\<not> isDead \<or> inst_at code cur = JUMPDEST" "goes_on code cur"
    | "\<not> isDead \<or> inst_at code cur = JUMPDEST" "\<not> goes_on code cur" by blast
  then show ?case
  proof cases
    case 1
    then show ?thesis
      using inst.IH [OF cur, of True start k] inst.prems blocks_from_cases(1) [OF cur] by simp
  next
    case 2
    then show ?thesis
      using inst.IH [OF cur, of False ?start k] inst.prems blocks_from_cases(2) [OF cur]
        walk_snoc [OF walk] by simp
  next
    case 3
    let ?d = "ends_dead (inst_at code cur)"
    note bs = blocks_from_cases(3) [OF cur 3, of start]
    show ?thesis
    proof (cases k)
      case 0
      have "?d \<or> start_of code (blocks_from code ?n ?n ?d) 0 = ?n"
        using blocks_head [of ?n code ?n] next_inst_le [OF cur] by (cases ?d) (simp_all add: le_less)
      with 0 walk cur show ?thesis by (auto simp: bs block_at_def)
    next
      case (Suc j)
      then show ?thesis
        using inst.IH [OF cur, of ?d ?n j] inst.prems(2) by (simp add: bs walk_refl)
    qed
  qed
qed

lemma blocks_block_at:
  "k < length (createBasicBlocks code) \<Longrightarrow>
   block_at code (createBasicBlocks code ! k) (start_of code (createBasicBlocks code) (k + 1))"
  unfolding createBasicBlocks_def by (rule blocks_from_block_at) (simp_all add: walk_refl)

lemma blocks_start: "start_of code (createBasicBlocks code) 0 = 0"
  using blocks_head [of 0 code 0] by (auto simp: createBasicBlocks_def)


section \<open>Jump destinations\<close>

lemma inst_starts_Cons: "i < length code \<Longrightarrow> inst_starts code i = i # inst_starts code (next_inst code i)"
  by (simp add: inst_starts.simps [of code i])

lemma inst_starts_Nil: "length code \<le> i \<Longrightarrow> inst_starts code i = []"
  by (simp add: inst_starts.simps [of code i])

lemma inst_starts_less: "p \<in> set (inst_starts code i) \<Longrightarrow> p < length code"
proof (induction i rule: inst_induct [of code])
  case (inst i)
  then show ?case by (cases "i < length code") (auto simp: inst_starts_Cons inst_starts_Nil)
qed

lemma blocks_from_starts:
  assumes "b \<in> set (blocks_from code cur start isDead)"
  shows "\<not> isDead \<and> m_firstInstrIdx b = start \<or> m_firstInstrIdx b \<in> set (inst_starts code cur)"
  using assms
proof (induction cur arbitrary: start isDead rule: inst_induct [of code])
  case (inst cur)
  have cur: "cur < length code"
    using inst.prems by (cases "cur < length code") (simp_all add: blocks_from.simps)
  consider "isDead" "inst_at code cur \<noteq> JUMPDEST"
    | "\<not> isDead \<or> inst_at code cur = JUMPDEST" "goes_on code cur"
    | "\<not> isDead \<or> inst_at code cur = JUMPDEST" "\<not> goes_on code cur" by blast
  then show ?case
  proof cases
    case 1
    then show ?thesis
      using inst.IH [OF cur, of start True] inst.prems blocks_from_cases(1) [OF cur]
      by (simp add: inst_starts_Cons [OF cur])
  next
    case 2
    then show ?thesis
      using inst.IH [OF cur, of "if isDead then cur else start" False] inst.prems
        blocks_from_cases(2) [OF cur]
      by (auto simp: inst_starts_Cons [OF cur] split: if_splits)
  next
    case 3
    let ?n = "next_inst code cur"
    have "b = \<lparr>m_firstInstrIdx = (if isDead then cur else start), m_end = ?n\<rparr> \<or>
        b \<in> set (blocks_from code ?n ?n (ends_dead (inst_at code cur)))"
      using inst.prems blocks_from_cases(3) [OF cur 3] by simp
    then show ?thesis
    proof
      assume "b \<in> set (blocks_from code ?n ?n (ends_dead (inst_at code cur)))"
      moreover then have "?n < length code"
        by (cases "?n < length code") (simp_all add: blocks_from.simps)
      ultimately show ?thesis
        using inst.IH [OF cur] by (fastforce simp: inst_starts_Cons [OF cur] inst_starts_Cons [of ?n])
    qed (auto simp: inst_starts_Cons [OF cur])
  qed
qed

lemma blocks_from_revive:
  assumes "cur < length code" "inst_at code cur = JUMPDEST"
  shows "blocks_from code cur start True = blocks_from code cur cur False"
  using assms(2) blocks_from_cases(2,3) [OF assms(1)] by (cases "goes_on code cur") simp_all

lemma blocks_from_here:
  assumes "cur < length code"
  shows "\<exists>b \<in> set (blocks_from code cur cur False). m_firstInstrIdx b = cur"
proof -
  let ?bs = "blocks_from code cur cur False"
  have *: "start_of code ?bs 0 = cur" using blocks_head [of cur code cur] assms by simp
  then have "0 < length ?bs" using assms by (cases "0 < length ?bs") (simp_all add: start_of_def)
  with * have "m_firstInstrIdx (?bs ! 0) = cur" by (simp add: start_of_def)
  with \<open>0 < length ?bs\<close> show ?thesis by (meson nth_mem)
qed

lemma blocks_from_JUMPDEST:
  assumes "p \<in> set (inst_starts code cur)" "inst_at code p = JUMPDEST"
    "\<not> isDead \<Longrightarrow> inst_at code cur = JUMPDEST \<Longrightarrow> start = cur"
  shows "\<exists>b \<in> set (blocks_from code cur start isDead). m_firstInstrIdx b = p"
  using assms
proof (induction cur arbitrary: start isDead rule: inst_induct [of code])
  case (inst cur)
  have cur: "cur < length code"
    using inst.prems(1) by (cases "cur < length code") (simp_all add: inst_starts_Nil)
  let ?n = "next_inst code cur"
  show ?case
  proof (cases "p = cur")
    case True
    then have "blocks_from code cur start isDead = blocks_from code cur cur False"
      using inst.prems(2,3) blocks_from_revive [OF cur] by (cases isDead) simp_all
    then show ?thesis using True blocks_from_here [OF cur] by simp
  next
    case False
    then have p: "p \<in> set (inst_starts code ?n)"
      using inst.prems(1) by (simp add: inst_starts_Cons [OF cur])
    consider "isDead" "inst_at code cur \<noteq> JUMPDEST"
      | "\<not> isDead \<or> inst_at code cur = JUMPDEST" "goes_on code cur"
      | "\<not> isDead \<or> inst_at code cur = JUMPDEST" "\<not> goes_on code cur" by blast
    then show ?thesis
    proof cases
      case 1
      then show ?thesis
        using inst.IH [OF cur p inst.prems(2), of True start] blocks_from_cases(1) [OF cur] by simp
    next
      case 2
      then have "inst_at code ?n \<noteq> JUMPDEST" by (simp add: goes_on_def)
      then show ?thesis
        using inst.IH [OF cur p inst.prems(2), of False "if isDead then cur else start"]
          blocks_from_cases(2) [OF cur 2] by simp
    next
      case 3
      then show ?thesis
        using inst.IH [OF cur p inst.prems(2), of "ends_dead (inst_at code cur)" ?n]
          blocks_from_cases(3) [OF cur 3] by auto
    qed
  qed
qed

lemma blocks_JUMPDEST:
  assumes "inst_at code p = JUMPDEST"
  shows "(\<exists>k < length (createBasicBlocks code). m_firstInstrIdx (createBasicBlocks code ! k) = p) \<longleftrightarrow>
    p \<in> set (inst_starts code 0)" (is "?l \<longleftrightarrow> ?r")
proof
  assume ?r
  then show ?l
    using blocks_from_JUMPDEST [of p code 0 False 0] assms by (auto simp: createBasicBlocks_def in_set_conv_nth)
next
  assume ?l
  then obtain b where b: "b \<in> set (blocks_from code 0 0 False)" "m_firstInstrIdx b = p"
    by (auto simp: createBasicBlocks_def intro: nth_mem)
  then have "0 < length code" by (cases "0 < length code") (simp_all add: blocks_from.simps)
  with blocks_from_starts [OF b(1)] b(2) show ?r by (auto simp: inst_starts_Cons)
qed

lemma jumpTable_mem:
  "(d, k) \<in> set (jumpTable code) \<longleftrightarrow>
     k < length (createBasicBlocks code) \<and> d = of_nat (m_firstInstrIdx (createBasicBlocks code ! k)) \<and>
     inst_at code (m_firstInstrIdx (createBasicBlocks code ! k)) = JUMPDEST"
  by (auto simp: jumpTable_def in_set_enumerate_eq)

lemma block_first_less:
  assumes "k < length (createBasicBlocks code)"
  shows "m_firstInstrIdx (createBasicBlocks code ! k) < length code"
  using blocks_block_at [OF assms] walk_less_length by (auto simp: block_at_def)

lemma jumpTable_Some:
  assumes "length code < 2 ^ 64" "map_of (jumpTable code) d = Some k"
  shows "k < length (createBasicBlocks code)" "m_firstInstrIdx (createBasicBlocks code ! k) = unat d"
    "valid_dest code d"
proof -
  let ?f = "m_firstInstrIdx (createBasicBlocks code ! k)"
  have k: "k < length (createBasicBlocks code)" "d = of_nat ?f" "inst_at code ?f = JUMPDEST"
    using map_of_SomeD [OF assms(2)] by (auto simp: jumpTable_mem)
  then have "?f < 2 ^ 64" using block_first_less [OF k(1)] assms(1) by simp
  then have u: "unat d = ?f" by (simp add: k(2) unat_of_nat)
  show "k < length (createBasicBlocks code)" "?f = unat d" using k u by simp_all
  show "valid_dest code d"
    unfolding valid_dest_def u using blocks_JUMPDEST [OF k(3)] k(1,3) by blast
qed

lemma jumpTable_None:
  assumes "map_of (jumpTable code) d = None"
  shows "\<not> valid_dest code d"
proof
  assume v: "valid_dest code d"
  then obtain k where "k < length (createBasicBlocks code)"
    "m_firstInstrIdx (createBasicBlocks code ! k) = unat d"
    using blocks_JUMPDEST [of code "unat d"] by (auto simp: valid_dest_def)
  then have "(d, k) \<in> set (jumpTable code)"
    using v by (simp add: jumpTable_mem valid_dest_def)
  with assms show False by (auto simp: map_of_eq_None_iff image_iff)
qed


section \<open>Properties\<close>

text \<open>
  C6: the jump table is exact. A destination is in the table exactly when it is the index of a
  JUMPDEST instruction, and not of a byte of push data, and the table then leads to the block that starts there.
\<close>

theorem jump_table_exact:
  assumes "length code < 2 ^ 64"
  shows "(map_of (jumpTable code) d \<noteq> None \<longleftrightarrow> valid_dest code d) \<and>
    (\<forall>k. map_of (jumpTable code) d = Some k \<longrightarrow>
      k < length (createBasicBlocks code) \<and> m_firstInstrIdx (createBasicBlocks code ! k) = unat d)"
proof (cases "map_of (jumpTable code) d")
  case None
  then show ?thesis using jumpTable_None by simp
next
  case (Some k)
  then show ?thesis using jumpTable_Some [OF assms Some] by simp
qed

lemma push_jumpdest_code:
  "inst_at [0x60, 0x5b, 0x5b] 0 = PUSH 1" "inst_at [0x60, 0x5b, 0x5b] 2 = JUMPDEST"
  "inst_at [0x60, 0x5b, 0x5b] (Suc (Suc 0)) = JUMPDEST"
  "inst_starts [0x60, 0x5b, 0x5b] 0 = [0, 2]"
  by (simp_all add: inst_at_def decode_def row_50_def inst_starts.simps next_inst_def
      skipPushDataAndGetNext_def)

theorem jump_table_exact_witness:
  "map_of (jumpTable [0x60, 0x5b, 0x5b]) 1 = None \<and> map_of (jumpTable [0x60, 0x5b, 0x5b]) 2 \<noteq> None"
  using jump_table_exact [of "[0x60, 0x5b, 0x5b]" 1] jump_table_exact [of "[0x60, 0x5b, 0x5b]" 2]
  by (simp add: valid_dest_def push_jumpdest_code)

text \<open>
  C7: the blocks. Each block is a run of whole instructions, found by walking over push data, within the
  code; only its last instruction can jump or stop, and only its first can be a JUMPDEST, which the
  compiler asserts when it adds the block to the jump table. A block that does not end in a jump
  or a stop is followed by the block of the instruction behind it, or ends the code.
\<close>

theorem blocks_partition_code:
  assumes "k < length (createBasicBlocks code)"
  shows "let b = createBasicBlocks code ! k in
    \<exists>q < length code. walk code (m_firstInstrIdx b) q \<and> next_inst code q = m_end b \<and> m_end b \<le> length code \<and>
      (\<forall>p. walk code (m_firstInstrIdx b) p \<and> p \<noteq> m_firstInstrIdx b \<longrightarrow> inst_at code p \<noteq> JUMPDEST) \<and>
      (ends_dead (inst_at code q) \<or>
       (if k + 1 < length (createBasicBlocks code)
        then m_firstInstrIdx (createBasicBlocks code ! (k + 1)) = m_end b else m_end b = length code))"
proof -
  obtain q where "q < length code" "walk code (m_firstInstrIdx (createBasicBlocks code ! k)) q"
    "next_inst code q = m_end (createBasicBlocks code ! k)"
    "ends_dead (inst_at code q) \<or> start_of code (createBasicBlocks code) (k + 1) = m_end (createBasicBlocks code ! k)"
    using blocks_block_at [OF assms] by (auto simp: block_at_def)
  moreover have "next_inst code q \<le> length code" using calculation(1) by (rule next_inst_le)
  ultimately show ?thesis
    using walk_no_JUMPDEST unfolding Let_def start_of_def by (intro exI [of _ q]) auto
qed

lemma push_jumpdest_blocks:
  "createBasicBlocks [0x60, 0x5b, 0x5b] =
     [\<lparr>m_firstInstrIdx = 0, m_end = 2\<rparr>, \<lparr>m_firstInstrIdx = 2, m_end = 3\<rparr>]"
  by (simp add: createBasicBlocks_def blocks_from.simps Let_def push_jumpdest_code next_inst_def
      skipPushDataAndGetNext_def ends_dead_def)

theorem blocks_partition_witness:
  "\<exists>q < length [0x60, 0x5b, 0x5b :: byte]. walk [0x60, 0x5b, 0x5b] 0 q \<and> next_inst [0x60, 0x5b, 0x5b] q = 2"
  using blocks_partition_code [of 0 "[0x60, 0x5b, 0x5b]"] by (auto simp: push_jumpdest_blocks)

end
