(* ===== verification/CompilerCorrect.thy ===== *)
theory CompilerCorrect
  imports Metered BlockStructure
begin

text \<open>
  The compiled code does what the machine does. A block of the compiled code corresponds to a run of
  machine instructions (\<open>block_run\<close>), and following the branches between blocks to following
  the program counter (\<open>simulates\<close>). Every step of the machine moves forward in the code or pays for
  a jump, so the gas bounds the number of steps.
\<close>

section \<open>How a program ends\<close>

primrec ends_in :: "(terminator \<Rightarrow> bool) \<Rightarrow> 'h eprog \<Rightarrow> bool" where
  "ends_in Q Done = Q Fall"
| "ends_in Q (Terminate t) = Q t"
| "ends_in Q (Count i p) = ends_in Q p"
| "ends_in Q (Commit p) = ends_in Q p"
| "ends_in Q (Push v p) = ends_in Q p"
| "ends_in Q (Pop k) = (\<forall>v. ends_in Q (k v))"
| "ends_in Q (Dup i p) = ends_in Q p"
| "ends_in Q (Swap i p) = ends_in Q p"
| "ends_in Q (Do f p) = ends_in Q p"
| "ends_in Q (Ask f k) = (\<forall>v. ends_in Q (k v))"

lemma run_ref_ends:
  "ends_in Q p \<Longrightarrow> run_ref r p st s = Some (t, st', s') \<Longrightarrow> Q t"
  by (induction p arbitrary: st s) (fastforce split: option.splits)+

fun may_end :: "Instruction \<Rightarrow> terminator \<Rightarrow> bool" where
  "may_end i Fall = (\<not> ends_dead i \<and> i \<noteq> JUMPI)"
| "may_end i (Br d) = (i = JUMP)"
| "may_end i (CondBr d c) = (i = JUMPI)"
| "may_end i (Exit rc) = True"

lemma popWords_ends: "(\<And>ws. ends_in Q (k ws)) \<Longrightarrow> ends_in Q (popWords n ws k)"
  by (induction n arbitrary: ws) simp_all

lemma compile_inst_ends: "ends_in (may_end i) (compile_inst i e it rest)"
  by (cases i) (simp_all add: emit_defs emit_LOG_def Let_def popWords_ends ends_dead_def split: prod.splits)

lemma run_ref_seq_Done: "no_fall_end p \<Longrightarrow> run_ref r (seq p Done) st s = run_ref r p st s"
  by (auto simp: run_ref_seq split: option.splits terminator.splits)


section \<open>Running a block\<close>

fun after :: "'h jit_env \<Rightarrow> nat \<Rightarrow> terminator \<Rightarrow> i128 list \<Rightarrow> 'h rt \<Rightarrow> 'h config" where
  "after e nxt Fall st s = Running nxt st s"
| "after e nxt (Br d) st s = evm_jump e d st s"
| "after e nxt (CondBr d c) st s = (if c then evm_jump e d st s else Running nxt st s)"
| "after e nxt (Exit rc) st s = Halted (Exited rc s)"

definition end_config :: "'h jit_env \<Rightarrow> nat \<Rightarrow> (terminator \<times> i128 list \<times> 'h rt) option \<Rightarrow> 'h config" where
  "end_config e nxt x = (case x of None \<Rightarrow> Halted Aborted | Some (t, st, s) \<Rightarrow> after e nxt t st s)"

lemma evm_step_Running:
  "pc < length (m_code e) \<Longrightarrow>
   evm_step e (Running pc st s) =
     end_config e (next_inst (m_code e) pc) (run_ref (m_rev e) (evm_inst e pc) st s)"
  by (auto simp: end_config_def split: option.splits terminator.splits)

text \<open>
  What the machine does in a block is what the program of the block does, and it ends the way the last
  instruction of the block can end.
\<close>

lemma block_run:
  assumes "walk (m_code e) p q" "q < length (m_code e)" "host_gas_ok e"
  shows "\<exists>n > 0. (evm_step e ^^ n) (Running p st s) =
      end_config e (next_inst (m_code e) q)
        (run_ref (m_rev e) (compile_range e p (next_inst (m_code e) q)) st s) \<and>
    (\<forall>t st' s'. run_ref (m_rev e) (compile_range e p (next_inst (m_code e) q)) st s = Some (t, st', s') \<longrightarrow>
      (\<exists>rc. t = Exit rc) \<or> may_end (inst_at (m_code e) q) t)"
  using assms
proof (induction arbitrary: st s rule: walk.induct)
  case (walk_refl p)
  let ?n = "next_inst (m_code e) p" and ?i = "inst_at (m_code e) p"
  have "compile_range e p ?n = Count ?i (seq (compile_inst ?i e p (drop p (m_code e))) Done)"
    using compile_range_step [of p e ?n] walk_refl next_inst_le [of p "m_code e"]
    by (simp add: compile_range.simps [of e ?n])
  moreover have "inst_ok (compile_inst ?i e p (drop p (m_code e)))"
    using walk_refl by (simp add: compile_inst_ok inst_at_def wf_decode)
  ultimately have run: "run_ref r (compile_range e p ?n) st s = run_ref r (evm_inst e p) st s" for r st s
    by (simp add: run_ref_seq_Done inst_ok_def evm_inst_def Let_def split: option.splits)
  have "ends_in (may_end ?i) (evm_inst e p)" by (simp add: evm_inst_def Let_def compile_inst_ends)
  from run_ref_ends [OF this] have
    "run_ref (m_rev e) (evm_inst e p) st s = Some (t, st', s') \<Longrightarrow> may_end ?i t" for t st' s' .
  then show ?case
    using evm_step_Running [of p e st s] walk_refl
    by (intro exI [of _ 1]) (simp add: run del: evm_step.simps)
next
  case (walk_step p q)
  let ?n = "next_inst (m_code e) p" and ?i = "inst_at (m_code e) p" and ?fin = "next_inst (m_code e) q"
  let ?P = "compile_inst ?i e p (drop p (m_code e))" and ?C = "compile_range e ?n ?fin"
  have g: "p < length (m_code e)" "\<not> ends_dead ?i" "?i \<noteq> JUMPI" "?n < length (m_code e)"
    using walk_step.hyps(1) by (simp_all add: goes_on_def)
  have le: "?n \<le> ?fin" "?fin \<le> length (m_code e)"
    using walk_le [OF walk_step.hyps(2)] next_inst_less [of q "m_code e"] next_inst_le walk_step.prems
    by (simp_all add: order_trans less_imp_le)
  have C: "compile_range e p ?fin = Count ?i (seq ?P ?C)"
    using compile_range_step [OF g(1) le] .
  have nf: "no_fall_end ?P"
    using compile_inst_ok [of ?i e p] walk_step.prems by (simp add: inst_ok_def inst_at_def wf_decode)
  have run: "run_ref r (compile_range e p ?fin) st s =
      (case run_ref r (evm_inst e p) st s of Some (Fall, st', s') \<Rightarrow> run_ref r ?C st' s' | x \<Rightarrow> x)" for r
    by (simp add: C evm_inst_def Let_def run_ref_seq [OF nf] split: option.splits)
  have ends: "run_ref r (evm_inst e p) st s = Some (t, st', s') \<Longrightarrow> may_end ?i t" for r t st' s'
    using run_ref_ends [of "may_end ?i" "evm_inst e p"] by (simp add: evm_inst_def Let_def compile_inst_ends)
  show ?case
  proof (cases "\<exists>st' s'. run_ref (m_rev e) (evm_inst e p) st s = Some (Fall, st', s')")
    case True
    then obtain st' s' where f: "run_ref (m_rev e) (evm_inst e p) st s = Some (Fall, st', s')" by blast
    then have "evm_step e (Running p st s) = Running ?n st' s'"
      using g(1) by (simp add: evm_step_Running end_config_def)
    moreover obtain k where "(evm_step e ^^ k) (Running ?n st' s') =
        end_config e ?fin (run_ref (m_rev e) ?C st' s')"
      "\<forall>t st'' s''. run_ref (m_rev e) ?C st' s' = Some (t, st'', s'') \<longrightarrow>
        (\<exists>rc. t = Exit rc) \<or> may_end (inst_at (m_code e) q) t"
      using walk_step.IH [OF walk_step.prems, of st' s'] by blast
    ultimately show ?thesis
      using f by (intro exI [of _ "Suc k"]) (simp add: run funpow_swap1 del: evm_step.simps)
  next
    case False
    have "(\<exists>rc st' s'. run_ref (m_rev e) (evm_inst e p) st s = Some (Exit rc, st', s')) \<or>
        run_ref (m_rev e) (evm_inst e p) st s = None"
    proof (cases "run_ref (m_rev e) (evm_inst e p) st s")
      case (Some x)
      obtain t st' s' where x: "x = (t, st', s')" by (cases x)
      show ?thesis
        using ends [of "m_rev e" t st' s'] Some False g(2,3) by (cases t) (auto simp: x ends_dead_def)
    qed simp
    then show ?thesis
      using evm_step_Running [OF g(1), of st s] by (intro exI [of _ 1]) (auto simp: run end_config_def)
  qed
qed


section \<open>The simulation\<close>

fun simulates :: "'h jit_env \<Rightarrow> 'h jit_config \<Rightarrow> 'h config \<Rightarrow> bool" where
  "simulates e (JitDone x) (Halted y) = (x = y)"
| "simulates e (InBlock k slots sz s) (Running pc st s') =
     (s = s' \<and> gas_ok s \<and> slots_hold slots sz st \<and> k \<le> length (createBasicBlocks (m_code e)) \<and>
      pc = start_of (m_code e) (createBasicBlocks (m_code e)) k)"
| "simulates e _ _ = False"

lemma jump_simulates:
  assumes "length (m_code e) < 2 ^ 32" "slots_hold slots sz st" "gas_ok s"
  shows "simulates e (jit_jump e d slots sz s) (evm_jump e d st s)"
proof (cases "map_of (jumpTable (m_code e)) d")
  case None
  then show ?thesis using jumpTable_None [of "m_code e" d] by (simp add: jit_jump_def evm_jump_def)
next
  case (Some k)
  then show ?thesis
    using jumpTable_Some [of "m_code e" d k] assms
    by (simp add: jit_jump_def evm_jump_def start_of_def)
qed

lemma block_ok_compiled:
  assumes "host_gas_ok e" "length (m_code e) < 2 ^ 32" "m_end b \<le> length (m_code e)"
  shows "block_ok (compileBasicBlock e b)"
  using compile_range_ok [OF assms(1), of "m_firstInstrIdx b" "m_end b"] assms(2,3)
  by (auto simp: block_ok_def compileBasicBlock_def)

lemma jit_step_simulates:
  assumes host: "host_gas_ok e" and len: "length (m_code e) < 2 ^ 32"
    and sim: "simulates e (InBlock k slots sz s) (Running pc st s)"
  shows "\<exists>n > 0. simulates e (jit_step e (InBlock k slots sz s)) ((evm_step e ^^ n) (Running pc st s))"
proof (cases "k < length (createBasicBlocks (m_code e))")
  case False
  then show ?thesis
    using sim by (intro exI [of _ 1]) (simp add: start_of_def)
next
  case True
  let ?bs = "createBasicBlocks (m_code e)" let ?b = "?bs ! k" let ?p = "compileBasicBlock e ?b"
  let ?nxt = "start_of (m_code e) ?bs (k + 1)"
  obtain q where q: "q < length (m_code e)" "walk (m_code e) (m_firstInstrIdx ?b) q"
    "next_inst (m_code e) q = m_end ?b" "ends_dead (inst_at (m_code e) q) \<or> ?nxt = m_end ?b"
    using blocks_block_at [OF True] by (auto simp: block_at_def)
  have st: "gas_ok s" "slots_hold slots sz st" "pc = m_firstInstrIdx ?b"
    using sim True by (simp_all add: start_of_def)
  have ok: "block_ok ?p" using block_ok_compiled [OF host len] next_inst_le [OF q(1)] q(3) by simp
  note jit = block_jit_correct [OF ok st(2,1), of "m_rev e"]
  from block_run [OF q(2,1) host, of st s] obtain n where n: "n > 0"
    "(evm_step e ^^ n) (Running pc st s) = end_config e (m_end ?b) (run_ref (m_rev e) ?p st s)"
    and ends: "\<And>t st' s'. run_ref (m_rev e) ?p st s = Some (t, st', s') \<Longrightarrow>
      (\<exists>rc. t = Exit rc) \<or> may_end (inst_at (m_code e) q) t"
    by (auto simp: q(3) st(3) compileBasicBlock_def)
  have "simulates e (jit_step e (InBlock k slots sz s)) (end_config e (m_end ?b) (run_ref (m_rev e) ?p st s))"
  proof (cases "run_ref (m_rev e) ?p st s")
    case None
    then show ?thesis using jit True by (simp add: end_config_def)
  next
    case (Some x)
    obtain t st' s' where x: "x = (t, st', s')" by (cases x)
    obtain slots' sz' where b: "block_jit (m_rev e) ?p slots sz s = Some (t, slots', sz', s')"
      and hold: "slots_hold slots' sz' st'"
      using jit Some x by auto
    have g: "gas_ok s'"
      using run_ref_spends [of False ?p s "m_rev e" st t st' s'] ok st(1) Some x by (simp add: block_ok_def)
    have "\<not> ends_dead (inst_at (m_code e) q) \<Longrightarrow> ?nxt = m_end ?b" using q(4) by blast
    with ends [of t st' s'] Some x b True g hold jump_simulates [OF len hold g] show ?thesis
      by (cases t) (auto simp: end_config_def ends_dead_def)
  qed
  with n show ?thesis by (intro exI [of _ n]) simp
qed


section \<open>The gas bounds the run\<close>

fun todo :: "'h jit_env \<Rightarrow> 'h config \<Rightarrow> nat" where
  "todo e (Halted x) = 0"
| "todo e (Running pc st s) =
     nat (sint (gas s)) * (length (m_code e) + 1) + (length (m_code e) - pc) + 1"

lemma jump_cost: "i \<in> {JUMP, JUMPI} \<Longrightarrow> 1 \<le> sint (getStepCost i r)"
  by (auto simp: tier_def schedule_def)

lemma todo_less:
  fixes g g' :: int
  assumes "0 \<le> g'" "pc < L" "g' < g \<and> pc' \<le> L \<or> g' \<le> g \<and> pc < pc'"
  shows "nat g' * (L + 1) + (L - pc') + 1 < nat g * (L + 1) + (L - pc) + (1 :: nat)"
proof (cases "g' < g")
  case True
  define a b where "a = nat g' * (L + 1)" and "b = nat g * (L + 1)"
  have "nat g' + 1 \<le> nat g" using True assms(1) by simp
  then have "(nat g' + 1) * (L + 1) \<le> b" unfolding b_def by (rule mult_le_mono1)
  then have "a + (L + 1) \<le> b" by (simp add: a_def)
  then show ?thesis using assms(2) unfolding a_def [symmetric] b_def [symmetric] by linarith
next
  case False
  then have "g' = g" "pc < pc'" using assms(3) by auto
  then show ?thesis using assms(2) by simp
qed

lemma valid_dest_less: "valid_dest code d \<Longrightarrow> unat d < length code"
  using inst_starts_less by (auto simp: valid_dest_def)

lemma evm_inst_gas:
  assumes "host_gas_ok e" "gas_ok s" "run_ref (m_rev e) (evm_inst e pc) st s = Some (t, st', s')"
  shows "gas_ok s'" "sint (gas s') + sint (getStepCost (inst_at (m_code e) pc) (m_rev e)) \<le> sint (gas s)"
    "may_end (inst_at (m_code e) pc) t" "0 \<le> sint (getStepCost (inst_at (m_code e) pc) (m_rev e))"
proof -
  let ?i = "inst_at (m_code e) pc" let ?c = "getStepCost ?i (m_rev e)"
  let ?p = "compile_inst ?i e pc (drop pc (m_code e))"
  have wf: "wf_inst ?i" by (simp add: inst_at_def wf_decode)
  show c: "0 \<le> sint ?c" using getStepCost_ok [OF wf] by (simp add: cost_ok_def)
  obtain s1 where s1: "count64 ?c s = Some s1" "run_ref (m_rev e) ?p st s1 = Some (t, st', s')"
    using assms(3) by (auto simp: evm_inst_def Let_def count64_def split: option.splits)
  note ok1 = count64_spent(2,3) [OF assms(2) c s1(1)]
  have "inst_ok ?p" by (rule compile_inst_ok [OF wf assms(1)])
  then have "gas_ok s' \<and> sint (gas s') \<le> sint (gas s1)"
    using run_ref_spends [of True ?p s1, OF _ _ _ ok1(2) s1(2)] by (simp add: inst_ok_def)
  then show "gas_ok s'" "sint (gas s') + sint ?c \<le> sint (gas s)" using ok1(1) by simp_all
  show "may_end ?i t" by (rule run_ref_ends [OF compile_inst_ends s1(2)])
qed

lemma evm_step_progress:
  assumes "host_gas_ok e" "gas_ok s" "evm_step e (Running pc st s) = Running pc' st' s'"
  shows "gas_ok s' \<and> pc < length (m_code e) \<and> (sint (gas s') < sint (gas s) \<and> pc' \<le> length (m_code e) \<or>
    sint (gas s') \<le> sint (gas s) \<and> pc < pc')"
proof -
  let ?L = "length (m_code e)" and ?n = "next_inst (m_code e) pc"
  have pc: "pc < ?L" using assms(3) by (cases "pc < ?L") simp_all
  have "end_config e ?n (run_ref (m_rev e) (evm_inst e pc) st s) = Running pc' st' s'"
    using assms(3) unfolding evm_step_Running [OF pc] .
  then obtain t st1 s1 where run: "run_ref (m_rev e) (evm_inst e pc) st s = Some (t, st1, s1)"
    and aft: "after e ?n t st1 s1 = Running pc' st' s'"
    by (auto simp: end_config_def split: option.splits)
  note g = evm_inst_gas [OF assms(1,2) run]
  have jump: "evm_jump e d st1 s1 = Running pc' st' s' \<Longrightarrow> s' = s1 \<and> pc' < ?L" for d
    using valid_dest_less by (auto simp: evm_jump_def split: if_splits)
  have cost: "inst_at (m_code e) pc \<in> {JUMP, JUMPI} \<Longrightarrow> sint (gas s1) < sint (gas s)"
    using jump_cost [of "inst_at (m_code e) pc" "m_rev e"] g(2) by simp
  have le: "sint (gas s1) \<le> sint (gas s)" using g(2,4) by simp
  show ?thesis
  proof (cases t)
    case (Br d)
    then show ?thesis using aft pc g(1,3) jump [of d] cost by simp
  next
    case (CondBr d c)
    then show ?thesis
      using aft pc g(1,3) jump [of d] cost le next_inst_less [of pc "m_code e"] by (cases c) auto
  qed (use aft pc g(1) le next_inst_less [of pc "m_code e"] in auto)
qed

lemma evm_step_todo:
  assumes "host_gas_ok e" "gas_ok s"
  shows "todo e (evm_step e (Running pc st s)) < todo e (Running pc st s)"
proof (cases "evm_step e (Running pc st s)")
  case (Running pc' st' s')
  note p = evm_step_progress [OF assms Running]
  with todo_less [of "sint (gas s')" pc "length (m_code e)" "sint (gas s)" pc']
  show ?thesis unfolding Running by (simp add: gas_ok_def)
qed simp

lemma evm_steps_todo:
  assumes "host_gas_ok e" "gas_ok s" "0 < n"
  shows "todo e ((evm_step e ^^ n) (Running pc st s)) < todo e (Running pc st s) \<and>
    (\<forall>pc' st' s'. (evm_step e ^^ n) (Running pc st s) = Running pc' st' s' \<longrightarrow> gas_ok s')"
  using assms(3)
proof (induction n)
  case (Suc n)
  show ?case
  proof (cases "(evm_step e ^^ n) (Running pc st s)")
    case (Running pc1 st1 s1)
    have ok: "gas_ok s1 \<and> todo e (Running pc1 st1 s1) \<le> todo e (Running pc st s)"
      using Suc.IH Running assms(2) by (cases "n = 0") simp_all
    then show ?thesis
      using evm_step_todo [OF assms(1), of s1 pc1 st1] evm_step_progress [OF assms(1), of s1 pc1 st1]
      by (auto simp: Running simp del: evm_step.simps todo.simps)
  qed simp
qed simp

text \<open>Compiled code follows the machine to its end.\<close>

lemma jit_runs:
  assumes "host_gas_ok e" "length (m_code e) < 2 ^ 32" "simulates e j c" "todo e c \<le> n"
  shows "\<exists>x m. (jit_step e ^^ n) j = JitDone x \<and> (evm_step e ^^ m) c = Halted x"
  using assms(3,4)
proof (induction n arbitrary: j c)
  case 0
  then show ?case
    by (cases c; cases j) (auto intro: exI [of _ "0 :: nat"])
next
  case (Suc n)
  show ?case
  proof (cases c)
    case (Halted x)
    then have "j = JitDone x" using Suc.prems(1) by (cases j) auto
    moreover have "(jit_step e ^^ k) (JitDone x) = JitDone x" for k by (induction k) simp_all
    ultimately show ?thesis using Halted by (intro exI [of _ x] exI [of _ 0]) simp
  next
    case (Running pc st s)
    then obtain k slots sz where j: "j = InBlock k slots sz s" and g: "gas_ok s"
      using Suc.prems(1) by (cases j) auto
    obtain i where i: "0 < i" "simulates e (jit_step e j) ((evm_step e ^^ i) c)"
      using jit_step_simulates [OF assms(1,2), of k slots sz s pc st] Suc.prems(1) Running j by auto
    have "todo e ((evm_step e ^^ i) c) < todo e c"
      using evm_steps_todo [OF assms(1) g i(1)] Running by simp
    then obtain x m where "(jit_step e ^^ n) (jit_step e j) = JitDone x"
      "(evm_step e ^^ m) ((evm_step e ^^ i) c) = Halted x"
      using Suc.IH [OF i(2)] Suc.prems(2) by auto
    then have "(jit_step e ^^ Suc n) j = JitDone x \<and> (evm_step e ^^ (m + i)) c = Halted x"
      by (simp add: funpow_swap1 funpow_add del: evm_step.simps jit_step.simps)
    then show ?thesis by blast
  qed
qed


lemma jit_start:
  assumes "gas_ok s"
  shows "simulates e (InBlock 0 slots 0 s) (Running 0 [] s)"
  using assms blocks_start [of "m_code e"] by (simp add: slots_hold_def)

lemma jit_main_ends:
  assumes "host_gas_ok e" "length (m_code e) < 2 ^ 32" "gas_ok s"
  shows "\<exists>x m. jit_main e ((nat (sint (gas s)) + 1) * (length (m_code e) + 1)) slots s = JitDone x \<and>
    (evm_step e ^^ m) (Running 0 [] s) = Halted x"
  unfolding jit_main_def
  by (rule jit_runs [OF assms(1,2) jit_start [OF assms(3)]]) (simp add: algebra_simps)

lemma jit_main_unique:
  assumes "jit_main e n slots s = JitDone x" "jit_main e m slots s = JitDone y"
  shows "x = y"
  using assms funpow_stays [of "jit_step e" "JitDone x" n _ m]
    funpow_stays [of "jit_step e" "JitDone y" m _ n]
  by (cases "n \<le> m") (auto simp: jit_main_def)

lemma evm_steps_unique:
  assumes "(evm_step e ^^ n) c = Halted x" "(evm_step e ^^ m) c = Halted y"
  shows "x = y"
  using assms funpow_stays [of "evm_step e" "Halted x" n c m] funpow_stays [of "evm_step e" "Halted y" m c n]
  by (cases "n \<le> m") auto


section \<open>Invariants of a run\<close>

text \<open>What every operation of a program keeps, the program keeps, and so does a run of the machine.\<close>

definition keeps :: "('h rt \<Rightarrow> bool) \<Rightarrow> ('h rt \<Rightarrow> 'h rt option) \<Rightarrow> bool" where
  "keeps I f \<longleftrightarrow> (\<forall>s s'. I s \<and> f s = Some s' \<longrightarrow> I s')"

primrec preserves :: "evm_revision \<Rightarrow> ('h rt \<Rightarrow> bool) \<Rightarrow> 'h eprog \<Rightarrow> bool" where
  "preserves r I Done = True"
| "preserves r I (Terminate t) = True"
| "preserves r I (Count i p) =
     (keeps I (gas_check (getStepCost i r)) \<and> preserves r I p)"
| "preserves r I (Commit p) = preserves r I p"
| "preserves r I (Push v p) = preserves r I p"
| "preserves r I (Pop k) = (\<forall>v. preserves r I (k v))"
| "preserves r I (Dup i p) = preserves r I p"
| "preserves r I (Swap i p) = preserves r I p"
| "preserves r I (Do f p) = (keeps I f \<and> preserves r I p)"
| "preserves r I (Ask f k) = (\<forall>v. preserves r I (k v))"

lemma run_ref_preserves:
  "preserves r I p \<Longrightarrow> I s \<Longrightarrow> run_ref r p st s = Some (t, st', s') \<Longrightarrow> I s'"
  by (induction p arbitrary: st s) (fastforce simp: keeps_def split: option.splits)+

fun config_inv :: "('h rt \<Rightarrow> bool) \<Rightarrow> 'h config \<Rightarrow> bool" where
  "config_inv I (Running pc st s) = I s"
| "config_inv I (Halted (Exited rc s)) = I s"
| "config_inv I (Halted Aborted) = True"

lemma end_config_inv:
  assumes "\<And>t st' s'. x = Some (t, st', s') \<Longrightarrow> I s'"
  shows "config_inv I (end_config e nxt x)"
proof (cases x)
  case (Some y)
  obtain t st' s' where "y = (t, st', s')" by (cases y)
  with Some assms show ?thesis
    by (cases t) (simp_all add: end_config_def evm_jump_def)
qed (simp add: end_config_def)

lemma evm_steps_inv:
  assumes "\<And>pc st s t st' s'. I s \<Longrightarrow> run_ref (m_rev e) (evm_inst e pc) st s = Some (t, st', s') \<Longrightarrow> I s'"
    "config_inv I c"
  shows "config_inv I ((evm_step e ^^ n) c)"
proof (induction n)
  case (Suc n)
  show ?case
  proof (cases "(evm_step e ^^ n) c")
    case (Running pc st s)
    show ?thesis
    proof (cases "pc < length (m_code e)")
      case True
      have "config_inv I (end_config e (next_inst (m_code e) pc) (run_ref (m_rev e) (evm_inst e pc) st s))"
        using Suc.IH assms(1) [of s pc st] by (intro end_config_inv) (simp add: Running)
      then show ?thesis by (simp only: funpow.simps comp_apply Running evm_step_Running [OF True])
    qed (use Suc.IH Running in simp)
  qed (use Suc.IH in simp)
qed (simp add: assms(2))

text \<open>The same for compiled code, through the correspondence.\<close>

lemma jit_main_inv:
  assumes "host_gas_ok e" "length (m_code e) < 2 ^ 32" "gas_ok s"
    and inv: "\<And>pc st s t st' s'. I s \<Longrightarrow> run_ref (m_rev e) (evm_inst e pc) st s = Some (t, st', s') \<Longrightarrow> I s'"
    and "I s" "jit_main e n slots s = JitDone (Exited rc s')"
  shows "I s'"
proof -
  obtain y k m where "jit_main e k slots s = JitDone y" "(evm_step e ^^ m) (Running 0 [] s) = Halted y"
    using jit_main_ends [OF assms(1-3)] by blast
  moreover then have "y = Exited rc s'" using jit_main_unique assms(6) by blast
  ultimately show ?thesis
    using evm_steps_inv [of I e "Running 0 [] s" m] inv assms(5) by simp
qed


lemma jit_main_spends:
  assumes "host_gas_ok e" "length (m_code e) < 2 ^ 32" "gas_ok s" "jit_main e n slots s = JitDone (Exited rc s')"
  shows "gas_ok s' \<and> sint (gas s') \<le> sint (gas s)"
proof (rule jit_main_inv [OF assms(1-3), where I = "\<lambda>x. gas_ok x \<and> sint (gas x) \<le> sint (gas s)"])
  fix pc st x t st' x'
  assume "gas_ok x \<and> sint (gas x) \<le> sint (gas s)"
    "run_ref (m_rev e) (evm_inst e pc) st x = Some (t, st', x')"
  then show "gas_ok x' \<and> sint (gas x') \<le> sint (gas s)"
    using evm_inst_gas [OF assms(1), of x pc st t st' x'] by force
qed (use assms(3,4) in simp_all)

text \<open>
  The gas counter between two blocks and after the last one. An aborted run reports no gas left, whatever its
  counter was.
\<close>

fun jit_gas :: "'h jit_config \<Rightarrow> int" where
  "jit_gas (InBlock k slots sz s) = sint (gas s)"
| "jit_gas (JitDone (Exited rc s)) = sint (gas s)"
| "jit_gas (JitDone Aborted) = 0"

fun evm_gas :: "'h config \<Rightarrow> int" where
  "evm_gas (Running pc st s) = sint (gas s)"
| "evm_gas (Halted (Exited rc s)) = sint (gas s)"
| "evm_gas (Halted Aborted) = 0"

lemma evm_gas_inv:
  "config_inv (\<lambda>x. gas_ok x \<and> sint (gas x) \<le> g) c \<Longrightarrow> 0 \<le> g \<Longrightarrow> 0 \<le> evm_gas c \<and> evm_gas c \<le> g"
  by (cases c rule: evm_gas.cases) (simp_all add: gas_ok_def)

lemma evm_steps_spend:
  assumes "host_gas_ok e" "config_inv (\<lambda>x. gas_ok x \<and> sint (gas x) \<le> g) c"
  shows "config_inv (\<lambda>x. gas_ok x \<and> sint (gas x) \<le> g) ((evm_step e ^^ n) c)"
proof (rule evm_steps_inv [OF _ assms(2)])
  fix pc st x t st' x'
  assume "gas_ok x \<and> sint (gas x) \<le> g" "run_ref (m_rev e) (evm_inst e pc) st x = Some (t, st', x')"
  then show "gas_ok x' \<and> sint (gas x') \<le> g"
    using evm_inst_gas [OF assms(1), of x pc st t st' x'] by force
qed

lemma evm_gas_falls:
  assumes "host_gas_ok e" "config_inv gas_ok c"
  shows "config_inv gas_ok ((evm_step e ^^ n) c)" "0 \<le> evm_gas ((evm_step e ^^ n) c)"
    "evm_gas ((evm_step e ^^ n) c) \<le> evm_gas c"
proof -
  have "config_inv (\<lambda>x. gas_ok x \<and> sint (gas x) \<le> evm_gas c) c \<and> 0 \<le> evm_gas c"
    using assms(2) by (cases c rule: evm_gas.cases) (simp_all add: gas_ok_def)
  moreover from this have inv: "config_inv (\<lambda>x. gas_ok x \<and> sint (gas x) \<le> evm_gas c) ((evm_step e ^^ n) c)"
    using evm_steps_spend [OF assms(1)] by blast
  ultimately show "0 \<le> evm_gas ((evm_step e ^^ n) c)" "evm_gas ((evm_step e ^^ n) c) \<le> evm_gas c"
    using evm_gas_inv by blast+
  show "config_inv gas_ok ((evm_step e ^^ n) c)"
    using inv by (cases "(evm_step e ^^ n) c" rule: evm_gas.cases) simp_all
qed

lemma simulates_gas: "simulates e j c \<Longrightarrow> jit_gas j = evm_gas c"
  by (cases j rule: jit_gas.cases; cases c rule: evm_gas.cases) simp_all

lemma jit_follows:
  assumes "host_gas_ok e" "length (m_code e) < 2 ^ 32" "simulates e j c"
  shows "\<exists>m. simulates e ((jit_step e ^^ n) j) ((evm_step e ^^ m) c)"
proof (induction n)
  case 0
  show ?case using assms(3) by (intro exI [of _ 0]) simp
next
  case (Suc n)
  then obtain m where m: "simulates e ((jit_step e ^^ n) j) ((evm_step e ^^ m) c)" by blast
  show ?case
  proof (cases "(jit_step e ^^ n) j")
    case (InBlock k slots sz s)
    obtain pc st where c: "(evm_step e ^^ m) c = Running pc st s"
      using m InBlock by (cases "(evm_step e ^^ m) c") auto
    obtain i where "simulates e (jit_step e (InBlock k slots sz s)) ((evm_step e ^^ i) (Running pc st s))"
      using jit_step_simulates [OF assms(1,2)] m InBlock c by metis
    then have "simulates e ((jit_step e ^^ Suc n) j) ((evm_step e ^^ (i + m)) c)"
      by (simp add: funpow_add InBlock c del: evm_step.simps jit_step.simps)
    then show ?thesis by blast
  qed (use m in auto)
qed

lemma jit_gas_falls:
  assumes "host_gas_ok e" "length (m_code e) < 2 ^ 32" "gas_ok s"
  shows "0 \<le> jit_gas (jit_main e (n + m) slots s)"
    "jit_gas (jit_main e (n + m) slots s) \<le> jit_gas (jit_main e n slots s)"
proof -
  let ?j = "InBlock 0 slots 0 s"
  obtain a where a: "simulates e ((jit_step e ^^ n) ?j) ((evm_step e ^^ a) (Running 0 [] s))"
    using jit_follows [OF assms(1,2) jit_start [OF assms(3)]] by blast
  obtain b where b: "simulates e ((jit_step e ^^ m) ((jit_step e ^^ n) ?j))
      ((evm_step e ^^ b) ((evm_step e ^^ a) (Running 0 [] s)))"
    using jit_follows [OF assms(1,2) a] by blast
  have "config_inv gas_ok ((evm_step e ^^ a) (Running 0 [] s))"
    using evm_gas_falls(1) [OF assms(1), of "Running 0 [] s"] assms(3) by simp
  note f = evm_gas_falls [OF assms(1) this, of b]
  have "jit_main e (n + m) slots s = (jit_step e ^^ m) ((jit_step e ^^ n) ?j)"
    by (simp only: jit_main_def add.commute [of n] funpow_add comp_apply)
  with f simulates_gas [OF a] simulates_gas [OF b]
  show "0 \<le> jit_gas (jit_main e (n + m) slots s)"
    "jit_gas (jit_main e (n + m) slots s) \<le> jit_gas (jit_main e n slots s)"
    by (simp_all add: jit_main_def)
qed


section \<open>Overdrawn runs\<close>

text \<open>
  Code that is started with a negative amount of gas ends in its first block: either the check of its first cost
  block fails, or its first instruction costs nothing, and then it stops or finds the stack empty.
\<close>

lemma overdrawn_check:
  assumes "- (2 ^ 62) \<le> sint (gas s)" "sint (gas s) < 0" "0 \<le> sint c" "sint c < 2 ^ 62"
  shows "gas_check c s = None"
proof -
  have "sint (gas s - c) = sint (gas s) - sint c" using assms by (intro sint64_diff) auto
  with assms(2,3) show ?thesis by (simp add: gas_check_def Let_def word_sle_zero)
qed

lemma free_first_inst:
  assumes "wf_inst i" "getStepCost i r = 0" "run_chk (seq (compile_inst i e it rest) q) [] True cs s = Some (t, st', s')"
  shows "(\<exists>rc. t = Exit rc) \<and> s' = s"
proof (cases "\<exists>n. i = LOG n")
  case True
  then obtain n where n: "i = LOG n" "n \<le> 4" using assms(1) by auto
  then have "n = 0 \<or> n = 1 \<or> n = 2 \<or> n = 3 \<or> n = 4" by arith
  with assms(2) show ?thesis by (auto simp: n(1) schedule_def split: if_splits)
next
  case False
  with assms(2,3) show ?thesis
    by (cases i) (auto simp: emit_defs st_pop_def tier_def since_tangerine_def schedule_def Let_def split: if_splits prod.splits)
qed

lemma overdrawn_block:
  assumes host: "host_gas_ok e" and len: "length (m_code e) < 2 ^ 32" "m_end b \<le> length (m_code e)" "m_firstInstrIdx b < m_end b"
    and gas: "- (2 ^ 62) \<le> sint (gas s)" "sint (gas s) < 0"
  shows "block_jit r (compileBasicBlock e b) slots 0 s = None \<or>
    (\<exists>rc slots' sz'. block_jit r (compileBasicBlock e b) slots 0 s = Some (Exit rc, slots', sz', s))"
proof -
  let ?it = "m_firstInstrIdx b" let ?rest = "drop ?it (take (m_end b) (m_code e))" let ?i = "decode (hd ?rest)"
  let ?q = "seq (compile_inst ?i e ?it ?rest) (compile_range e (inst_end ?i ?it ?rest + 1) (m_end b))"
  let ?p = "compileBasicBlock e b"
  have p: "?p = Count ?i ?q"
    using len(3) by (simp add: compileBasicBlock_def compile_range.simps [of e ?it] Let_def)
  have tr: "list_all ev_ok (trace ?p)" "uniform ?p" "length (trace ?p) < 2 ^ 40"
    using block_ok_compiled [OF host len(1,2)] by (simp_all add: block_ok_def)
  let ?c = "getStepCost ?i r + tr_cost r (trace ?q)"
  have c: "sint ?c = sint (getStepCost ?i r) + sint (tr_cost r (trace ?q))" "0 \<le> sint (getStepCost ?i r)" "0 \<le> sint (tr_cost r (trace ?q))"
    using tr_cost_Count [of ?i "trace ?q" r] tr(1,3) by (simp_all add: p)
  have "sint (tr_cost r (trace ?p)) \<le> 200000 * int (length (trace ?p))" using tr_cost_range [OF tr(1,3)] by blast
  then have small: "sint ?c < 2 ^ 62" using tr(3) by (simp add: p)
  have "slots_hold slots 0 []" by (simp add: slots_hold_def)
  note sim = block_jit_chk [OF tr this, of r s]
  show ?thesis
  proof (cases "run_chk ?p [] False (tr_checks r False (trace ?p)) s")
    case None
    with sim show ?thesis by simp
  next
    case (Some x)
    obtain t st' s' where x: "x = (t, st', s')" by (cases x)
    have "?c = 0"
    proof (rule ccontr)
      assume "?c \<noteq> 0"
      then show False using Some overdrawn_check [OF gas _ small] c by (simp add: p check_of_def)
    qed
    then have "sint ?c = 0" by simp
    with c have "sint (getStepCost ?i r) = 0" by linarith
    then have free: "getStepCost ?i r = 0" by (simp only: signed_eq_0_iff)
    have "\<exists>cs. run_chk ?q [] True cs s = Some (t, st', s')" using Some x \<open>?c = 0\<close> by (auto simp: p check_of_def)
    then have "(\<exists>rc. t = Exit rc) \<and> s' = s" using free_first_inst [OF wf_decode free] by blast
    with sim Some x show ?thesis by auto
  qed
qed

lemma jit_main_overdrawn:
  assumes "host_gas_ok e" "length (m_code e) < 2 ^ 32" "- (2 ^ 62) \<le> sint (gas s)" "sint (gas s) < 0"
  shows "\<exists>x. jit_main e (Suc n) slots s = JitDone x \<and> (\<forall>rc s'. x = Exited rc s' \<longrightarrow> s' = s)"
proof -
  let ?bs = "createBasicBlocks (m_code e)"
  have "\<exists>x. jit_step e (InBlock 0 slots 0 s) = JitDone x \<and> (\<forall>rc s'. x = Exited rc s' \<longrightarrow> s' = s)"
  proof (cases "?bs = []")
    case False
    then have "0 < length ?bs" by simp
    from blocks_block_at [OF this] obtain q where "walk (m_code e) (m_firstInstrIdx (?bs ! 0)) q" "q < length (m_code e)"
      "next_inst (m_code e) q = m_end (?bs ! 0)" by (auto simp: block_at_def)
    then have "m_end (?bs ! 0) \<le> length (m_code e)" "m_firstInstrIdx (?bs ! 0) < m_end (?bs ! 0)"
      using next_inst_le [of q "m_code e"] next_inst_less [of q "m_code e"] walk_le [of "m_code e"] by force+
    from overdrawn_block [OF assms(1,2) this assms(3,4), of "m_rev e" slots] \<open>0 < length ?bs\<close> show ?thesis by auto
  qed simp
  then obtain x where x: "jit_step e (InBlock 0 slots 0 s) = JitDone x" "\<forall>rc s'. x = Exited rc s' \<longrightarrow> s' = s" by blast
  moreover have "(jit_step e ^^ n) (JitDone x) = JitDone x" for n by (induction n) simp_all
  ultimately show ?thesis by (simp add: jit_main_def funpow_Suc_right del: funpow.simps jit_step.simps)
qed


section \<open>Properties\<close>

text \<open>
  C1: the compiled code runs like the machine. For every code of less than 4 GB and every gas the
  host can hand out, the blocks of the compiled code, with one stack check and one gas check per
  cost block, cached stack slots and jumps through the jump table, end in the same outcome as the
  machine that checks, pays for and executes one instruction after the other: the same return code
  with the same gas, memory, return data and host, or an abort.
\<close>

theorem compiled_code_runs_like_machine:
  assumes "host_gas_ok e" "length (m_code e) < 2 ^ 32" "0 \<le> sint (gas s)" "gas s \<noteq> gasMax"
  shows "(\<exists>n. jit_main e n slots s = JitDone x) \<longleftrightarrow> (\<exists>m. (evm_step e ^^ m) (Running 0 [] s) = Halted x)"
proof -
  have "gas_ok s" using assms(3,4) by (simp add: gas_ok_def)
  then obtain y n m where "jit_main e n slots s = JitDone y" "(evm_step e ^^ m) (Running 0 [] s) = Halted y"
    using jit_main_ends [OF assms(1,2)] by blast
  then show ?thesis using jit_main_unique evm_steps_unique by metis
qed

definition sample_code_env :: "unit jit_env" where
  "sample_code_env = (sample_env EVM_AION)
     \<lparr>m_code := [0x60, 0x03, 0x56, 0x5b, 0x00]\<rparr>"

lemma sample_code_simps:
  "m_code sample_code_env = [0x60, 0x03, 0x56, 0x5b, 0x00]" "m_rev sample_code_env = EVM_AION"
  "host_gas_ok sample_code_env"
  by (simp_all add: sample_code_env_def host_gas_ok_def sample_env_def sample_fns_def)

lemma sample_insts:
  "inst_at [0x60, 0x03, 0x56, 0x5b, 0x00] 0 = PUSH 1" "inst_at [0x60, 0x03, 0x56, 0x5b, 0x00] 2 = JUMP"
  "inst_at [0x60, 0x03, 0x56, 0x5b, 0x00] 3 = JUMPDEST" "inst_at [0x60, 0x03, 0x56, 0x5b, 0x00] 4 = STOP"
  by (simp_all add: inst_at_def decode_def row_00_def row_50_def)

lemma sample_check:
  "gas_check (getStepCost (PUSH (Suc 0)) EVM_AION) (sample_rt 100) = Some (sample_rt 99)"
  "gas_check (getStepCost JUMP EVM_AION) (sample_rt 99) = Some (sample_rt 98)"
  "gas_check (getStepCost JUMPDEST EVM_AION) (sample_rt 98) = Some (sample_rt 97)"
  "gas_check (getStepCost STOP EVM_AION) (sample_rt 97) = Some (sample_rt 97)"
  by (simp_all add: gas_check_def Let_def tier_def schedule_def sample_rt_def word_sle_eq)

lemma sample_starts: "inst_starts [0x60, 0x03, 0x56, 0x5b, 0x00] 0 = [0, 2, 3, 4]"
  by (simp add: inst_starts.simps next_inst_def skipPushDataAndGetNext_def)

lemma sample_push: "readPushData [0x60, 0x03, 0x56, 0x5b, 0x00] = (128, 3, 1)"
  by (simp add: readPushData_def numBytes_def Let_def)

lemma sample_steps:
  "evm_step sample_code_env (Running 0 [] (sample_rt 100)) = Running 2 [3] (sample_rt 99)"
  "evm_step sample_code_env (Running 2 [3] (sample_rt 99)) = Running 3 [] (sample_rt 98)"
  "evm_step sample_code_env (Running 3 [] (sample_rt 98)) = Running 4 [] (sample_rt 97)"
  "evm_step sample_code_env (Running 4 [] (sample_rt 97)) = Halted (Exited Stop (sample_rt 97))"
  by (simp_all add: sample_code_simps evm_inst_def sample_insts sample_check Let_def
      emit_PUSH_def sample_push st_push_def st_pop_def emit_JUMP_def evm_jump_def
      valid_dest_def sample_starts next_inst_def skipPushDataAndGetNext_def del: getStepCost.simps)

lemma sample_run:
  "\<exists>m. (evm_step sample_code_env ^^ m) (Running 0 [] (sample_rt 100)) = Halted (Exited Stop (sample_rt 97))"
  by (rule exI [of _ "Suc (Suc (Suc (Suc 0)))"]) (simp only: funpow.simps comp_apply id_apply sample_steps)

theorem compiled_code_runs_witness:
  "\<exists>n. jit_main sample_code_env n (\<lambda>_. 0) (sample_rt 100) = JitDone (Exited Stop (sample_rt 97))"
  using compiled_code_runs_like_machine [of sample_code_env "sample_rt 100" "\<lambda>_. 0"] sample_run
  by (auto simp: sample_code_simps sample_rt_def gasMax_def)


text \<open>
  C2: compiled code terminates. Within as many blocks as one more than the gas, times one more than the
  length of the code, it has stopped: every jump costs gas and everything else moves forward. Code that is started
  with a negative amount of gas stops in its first block.
\<close>

theorem compiled_code_terminates:
  assumes "host_gas_ok e" "length (m_code e) < 2 ^ 32" "- (2 ^ 62) \<le> sint (gas s)" "gas s \<noteq> gasMax"
  shows "\<exists>x. jit_main e ((nat (sint (gas s)) + 1) * (length (m_code e) + 1)) slots s = JitDone x"
proof (cases "0 \<le> sint (gas s)")
  case True
  then show ?thesis using jit_main_ends [OF assms(1,2)] assms(4) by (fastforce simp: gas_ok_def)
next
  case False
  then have "(nat (sint (gas s)) + 1) * (length (m_code e) + 1) = Suc (length (m_code e))" by simp
  then show ?thesis using jit_main_overdrawn [OF assms(1-3)] False by (metis not_le)
qed

definition sample_loop_env :: "unit jit_env" where
  "sample_loop_env = (sample_env EVM_AION)
     \<lparr>m_code := [0x5b, 0x60, 0x00, 0x56]\<rparr>"

theorem compiled_code_terminates_witness:
  "\<exists>x. jit_main sample_loop_env ((nat (sint (gas (sample_rt 50))) + 1) * (length (m_code sample_loop_env) + 1))
     (\<lambda>_. 0) (sample_rt 50) = JitDone x"
  by (rule compiled_code_terminates)
    (simp_all add: sample_loop_env_def host_gas_ok_def sample_env_def sample_fns_def
      sample_rt_def gasMax_def)

text \<open>
  C8: gas only goes down. Whenever compiled code is between two blocks, and when it has ended, its gas counter
  is not negative and not above what it was after any smaller number of blocks, also when it called other contracts and had
  gas given back in between. The same holds after every single instruction of the machine.
\<close>

theorem compiled_code_spends_gas:
  assumes "host_gas_ok e" "length (m_code e) < 2 ^ 32" "0 \<le> sint (gas s)" "gas s \<noteq> gasMax"
  shows "jit_gas (jit_main e 0 slots s) = sint (gas s) \<and>
    0 \<le> jit_gas (jit_main e (n + m) slots s) \<and>
    jit_gas (jit_main e (n + m) slots s) \<le> jit_gas (jit_main e n slots s) \<and>
    0 \<le> evm_gas ((evm_step e ^^ (n + m)) (Running 0 [] s)) \<and>
    evm_gas ((evm_step e ^^ (n + m)) (Running 0 [] s)) \<le> evm_gas ((evm_step e ^^ n) (Running 0 [] s))"
proof -
  have ok: "gas_ok s" using assms(3,4) by (simp add: gas_ok_def)
  have inv: "config_inv gas_ok ((evm_step e ^^ k) (Running 0 [] s))" for k
    using evm_gas_falls(1) [OF assms(1), of "Running 0 [] s"] ok by simp
  have "(evm_step e ^^ (n + m)) (Running 0 [] s) = (evm_step e ^^ m) ((evm_step e ^^ n) (Running 0 [] s))"
    by (simp only: add.commute [of n] funpow_add comp_apply)
  with evm_gas_falls(2,3) [OF assms(1) inv, of m n] jit_gas_falls [OF assms(1,2) ok, of n m slots]
  show ?thesis by (simp add: jit_main_def)
qed

theorem compiled_code_spends_gas_witness:
  "0 \<le> jit_gas (jit_main sample_loop_env (3 + 2) (\<lambda>_. 0) (sample_rt 100)) \<and>
   jit_gas (jit_main sample_loop_env (3 + 2) (\<lambda>_. 0) (sample_rt 100)) \<le>
     jit_gas (jit_main sample_loop_env 3 (\<lambda>_. 0) (sample_rt 100)) \<and>
   jit_gas (jit_main sample_loop_env 0 (\<lambda>_. 0) (sample_rt 100)) = 100"
proof -
  have "host_gas_ok sample_loop_env" "length (m_code sample_loop_env) < 2 ^ 32"
    "0 \<le> sint (gas (sample_rt 100))" "gas (sample_rt 100) \<noteq> gasMax" "sint (gas (sample_rt 100)) = 100"
    by (simp_all add: sample_loop_env_def host_gas_ok_def sample_env_def sample_fns_def sample_rt_def gasMax_def)
  with compiled_code_spends_gas [OF this(1-4), of "\<lambda>_. 0" 3 2] show ?thesis
    by (elim conjE, intro conjI; simp only:)
qed

text \<open>
  C3: a compiled block refines the machine. With the machine stack in the slots of the stack array, a
  compiled block aborts exactly when the run of its instructions aborts, and otherwise branches the
  same way and leaves the same stack in the slots and the same gas, memory, return data and host.
\<close>

theorem compiled_block_refines_machine:
  assumes "host_gas_ok e" "length (m_code e) < 2 ^ 32" "m_end b \<le> length (m_code e)"
    and "slots_hold slots sz st" "0 \<le> sint (gas s)" "gas s \<noteq> gasMax"
  shows "case run_ref (m_rev e) (compileBasicBlock e b) st s of
      None \<Rightarrow> block_jit (m_rev e) (compileBasicBlock e b) slots sz s = None
    | Some (t, st', s') \<Rightarrow> \<exists>slots' sz'.
        block_jit (m_rev e) (compileBasicBlock e b) slots sz s = Some (t, slots', sz', s') \<and>
        slots_hold slots' sz' st'"
  by (rule block_jit_correct [OF block_ok_compiled [OF assms(1-3)] assms(4)])
    (simp add: gas_ok_def assms(5,6))

theorem compiled_block_refines_witness:
  "case run_ref EVM_AION (compileBasicBlock sample_code_env \<lparr>m_firstInstrIdx = 0, m_end = 3\<rparr>) [] (sample_rt 100) of
      None \<Rightarrow> block_jit EVM_AION (compileBasicBlock sample_code_env \<lparr>m_firstInstrIdx = 0, m_end = 3\<rparr>)
          (\<lambda>_. 0) 0 (sample_rt 100) = None
    | Some (t, st', s') \<Rightarrow> \<exists>slots' sz'.
        block_jit EVM_AION (compileBasicBlock sample_code_env \<lparr>m_firstInstrIdx = 0, m_end = 3\<rparr>)
          (\<lambda>_. 0) 0 (sample_rt 100) = Some (t, slots', sz', s') \<and> slots_hold slots' sz' st'"
proof -
  have "slots_hold (\<lambda>_. 0) 0 []" "0 \<le> sint (gas (sample_rt 100))" "gas (sample_rt 100) \<noteq> gasMax"
    "length (m_code sample_code_env) < 2 ^ 32" "m_end \<lparr>m_firstInstrIdx = 0, m_end = 3\<rparr> \<le> length (m_code sample_code_env)"
    by (simp_all add: slots_hold_def sample_rt_def gasMax_def sample_code_simps)
  from compiled_block_refines_machine [OF sample_code_simps(3) this(4,5,1-3)] show ?thesis
    unfolding sample_code_simps(2) .
qed

end
