(* ===== verification/RunInvariant.thy ===== *)
theory RunInvariant
  imports CompilerCorrect
begin

text \<open>
  Invariants of compiled code. The locale \<open>run_invariant\<close> is the interface between the operations that the
  emitted code calls and a run of it: what each of these operations keeps of the state, every
  instruction keeps, and with it the machine and the compiled code. It is interpreted for the memory
  and what was paid for it, for what a static call leaves of the host, and for any property of the
  host that its own callbacks keep.
\<close>

locale run_invariant =
  fixes e :: "'h jit_env" and I :: "'h rt \<Rightarrow> bool"
  assumes charge: "I s \<Longrightarrow> 0 \<le> sint c \<Longrightarrow> gas_check c s = Some s' \<Longrightarrow> I s'"
    and mem_require: "I s \<Longrightarrow> mem_require e off n s = Some s' \<Longrightarrow> I s'"
    and storeWord: "I s \<Longrightarrow> storeWord e a w s = Some s' \<Longrightarrow> I s'"
    and storeByte: "I s \<Longrightarrow> storeByte e a w s = Some s' \<Longrightarrow> I s'"
    and copyBytes: "I s \<Longrightarrow> copyBytes e src n x d q s = Some s' \<Longrightarrow> I s'"
    and copyBytesNoPadding: "I s \<Longrightarrow> copyBytesNoPadding e src m x d q s = Some s' \<Longrightarrow> I s'"
    and loadTxCtx: "I s \<Longrightarrow> I (loadTxCtx e s)"
    and registerReturnData: "I s \<Longrightarrow> I (registerReturnData x n s)"
    and sstore: "\<not> m_staticCall e \<Longrightarrow> I s \<Longrightarrow> I (sstore e k v s)"
    and ext_log: "\<not> m_staticCall e \<Longrightarrow> I s \<Longrightarrow> I (ext_log e x n ts s)"
    and ext_selfdestruct: "\<not> m_staticCall e \<Longrightarrow> I s \<Longrightarrow> I (ext_selfdestruct e b s)"
    and do_call: "I s \<Longrightarrow> inst = CALL \<or> inst = CALLCODE \<or> v = 0 \<Longrightarrow>
      do_call e inst dg b v x n y m' s = Some s' \<Longrightarrow> I s'"
    and do_create: "\<not> m_staticCall e \<Longrightarrow> I s \<Longrightarrow> do_create e v x n s = Some s' \<Longrightarrow> I s'"
begin

lemma count64: "I s \<Longrightarrow> 0 \<le> sint c \<Longrightarrow> count64 c s = Some s' \<Longrightarrow> I s'"
  using charge by (simp add: count64_def)

lemma count128: "I s \<Longrightarrow> count128 c s = Some s' \<Longrightarrow> I s'"
  using charge [OF _ count128_cost_nonneg] by (simp add: count128_def Let_def)

lemma require: "I s \<Longrightarrow> require e off v s = Some s' \<Longrightarrow> I s'"
  using mem_require by (simp add: require_eq)

lemma counts:
  shows "I s \<Longrightarrow> countExp r x s = Some s' \<Longrightarrow> I s'"
    and "I s \<Longrightarrow> countSha3Data d s = Some s' \<Longrightarrow> I s'"
    and "I s \<Longrightarrow> countLogData r d s = Some s' \<Longrightarrow> I s'"
    and "I s \<Longrightarrow> countSStore e k v s = Some s' \<Longrightarrow> I s'"
    and "I s \<Longrightarrow> (if q then count64 (selfdestruct_penalty e b s) s else Some s) = Some s' \<Longrightarrow> I s'"
proof -
  show "I s \<Longrightarrow> countExp r x s = Some s' \<Longrightarrow> I s'"
    unfolding countExp_def by (rule count64 [OF _ countExp_cost_range(1)])
  show "I s \<Longrightarrow> countSha3Data d s = Some s' \<Longrightarrow> I s'"
    unfolding countSha3Data_def by (rule count64 [OF _ sha3_cost_nonneg])
  show "I s \<Longrightarrow> countLogData r d s = Some s' \<Longrightarrow> I s'"
    unfolding countLogData_def by (rule count128)
  show "I s \<Longrightarrow> countSStore e k v s = Some s' \<Longrightarrow> I s'"
    unfolding countSStore_def Let_def by (rule count64 [OF _ sstore_cost_nonneg])
  show "I s \<Longrightarrow> (if q then count64 (selfdestruct_penalty e b s) s else Some s) = Some s' \<Longrightarrow> I s'"
    using count64 [OF _ selfdestruct_penalty_nonneg] by (cases q) auto
qed

lemma popWords_preserves:
  "(\<And>ws. preserves r I (k ws)) \<Longrightarrow> preserves r I (popWords n ws k)"
  by (induction n arbitrary: ws) simp_all

text \<open>The same facts for whole operations.\<close>

lemma kept_require: "keeps I (require e off v)"
  unfolding keeps_def using require by blast

lemma kept_counts_1: "keeps I (countExp r x)"
  unfolding keeps_def using counts(1) by blast

lemma kept_counts_2: "keeps I (countSha3Data d)"
  unfolding keeps_def using counts(2) by blast

lemma kept_counts_3: "keeps I (countLogData r d)"
  unfolding keeps_def using counts(3) by blast

lemma kept_counts_4: "keeps I (countSStore e k v')"
  unfolding keeps_def using counts(4) by blast

lemma kept_counts_5: "keeps I (\<lambda>s. if p then count64 (selfdestruct_penalty e b s) s else Some s)"
  unfolding keeps_def using counts(5) by blast

lemma kept_storeWord: "keeps I (storeWord e a w)"
  unfolding keeps_def using storeWord by blast

lemma kept_storeByte: "keeps I (storeByte e a w)"
  unfolding keeps_def using storeByte by blast

lemma kept_copyBytes: "keeps I (copyBytes e src n x d q)"
  unfolding keeps_def using copyBytes by blast

lemma kept_copyBytesNoPadding: "keeps I (\<lambda>s. copyBytesNoPadding e (retbuf s) (of_nat (length (retbuf s))) x d q s)"
  unfolding keeps_def using copyBytesNoPadding by blast

lemma kept_do_call: "inst = CALL \<or> inst = CALLCODE \<or> v' = 0 \<Longrightarrow> keeps I (do_call e inst dg b v' x n y m)"
  unfolding keeps_def using do_call by blast

lemma kept_loadTxCtx: "keeps I (\<lambda>s. Some (loadTxCtx e s))"
  unfolding keeps_def using loadTxCtx by blast

lemma kept_registerReturnData: "keeps I (\<lambda>s. Some (registerReturnData x n s))"
  unfolding keeps_def using registerReturnData by blast

lemma kept_do_create: "\<not> m_staticCall e \<Longrightarrow> keeps I (do_create e v' x n)"
  unfolding keeps_def using do_create by blast

lemma kept_sstore: "\<not> m_staticCall e \<Longrightarrow> keeps I (\<lambda>s. Some (sstore e k v' s))"
  unfolding keeps_def using sstore by blast

lemma kept_ext_log: "\<not> m_staticCall e \<Longrightarrow> keeps I (\<lambda>s. Some (ext_log e x n ts s))"
  unfolding keeps_def using ext_log by blast

lemma kept_ext_selfdestruct: "\<not> m_staticCall e \<Longrightarrow> keeps I (\<lambda>s. Some (ext_selfdestruct e b s))"
  unfolding keeps_def using ext_selfdestruct by blast

lemma kept_extcode: "keeps I (\<lambda>s. case extcode e b s of (code, sz) \<Rightarrow> copyBytes e code sz x d q s)"
  unfolding keeps_def using copyBytes by (auto simp: case_prod_beta)

lemmas kept = kept_require kept_counts_1 kept_counts_2 kept_counts_3 kept_counts_4 kept_counts_5
  kept_storeWord kept_storeByte kept_copyBytes kept_copyBytesNoPadding kept_do_call
  kept_loadTxCtx kept_registerReturnData kept_do_create kept_sstore kept_ext_log
  kept_ext_selfdestruct kept_extcode

lemma inst_preserves: "preserves (m_rev e) I (compile_inst i e it rest)"
  by (cases i)
    (simp_all add: emit_defs emit_LOG_def loadWord_check_def Let_def kept popWords_preserves
      split: prod.splits)

lemma evm_inst_preserves: "preserves (m_rev e) I (evm_inst e pc)"
proof -
  have "0 \<le> sint (getStepCost (inst_at (m_code e) pc) (m_rev e))"
    using getStepCost_ok [OF wf_decode] by (simp add: inst_at_def cost_ok_def)
  then have "keeps I (gas_check (getStepCost (inst_at (m_code e) pc) (m_rev e)))"
    using charge unfolding keeps_def by blast
  then show ?thesis by (simp add: evm_inst_def Let_def inst_preserves)
qed

lemma evm_keeps:
  assumes "I s" "run_ref (m_rev e) (evm_inst e pc) st s = Some (t, st', s')"
  shows "I s'"
  using run_ref_preserves [OF evm_inst_preserves assms] .

lemma evm_run_keeps: "config_inv I c \<Longrightarrow> config_inv I ((evm_step e ^^ n) c)"
  by (rule evm_steps_inv [OF evm_keeps])

lemma jit_keeps:
  assumes "host_gas_ok e" "length (m_code e) < 2 ^ 32" "gas_ok s" "I s"
    "jit_main e n slots s = JitDone (Exited rc s')"
  shows "I s'"
  by (rule jit_main_inv [of e s I, OF assms(1-3) evm_keeps assms(4,5)])

end



section \<open>Memory is paid for\<close>

text \<open>
  What is left of the gas and the price of the memory together never exceed \<open>B\<close>. With a \<open>B\<close> of at most
  \<open>2 ^ 47\<close> the memory stays below the \<open>2 ^ 33\<close> bytes that the checks of memory are right for.
\<close>

definition paid_mem :: "'h jit_env \<Rightarrow> int \<Rightarrow> 'h rt \<Rightarrow> bool" where
  "paid_mem e B s \<longleftrightarrow> mem_ok s \<and> gas_ok s \<and>
     sint (gas s) + int (memcost (m_rev e) (unat (arr_size (mem s)) div 32)) \<le> B"

lemma paid_mem_below:
  assumes "paid_mem e B s" "B < int (memcost (m_rev e) n)"
  shows "unat (arr_size (mem s)) < 32 * n"
proof (rule ccontr)
  assume "\<not> unat (arr_size (mem s)) < 32 * n"
  then have "n \<le> unat (arr_size (mem s)) div 32"
    using div_le_mono [of "32 * n" "unat (arr_size (mem s))" 32] by simp
  then have "memcost (m_rev e) n \<le> memcost (m_rev e) (unat (arr_size (mem s)) div 32)"
    by (rule memcost_mono)
  with assms show False by (auto simp: paid_mem_def gas_ok_def)
qed

lemma paid_mem_small:
  assumes "paid_mem e B s"
  shows "B \<le> 2 ^ 47 \<Longrightarrow> unat (arr_size (mem s)) < 2 ^ 33"
    and "B \<le> 2 ^ 43 \<Longrightarrow> unat (arr_size (mem s)) < 2 ^ 31"
proof -
  have "2 ^ 47 < int (memcost (m_rev e) (2 ^ 28))" "2 ^ 43 < int (memcost (m_rev e) (2 ^ 26))"
    by (simp_all add: memcost_def)
  then show "B \<le> 2 ^ 47 \<Longrightarrow> unat (arr_size (mem s)) < 2 ^ 33"
    "B \<le> 2 ^ 43 \<Longrightarrow> unat (arr_size (mem s)) < 2 ^ 31"
    using paid_mem_below [OF assms, of "2 ^ 28"] paid_mem_below [OF assms, of "2 ^ 26"] by simp_all
qed

lemma paid_mem_step:
  assumes "paid_mem e B s" "mem_ok s'" "gas_ok s'" "sint (gas s') \<le> sint (gas s)"
    "arr_size (mem s') = arr_size (mem s)"
  shows "paid_mem e B s'"
  using assms by (simp add: paid_mem_def)

lemma paid_mem_cong:
  assumes "mem s' = mem s" "gas s' = gas s"
  shows "paid_mem e B s' = paid_mem e B s"
  using assms by (simp add: paid_mem_def mem_ok_def gas_ok_def)

lemma paid_charge:
  assumes "paid_mem e B s" "0 \<le> sint c" "gas_check c s = Some s'"
  shows "paid_mem e B s'"
proof -
  have ok: "gas_ok s" using assms(1) by (simp add: paid_mem_def)
  have "count64 c s = Some s'" using assms(3) by (simp add: count64_def)
  note c = count64_spent [OF ok assms(2) this]
  from assms(1) c(2,3) assms(2) show ?thesis
    by (intro paid_mem_step [OF assms(1)]) (simp_all add: c(1) paid_mem_def mem_ok_def)
qed

lemma paid_mem_require:
  assumes p: "paid_mem e B s" and B: "B \<le> 2 ^ 47" and r: "mem_require e off n s = Some s'"
  shows "paid_mem e B s'"
proof -
  have ok: "mem_ok s" "0 \<le> sint (gas s)" "gas s \<noteq> gasMax" "gas_ok s"
    using p by (simp_all add: paid_mem_def gas_ok_def)
  note b = mem_require_bounds [OF ok(1) paid_mem_small(1) [OF p B] ok(2,3) r]
  have g: "gas_ok s'" using gas_ok_le [OF ok(4)] b(5,6) by blast
  let ?new = "mem_need off n" and ?old = "length (arr_data (mem s))"
  let ?c = "memcost (m_rev e) (?new div 32) - memcost (m_rev e) (?old div 32)"
  consider "s' = s" | "?old < ?new" "int ?c \<le> sint (gas s)" "?new \<le> 2 ^ 34"
    "s' = mem_grow ?new (s\<lparr>gas := gas s - of_nat ?c\<rparr>)"
  proof (cases "n = 0")
    case True
    then show ?thesis using r that(1) by (simp add: mem_require_def)
  next
    case False
    with b(4) have i: "unat off \<le> 2 ^ 33" "unat n \<le> 2 ^ 33" by auto
    have eq: "Some s' = (if ?new \<le> ?old then Some s else if int ?c \<le> sint (gas s)
        then Some (mem_grow ?new (s\<lparr>gas := gas s - of_nat ?c\<rparr>)) else None)"
      using mem_require_in [OF ok(1,2) i, of e] by (simp only: Let_def r)
    show ?thesis
    proof (cases "?new \<le> ?old")
      case True
      have "s' = s" using eq by (simp only: True if_True option.inject)
      then show ?thesis by (rule that(1))
    next
      case False
      with eq have "int ?c \<le> sint (gas s)" "s' = mem_grow ?new (s\<lparr>gas := gas s - of_nat ?c\<rparr>)"
        by (simp_all split: if_splits)
      then show ?thesis using False mem_need_bound [OF i] by (intro that(2)) simp_all
    qed
  qed
  then show ?thesis
  proof cases
    case 2
    then have "?new div 32 \<le> 2 ^ 29" by simp
    then have "?c < 2 ^ 50" using memcost_bound [of "?new div 32" "m_rev e"] by simp
    then have c: "sint (of_nat ?c :: i64) = int ?c" using sint64_of_nat_mult [of ?c 1] by simp
    have "memcost (m_rev e) (?old div 32) \<le> memcost (m_rev e) (?new div 32)"
      using 2(1) by (intro memcost_mono div_le_mono) simp
    moreover have "unat (of_nat ?new :: i64) = ?new" using 2(3) by (simp add: unat_of_nat)
    moreover have "sint (gas s') = sint (gas s) - int ?c"
      using 2(2,4) c ok(2) by (simp add: sint64_diff_nonneg)
    ultimately show ?thesis
      using p b(1) g ok(1) 2(4) by (simp add: paid_mem_def mem_ok_def)
  qed (use p in simp)
qed


lemma paid_poke: "paid_mem e B (poke i bs s) = paid_mem e B s"
  by (simp add: paid_mem_def mem_ok_def gas_ok_def)

lemma paid_count:
  assumes "paid_mem e B s"
  shows "0 \<le> sint c \<Longrightarrow> count64 c s = Some s' \<Longrightarrow> paid_mem e B s'"
    and "count128 d s = Some s' \<Longrightarrow> paid_mem e B s'"
  using paid_charge [OF assms] count128_cost_nonneg [of d]
  by (auto simp: count64_def count128_def Let_def)

lemma paid_countCopy:
  assumes "paid_mem e B s" "w = (r + 31) div 32 \<or> w = gasMax" "countCopy w s = Some s'"
  shows "paid_mem e B s'"
proof -
  have "0 \<le> sint (w * copyGas schedule)" using assms(2) by (auto simp: copy_cost_nonneg)
  then show ?thesis using paid_count(1) [OF assms(1)] assms(3) unfolding countCopy_def by blast
qed

lemma paid_copy:
  assumes "paid_mem e B s" "B \<le> 2 ^ 47"
  shows "copyBytes e src n x d q s = Some s' \<Longrightarrow> paid_mem e B s'"
    and "copyBytesNoPadding e src m x d q s = Some s' \<Longrightarrow> paid_mem e B s'"
proof -
  assume "copyBytes e src n x d q s = Some s'"
  then show "paid_mem e B s'"
    by (clarsimp simp: copyBytes_def Let_def require_eq bind_eq_Some_conv paid_poke)
      (drule paid_mem_require [OF assms], erule paid_countCopy [OF _ disjI1 [OF refl]], assumption)
next
  assume "copyBytesNoPadding e src m x d q s = Some s'"
  then show "paid_mem e B s'"
    by (clarsimp simp: copyBytesNoPadding_def Let_def require_eq bind_eq_Some_conv paid_poke)
      (drule paid_mem_require [OF assms], erule paid_countCopy [where r = "ucast q", rotated 2],
        simp_all)
qed

lemma paid_store:
  assumes "paid_mem e B s" "B \<le> 2 ^ 47"
  shows "storeWord e a w s = Some s' \<Longrightarrow> paid_mem e B s'"
    and "storeByte e a w s = Some s' \<Longrightarrow> paid_mem e B s'"
  using paid_mem_require [OF assms]
  by (auto simp: storeWord_def storeByte_def require_eq bind_eq_Some_conv mstore_func_def
      mstore8_func_def paid_poke)

text \<open>A call or a creation changes of the memory only bytes within it.\<close>

lemma call_wrapper_mem:
  "call_wrapper e knd g a v inp n my dep s = (r, out, s') \<Longrightarrow> mem s' = mem s"
  by (auto simp: call_wrapper_def Let_def case_prod_beta split: if_splits)

lemma call_leave_mem:
  "length (arr_data (mem (call_leave e inst c a v x n y m s))) = length (arr_data (mem s))"
  "arr_size (mem (call_leave e inst c a v x n y m s)) = arr_size (mem s)"
  by (auto simp: call_leave_def ext_call_def Let_def giveBack_def resetReturnBuf_def
      split: prod.splits dest!: call_wrapper_mem)

lemma do_create_mem: "do_create e v x n s = Some s' \<Longrightarrow> mem s' = mem s"
  by (auto simp: do_create_def ext_create_def Let_def resetReturnBuf_def
      split: prod.splits dest!: call_wrapper_mem)

lemma paid_do_create:
  assumes "host_gas_ok e" "paid_mem e B s" "do_create e v x n s = Some s'"
  shows "paid_mem e B s'"
proof -
  have "gas_ok s" using assms(2) by (simp add: paid_mem_def)
  with spends_do_create [OF assms(1)] assms(3) have "gas_ok s'" "sint (gas s') \<le> sint (gas s)"
    unfolding spends_def by blast+
  then show ?thesis
    using assms(2) do_create_mem [OF assms(3)]
    by (intro paid_mem_step [OF assms(2)]) (simp_all add: paid_mem_def mem_ok_def)
qed

lemma paid_do_call:
  assumes "host_gas_ok e" "paid_mem e B s" "B \<le> 2 ^ 47" "do_call e inst c a v x n y m s = Some s'"
  shows "paid_mem e B s'"
  using assms(4)
proof (rule do_call_SomeE)
  fix s1 s2 s3 s4 s5
  assume req: "require e y (Runtime m) s = Some s1" "require e x (Runtime n) s1 = Some s2"
    and tail: "count64 (call_transfer_cost e inst v) s2 = Some s3"
      "(if inst = CALL then count64 (call_penalty e a v s3) s3 else Some s3) = Some s4"
      "count128 (call_gas e c s4) s4 = Some s5"
      "s' = call_leave e inst (call_gas e c s4) a v x n y m s5"
  have p2: "paid_mem e B s2"
    using paid_mem_require [OF _ assms(3)] assms(2) req by (simp add: require_eq) blast
  then have ok2: "gas_ok s2" "mem_ok s2" by (simp_all add: paid_mem_def)
  have "mem s5 = mem s2"
    using tail(1-3) by (auto simp: count64_def count128_def Let_def gas_check_def split: if_splits)
  then have "length (arr_data (mem s')) = length (arr_data (mem s2))" "arr_size (mem s') = arr_size (mem s2)"
    by (simp_all add: tail(4) call_leave_mem)
  then show ?thesis
    using call_tail_spends [OF assms(1) ok2(1) tail] ok2(2)
    by (intro paid_mem_step [OF p2]) (simp_all add: mem_ok_def)
qed

lemma paid_frame:
  "paid_mem e B (loadTxCtx e' s) = paid_mem e B s" "paid_mem e B (registerReturnData x n s) = paid_mem e B s"
  "paid_mem e B (sstore e' k v s) = paid_mem e B s" "paid_mem e B (ext_log e' x n ts s) = paid_mem e B s"
  "paid_mem e B (ext_selfdestruct e' b s) = paid_mem e B s"
  by (rule paid_mem_cong;
      simp add: loadTxCtx_def registerReturnData_def sstore_def ext_log_def ext_selfdestruct_def Let_def
        split: option.splits)+

interpretation paid: run_invariant e "\<lambda>s. host_gas_ok e \<and> B \<le> 2 ^ 47 \<longrightarrow> paid_mem e B s"
  for e :: "'h jit_env" and B
  apply unfold_locales
  subgoal using paid_charge by blast
  subgoal using paid_mem_require by blast
  subgoal using paid_store(1) by blast
  subgoal using paid_store(2) by blast
  subgoal using paid_copy(1) by blast
  subgoal using paid_copy(2) by blast
  subgoal by (simp add: paid_frame)
  subgoal by (simp add: paid_frame)
  subgoal by (simp add: paid_frame)
  subgoal by (simp add: paid_frame)
  subgoal by (simp add: paid_frame)
  subgoal using paid_do_call by blast
  subgoal using paid_do_create by blast
  done

text \<open>
  C10: memory is bounded by the gas. When code starts with empty memory and at most \<open>2 ^ 47\<close> gas, then at
  every step of the machine, and when the compiled code returns, memory is well formed and below the
  \<open>2 ^ 33\<close> bytes up to which the checks of memory accesses are right, and what is left of the gas together
  with the quadratic price of all the memory is at most the gas at the start.
\<close>

theorem memory_is_paid_for:
  assumes "host_gas_ok e" "length (m_code e) < 2 ^ 32" "0 \<le> sint (gas s)" "sint (gas s) \<le> 2 ^ 47"
    and "arr_data (mem s) = []" "arr_size (mem s) = 0"
  shows "(\<forall>k pc st t. (evm_step e ^^ k) (Running 0 [] s) = Running pc st t \<longrightarrow>
      mem_ok t \<and> unat (arr_size (mem t)) < 2 ^ 33 \<and>
      sint (gas t) + int (memcost (m_rev e) (unat (arr_size (mem t)) div 32)) \<le> sint (gas s)) \<and>
    (\<forall>n slots rc t. jit_main e n slots s = JitDone (Exited rc t) \<longrightarrow>
      mem_ok t \<and> unat (arr_size (mem t)) < 2 ^ 33 \<and>
      sint (gas t) + int (memcost (m_rev e) (unat (arr_size (mem t)) div 32)) \<le> sint (gas s))"
proof -
  let ?B = "sint (gas s)"
  have ok: "gas_ok s" using assms(3,4) by (auto simp: gas_ok_def gasMax_sint)
  then have p: "paid_mem e ?B s" using assms(5,6) by (simp add: paid_mem_def mem_ok_def memcost_def)
  have fine: "mem_ok t \<and> unat (arr_size (mem t)) < 2 ^ 33 \<and>
      sint (gas t) + int (memcost (m_rev e) (unat (arr_size (mem t)) div 32)) \<le> ?B"
    if "paid_mem e ?B t" for t
    using that paid_mem_small(1) [OF that assms(4)] by (simp add: paid_mem_def)
  have "paid_mem e ?B t" if "(evm_step e ^^ k) (Running 0 [] s) = Running pc st t" for k pc st t
    using paid.evm_run_keeps [of e ?B "Running 0 [] s" k] that p assms(1,4) by simp
  moreover have "paid_mem e ?B t" if "jit_main e n slots s = JitDone (Exited rc t)" for n slots rc t
    using paid.jit_keeps [OF assms(1,2) ok _ that] p assms(1,4) by simp
  ultimately show ?thesis using fine by blast
qed

theorem memory_is_paid_for_witness:
  "mem_ok (sample_rt 99) \<and> unat (arr_size (mem (sample_rt 99))) < 2 ^ 33"
proof -
  have "(evm_step sample_code_env ^^ 1) (Running 0 [] (sample_rt 100)) = Running 2 [3] (sample_rt 99)"
    by (simp only: One_nat_def funpow.simps comp_apply id_apply sample_steps)
  moreover have "arr_data (mem (sample_rt 100)) = []" "arr_size (mem (sample_rt 100)) = 0"
    "0 \<le> sint (gas (sample_rt 100))" "sint (gas (sample_rt 100)) \<le> 2 ^ 47"
    "length (m_code sample_code_env) < 2 ^ 32"
    by (simp_all add: sample_rt_def sample_code_simps)
  ultimately show ?thesis
    using memory_is_paid_for [OF sample_code_simps(3), of "sample_rt 100"] by blast
qed


section \<open>Static calls\<close>

text \<open>What the operations inside the contract do to the host: nothing.\<close>

lemma gas_check_host: "gas_check c s = Some s' \<Longrightarrow> host s' = host s"
  by (auto simp: gas_check_def Let_def split: if_splits)

lemma count_host:
  "count64 c s = Some s' \<Longrightarrow> host s' = host s" "count128 d s = Some s' \<Longrightarrow> host s' = host s"
  "countCopy c s = Some s' \<Longrightarrow> host s' = host s"
  by (auto simp: count64_def count128_def countCopy_def Let_def dest: gas_check_host)

lemma mem_require_host: "mem_require e off n s = Some s' \<Longrightarrow> host s' = host s"
  by (auto simp: mem_require_req bind_eq_Some_conv split: if_splits dest: count_host)

lemma poke_host [simp]: "host (poke i bs s) = host s"
  by (simp add: poke_def)

lemma store_host:
  "storeWord e a w s = Some s' \<Longrightarrow> host s' = host s" "storeByte e a w s = Some s' \<Longrightarrow> host s' = host s"
  by (auto simp: storeWord_def storeByte_def require_eq bind_eq_Some_conv mstore_func_def mstore8_func_def
      dest: mem_require_host)

lemma copy_host:
  "copyBytes e src n x d q s = Some s' \<Longrightarrow> host s' = host s"
  "copyBytesNoPadding e src m x d q s = Some s' \<Longrightarrow> host s' = host s"
  by (auto simp: copyBytes_def copyBytesNoPadding_def Let_def require_eq bind_eq_Some_conv
      dest!: mem_require_host count_host)


lemma frame_host: "host (loadTxCtx e s) = host s" "host (registerReturnData x n s) = host s"
  by (simp_all add: loadTxCtx_def registerReturnData_def split: option.splits)

text \<open>
  The messages that leave a static call: they carry the static flag, they create no contract, and a
  call transfers no value.
\<close>

definition static_msg :: "evm_message \<Rightarrow> bool" where
  "static_msg m \<longleftrightarrow> bit (flags m) 0 \<and> kind m \<noteq> kind_num EVM_CREATE \<and>
     (kind m = kind_num EVM_CALL \<longrightarrow> msg_value m = replicate 16 0)"

text \<open>
  Code compiled for a static call, for a message that carries the static flag, with a host that
  keeps the property \<open>J\<close> of its state in a call with such a message.
\<close>

definition static_env :: "('h \<Rightarrow> bool) \<Rightarrow> 'h jit_env \<Rightarrow> bool" where
  "static_env J e \<longleftrightarrow> host_gas_ok e \<and> m_staticCall e \<and> bit (flags (currentMsg e)) 0 \<and>
     (\<forall>h m. static_msg m \<and> J h \<longrightarrow> J (snd (host_call (fns e) h m)))"

lemma call_msg_static:
  assumes "bit (flags (currentMsg e)) 0" "knd \<noteq> EVM_CREATE"
    "knd = EVM_CALL \<or> knd = EVM_STATICCALL \<Longrightarrow> val = replicate 16 0"
  shows "static_msg (call_msg e knd g a val inp)"
  using assms by (cases knd) (simp_all add: static_msg_def call_msg_def Let_def bit_or_iff)

lemma call_wrapper_static:
  assumes "static_env J e" "static_msg (call_msg e knd g a v inp)" "J (host s)"
    "call_wrapper e knd g a v inp n my dep s = (r, out, s')"
  shows "J (host s')"
  using assms
  by (auto simp: call_wrapper_def call_v2_def Let_def static_env_def case_prod_beta split: if_splits)

lemma ext_call_static:
  assumes "static_env J e" "knd \<noteq> EVM_CREATE"
    "knd = EVM_CALL \<or> knd = EVM_STATICCALL \<Longrightarrow> v = 0" "J (host s)"
  shows "J (host (ext_call e knd g a v x n y m s))"
proof -
  let ?a = "to_ptr e (toBE (host_le e) (ucast a :: i256))" and ?v = "to_ptr e (toBE (host_le e) v)"
  let ?inp = "getBytes e x (ucast n) s"
  obtain r out s1 where w: "call_wrapper e knd g ?a ?v ?inp (ucast m) (myAddr e) (getDepth e)
      (resetReturnBuf s) = (r, out, s1)" by (cases rule: prod_cases3)
  have "?v = be_bytes 16 v" by (simp add: to_ptr_toBE)
  then have "static_msg (call_msg e knd g ?a ?v ?inp)"
    using assms by (intro call_msg_static) (auto simp: static_env_def be_bytes_zero)
  from call_wrapper_static [OF assms(1) this _ w] assms(4) show ?thesis
    using w by (simp add: ext_call_def Let_def resetReturnBuf_def)
qed

lemma do_call_static:
  assumes "static_env J e" "gas_ok s" "inst = CALL \<or> inst = CALLCODE \<or> v = 0"
    "do_call e inst c a v x n y m s = Some s'" "J (host s)"
  shows "J (host s')"
  using assms(4)
proof (rule do_call_SomeE)
  fix s1 s2 s3 s4 s5
  assume steps: "require e y (Runtime m) s = Some s1" "require e x (Runtime n) s1 = Some s2"
    "count64 (call_transfer_cost e inst v) s2 = Some s3"
    "(if inst = CALL then count64 (call_penalty e a v s3) s3 else Some s3) = Some s4"
    "count128 (call_gas e c s4) s4 = Some s5"
    "s' = call_leave e inst (call_gas e c s4) a v x n y m s5"
  have h: "host s5 = host s"
    using steps(1-5) by (auto simp: require_eq dest!: mem_require_host count_host split: if_splits)
  have g: "gas_ok s2"
    using metered_spendsD [OF metered_require _ steps(1)] metered_spendsD [OF metered_require _ steps(2)]
      assms(2) by auto
  have v: "v = 0" if "inst = CALL"
  proof (rule ccontr)
    assume "v \<noteq> 0"
    with that assms(1) have "call_transfer_cost e inst v = gasMax"
      by (simp add: call_transfer_cost_def static_env_def)
    with steps(3) g gas_ok_lt [OF g] show False
      by (simp add: count64_def gas_check_iff gas_ok_def gasMax_sint split: if_splits)
  qed
  have "J (host (ext_call e (call_kind inst) g a v x n y m s5))" for g
    using assms(3,5) v h by (intro ext_call_static [OF assms(1)])
      (auto simp: call_kind_def split: Instruction.splits)
  then show ?thesis using steps(6) by (simp add: call_leave_def Let_def giveBack_def)
qed

lemma static_do_call:
  assumes "static_env J e \<longrightarrow> gas_ok s \<and> J (host s)"
    "inst = CALL \<or> inst = CALLCODE \<or> v = 0" "do_call e inst c a v x n y m s = Some s'"
  shows "static_env J e \<longrightarrow> gas_ok s' \<and> J (host s')"
proof
  assume env: "static_env J e"
  then have p: "gas_ok s" "J (host s)" "host_gas_ok e" using assms(1) by (simp_all add: static_env_def)
  show "gas_ok s' \<and> J (host s')"
    using spends_do_call [OF p(3), of inst c a v x n y m] do_call_static [OF env p(1) assms(2,3) p(2)]
      p(1) assms(3) unfolding spends_def by blast
qed

lemma metered_gas_ok: "metered f \<Longrightarrow> gas_ok s \<Longrightarrow> f s = Some s' \<Longrightarrow> gas_ok s'"
  using metered_spendsD by blast

lemma frame_gas_ok: "gas_ok (loadTxCtx e s) = gas_ok s" "gas_ok (registerReturnData x n s) = gas_ok s"
  by (simp_all add: gas_ok_def loadTxCtx_def registerReturnData_def split: option.splits)

interpretation static: run_invariant e "\<lambda>s. static_env J e \<longrightarrow> gas_ok s \<and> J (host s)"
  for e :: "'h jit_env" and J
proof -
  have env: "m_staticCall e" if "static_env J e" using that by (simp add: static_env_def)
  show "run_invariant e (\<lambda>s. static_env J e \<longrightarrow> gas_ok s \<and> J (host s))"
    apply unfold_locales
    subgoal using count64_spent(3) gas_check_host unfolding count64_def by metis
    subgoal using metered_gas_ok [OF metered_mem_require] mem_require_host by metis
    subgoal using metered_gas_ok [OF metered_storeWord] store_host(1) by metis
    subgoal using metered_gas_ok [OF metered_storeByte] store_host(2) by metis
    subgoal using metered_gas_ok [OF metered_copyBytes] copy_host(1) by metis
    subgoal using metered_gas_ok [OF metered_copyBytesNoPadding] copy_host(2) by metis
    subgoal by (simp add: frame_gas_ok frame_host)
    subgoal by (simp add: frame_gas_ok frame_host)
    subgoal using env by blast
    subgoal using env by blast
    subgoal using env by blast
    subgoal by (rule static_do_call)
    subgoal using env by blast
    done
qed

text \<open>
  C9: a static call does not change the host. A property \<open>J\<close> of the state of the host, for example that
  its storage, balances and accounts are the ones at the start, which the host keeps in the calls it
  receives, still holds when code that was compiled for a static call returns, whatever it executed:
  apart from calls nothing reaches the host, and the calls carry the static flag, create no contract
  and transfer no value.
\<close>

theorem static_call_keeps_host:
  assumes "host_gas_ok e" "length (m_code e) < 2 ^ 32" "0 \<le> sint (gas s)" "gas s \<noteq> gasMax"
    and "m_staticCall e" "bit (flags (currentMsg e)) 0"
    and "\<And>h m. static_msg m \<Longrightarrow> J h \<Longrightarrow> J (snd (host_call (fns e) h m))"
    and "jit_main e n slots s = JitDone (Exited rc s')" "J (host s)"
  shows "J (host s')"
proof -
  have ok: "gas_ok s" using assms(3,4) by (simp add: gas_ok_def)
  moreover have "static_env J e" using assms(1,5-7) by (simp add: static_env_def)
  ultimately show ?thesis
    using static.jit_keeps [OF assms(1,2) ok _ assms(8), of J] assms(9) by simp
qed

definition sample_static_env :: "nat jit_env" where
  "sample_static_env =
     (let e = sample_env EVM_AION in
      \<lparr>m_rev = EVM_AION, m_staticCall = True, m_code = [0x5b, 0x00],
       fns = \<lparr>account_exists = (\<lambda>_ _. 1), get_storage = (\<lambda>_ _ _. replicate 16 0),
         set_storage = (\<lambda>h _ _ _. h + 1), get_balance = (\<lambda>_ _. replicate 16 0), get_code = (\<lambda>_ _. []),
         selfdestruct = (\<lambda>h _ _. h + 1),
         host_call = (\<lambda>h m. (\<lparr>status_code = 0, gas_left = 0, output_data = []\<rparr>,
           if bit (flags m) 0 then h else h + 1)),
         get_tx_context = (\<lambda>_. get_tx_context sample_fns ()), get_block_hash = (\<lambda>_ _. replicate 32 0),
         host_log = (\<lambda>h _ _ _. h + 1)\<rparr>,
       currentMsg = (currentMsg e)\<lparr>flags := 1\<rparr>, rtdata = rtdata e,
       junk_byte = 0xaa, host_le = True, div_undef = \<lambda>_. (0, 0), undef_addr = replicate 32 0\<rparr>)"

definition sample_static_rt :: "i64 \<Rightarrow> nat rt" where
  "sample_static_rt g = \<lparr>gas = g, mem = \<lparr>arr_data = [], arr_size = 0, arr_cap = 0\<rparr>, txctx = None,
     retbuf = [], ret_range = None, host = 7, call_ret = 0, pAddr = []\<rparr>"

lemma sample_static_simps:
  "m_code sample_static_env = [0x5b, 0x00]" "m_rev sample_static_env = EVM_AION"
  "host_gas_ok sample_static_env" "m_staticCall sample_static_env"
  "bit (flags (currentMsg sample_static_env)) 0"
  "static_msg m \<Longrightarrow> h = 7 \<Longrightarrow> snd (host_call (fns sample_static_env) h m) = 7"
  by (simp_all add: sample_static_env_def host_gas_ok_def sample_env_def static_msg_def Let_def)

theorem static_call_keeps_host_witness:
  "\<exists>n s'. jit_main sample_static_env n (\<lambda>_. 0) (sample_static_rt 100) = JitDone (Exited Stop s') \<and>
     host s' = 7"
proof -
  let ?e = sample_static_env and ?s = "sample_static_rt 100"
  have g: "0 \<le> sint (gas ?s)" "gas ?s \<noteq> gasMax" "length (m_code ?e) < 2 ^ 32"
    by (simp_all add: sample_static_rt_def gasMax_def sample_static_simps)
  obtain x k m where x: "jit_main ?e k (\<lambda>_. 0) ?s = JitDone x" "(evm_step ?e ^^ m) (Running 0 [] ?s) = Halted x"
    using jit_main_ends [OF sample_static_simps(3) g(3), of ?s "\<lambda>_. 0"] g unfolding gas_ok_def by blast
  have i: "inst_at [0x5b, 0x00] 0 = JUMPDEST" "inst_at [0x5b, 0x00] (Suc 0) = STOP"
    by (simp_all add: inst_at_def decode_def row_00_def row_50_def)
  have "evm_step ?e (Running 0 [] ?s) = Running 1 [] (sample_static_rt 99)"
    "evm_step ?e (Running 1 [] (sample_static_rt 99)) = Halted (Exited Stop (sample_static_rt 99))"
    by (simp_all add: sample_static_simps evm_inst_def i gas_check_def Let_def tier_def schedule_def
        sample_static_rt_def word_sle_eq next_inst_def skipPushDataAndGetNext_def)
  then have "(evm_step ?e ^^ 2) (Running 0 [] ?s) = Halted (Exited Stop (sample_static_rt 99))"
    by (simp add: numeral_2_eq_2)
  with x have "x = Exited Stop (sample_static_rt 99)" using evm_steps_unique by blast
  with x(1) have run: "jit_main ?e k (\<lambda>_. 0) ?s = JitDone (Exited Stop (sample_static_rt 99))" by simp
  moreover have "host ?s = 7" by (simp add: sample_static_rt_def)
  ultimately have "host (sample_static_rt 99) = 7"
    using static_call_keeps_host [OF sample_static_simps(3) g(3,1,2) sample_static_simps(4,5) _ run,
      of "\<lambda>h. h = 7"] sample_static_simps(6) by simp
  with run show ?thesis by blast
qed

text \<open>
  C29: no value leaves a static call. A CALL that carries a value aborts in code compiled for a static
  call: it is charged the largest amount of gas there is.
\<close>

theorem static_value_call_aborts:
  assumes "m_staticCall e" "v \<noteq> 0" "0 \<le> sint (gas s)" "gas s \<noteq> gasMax"
  shows "do_call e CALL c a v x n y m s = None"
proof (rule ccontr)
  assume "do_call e CALL c a v x n y m s \<noteq> None"
  then obtain s' where "do_call e CALL c a v x n y m s = Some s'" by blast
  then show False
  proof (rule do_call_SomeE)
    fix s1 s2 s3
    assume s1: "require e y (Runtime m) s = Some s1" and s2: "require e x (Runtime n) s1 = Some s2"
      and s3: "count64 (call_transfer_cost e CALL v) s2 = Some s3"
    have "gas_ok s" using assms(3,4) by (simp add: gas_ok_def)
    then have ok: "gas_ok s2"
      using metered_spendsD [OF metered_require _ s1] metered_spendsD [OF metered_require _ s2] by auto
    have "call_transfer_cost e CALL v = gasMax" using assms(1,2) by (simp add: call_transfer_cost_def)
    with s3 gas_ok_lt [OF ok] ok show False
      by (simp add: count64_def gas_check_iff gas_ok_def gasMax_sint split: if_splits)
  qed
qed

theorem static_value_call_aborts_witness:
  "do_call sample_static_env CALL 0 7 1 0 0 0 0 (sample_static_rt 100000) = None \<and>
   do_call sample_static_env CALL 0 7 0 0 0 0 0 (sample_static_rt 100000) \<noteq> None"
proof -
  have "do_call sample_static_env CALL 0 7 1 0 0 0 0 (sample_static_rt 100000) = None"
    by (rule static_value_call_aborts) (simp_all add: sample_static_simps sample_static_rt_def gasMax_def)
  moreover have "exists sample_static_env 7 t" for t
    by (simp add: exists_def sample_static_env_def Let_def)
  then have "do_call sample_static_env CALL 0 7 0 0 0 0 0 (sample_static_rt 100000) \<noteq> None"
    by (simp add: do_call_def require_eq mem_require_def call_transfer_cost_def call_penalty_def
        call_gas_def count64_def count128_def gas_check_def Let_def sample_static_simps word_sle_eq
        sample_static_rt_def gasMax_def)
  ultimately show ?thesis ..
qed


section \<open>Properties of the host\<close>

text \<open>
  A property of the host that its callbacks keep, calls only for messages one level deeper than the
  current one, holds at every point of a run.
\<close>

definition host_keeps :: "('h \<Rightarrow> bool) \<Rightarrow> 'h jit_env \<Rightarrow> bool" where
  "host_keeps J e \<longleftrightarrow>
     (\<forall>h a k v. J h \<longrightarrow> J (set_storage (fns e) h a k v)) \<and>
     (\<forall>h a b. J h \<longrightarrow> J (selfdestruct (fns e) h a b)) \<and>
     (\<forall>h a d ts. J h \<longrightarrow> J (host_log (fns e) h a d ts)) \<and>
     (\<forall>h m. J h \<and> depth m = depth (currentMsg e) + 1 \<longrightarrow> J (snd (host_call (fns e) h m)))"

lemma call_wrapper_keeps:
  assumes "host_keeps J e" "J (host s)" "call_wrapper e knd g a v inp n my dep s = (r, out, s')"
  shows "J (host s')"
proof -
  have "depth (call_msg e knd g a v inp) = depth (currentMsg e) + 1" by (simp add: call_msg_def Let_def)
  then show ?thesis
    using assms by (auto simp: call_wrapper_def call_v2_def Let_def host_keeps_def case_prod_beta split: if_splits)
qed

lemma ext_call_keeps:
  assumes "host_keeps J e" "J (host s)"
  shows "J (host (ext_call e knd g a v x n y m s))" "J (host (ext_create e g v x n s))"
  using assms(2) call_wrapper_keeps [OF assms(1), of "resetReturnBuf s"]
  by (auto simp: ext_call_def ext_create_def Let_def resetReturnBuf_def split: prod.splits)

lemma do_call_keeps:
  assumes "host_keeps J e" "J (host s)" "do_call e inst c a v x n y m s = Some s'"
  shows "J (host s')"
  using assms(3)
proof (rule do_call_SomeE)
  fix s1 s2 s3 s4 s5
  assume steps: "require e y (Runtime m) s = Some s1" "require e x (Runtime n) s1 = Some s2"
    "count64 (call_transfer_cost e inst v) s2 = Some s3"
    "(if inst = CALL then count64 (call_penalty e a v s3) s3 else Some s3) = Some s4"
    "count128 (call_gas e c s4) s4 = Some s5"
    "s' = call_leave e inst (call_gas e c s4) a v x n y m s5"
  have "host s5 = host s"
    using steps(1-5) by (auto simp: require_eq dest!: mem_require_host count_host split: if_splits)
  with ext_call_keeps(1) [OF assms(1), of s5] assms(2) show ?thesis
    by (simp add: steps(6) call_leave_def Let_def giveBack_def)
qed

lemma do_create_keeps:
  assumes "host_keeps J e" "J (host s)" "do_create e v x n s = Some s'"
  shows "J (host s')"
  using assms(3) ext_call_keeps(2) [OF assms(1,2)] by (auto simp: do_create_def Let_def)

interpretation hosted: run_invariant e "\<lambda>s. host_keeps J e \<longrightarrow> J (host s)"
  for e :: "'h jit_env" and J
  apply unfold_locales
  subgoal by (simp add: gas_check_host)
  subgoal by (simp add: mem_require_host)
  subgoal by (simp add: store_host)
  subgoal by (simp add: store_host)
  subgoal by (simp add: copy_host)
  subgoal by (simp add: copy_host)
  subgoal by (simp add: frame_host)
  subgoal by (simp add: frame_host)
  subgoal by (simp add: sstore_def Let_def host_keeps_def)
  subgoal by (simp add: ext_log_def Let_def host_keeps_def)
  subgoal by (simp add: ext_selfdestruct_def Let_def host_keeps_def)
  subgoal using do_call_keeps by blast
  subgoal using do_create_keeps by blast
  done

end
