(* ===== verification/HostRun.thy ===== *)
theory HostRun
  imports RunInvariant
begin

text \<open>
  The host during a run of compiled code, also of a run that is aborted.
\<close>

section \<open>Where an aborted run leaves the host\<close>

text \<open>
  An abort leaves the machine code wherever it is. These functions follow \<open>run_jit\<close> and \<open>jit_step\<close> and
  return the host at that point.
\<close>

primrec abort_host ::
  "(int \<Rightarrow> i128) \<Rightarrow> 'h eprog \<Rightarrow> i128 LocalStack \<Rightarrow> bool \<Rightarrow> i64 option list \<Rightarrow> 'h rt \<Rightarrow> 'h" where
  "abort_host load Done ls opn cs s = host s"
| "abort_host load (Terminate t) ls opn cs s = host s"
| "abort_host load (Count i p) ls opn cs s =
     (case place_check opn cs s of None \<Rightarrow> host s | Some (cs', s') \<Rightarrow> abort_host load p ls True cs' s')"
| "abort_host load (Commit p) ls opn cs s = abort_host load p ls False cs s"
| "abort_host load (Push v p) ls opn cs s = abort_host load p (ls_push v ls) opn cs s"
| "abort_host load (Pop k) ls opn cs s =
     (case ls_pop load ls of (v, ls') \<Rightarrow> abort_host load (k v) ls' opn cs s)"
| "abort_host load (Dup i p) ls opn cs s = abort_host load p (ls_dup load i ls) opn cs s"
| "abort_host load (Swap i p) ls opn cs s = abort_host load p (ls_swap load i ls) opn cs s"
| "abort_host load (Do f p) ls opn cs s =
     (case f s of None \<Rightarrow> host s | Some s' \<Rightarrow> abort_host load p ls opn cs s')"
| "abort_host load (Ask f k) ls opn cs s = abort_host load (k (f s)) ls opn cs s"

definition block_abort_host :: "evm_revision \<Rightarrow> 'h eprog \<Rightarrow> (int \<Rightarrow> i128) \<Rightarrow> i64 \<Rightarrow> 'h rt \<Rightarrow> 'h" where
  "block_abort_host r p slots sz s =
     (let ls = static_stack p ls_init;
          cs = checks (static_meter r p gm_init);
          load = \<lambda>j. slots (sint sz + j)
      in case stack_prepare sz (word_of_int (m_minSize ls)) (word_of_int (m_maxSize ls))
                (word_of_int (ls_size ls)) of
           None \<Rightarrow> host s
         | Some sz' \<Rightarrow> abort_host load p ls_init False cs s)"

definition step_abort_host :: "'h jit_env \<Rightarrow> nat \<Rightarrow> (int \<Rightarrow> i128) \<Rightarrow> i64 \<Rightarrow> 'h rt \<Rightarrow> 'h" where
  "step_abort_host e k slots sz s =
     (let p = compileBasicBlock e (createBasicBlocks (m_code e) ! k)
      in case block_jit (m_rev e) p slots sz s of
           None \<Rightarrow> block_abort_host (m_rev e) p slots sz s
         | Some (t, slots', sz', s') \<Rightarrow> host s')"

primrec run_host :: "'h jit_env \<Rightarrow> nat \<Rightarrow> nat \<Rightarrow> (int \<Rightarrow> i128) \<Rightarrow> i64 \<Rightarrow> 'h rt \<Rightarrow> 'h" where
  "run_host e 0 k slots sz s = host s"
| "run_host e (Suc n) k slots sz s =
     (case jit_step e (InBlock k slots sz s) of
        InBlock k' slots' sz' s' \<Rightarrow> run_host e n k' slots' sz' s'
      | JitDone (Exited rc s') \<Rightarrow> host s'
      | JitDone Aborted \<Rightarrow> step_abort_host e k slots sz s)"

text \<open>What the callbacks keep of the host holds there too.\<close>

lemma run_jit_keeps:
  assumes "preserves r (\<lambda>s. Q \<longrightarrow> J (host s)) p" "J (host s)" Q
  shows "J (abort_host load p ls opn cs s)"
    and "run_jit load p ls opn cs s = Some (t, ls', s') \<Longrightarrow> J (host s')"
proof -
  have chk: "J (host s')" if "place_check opn cs s = Some (cs', s')" "J (host s)" for opn cs cs' and s s' :: "'a rt"
    using that by (induction opn cs s rule: place_check.induct) (auto split: option.splits dest: gas_check_host)
  from assms show "J (abort_host load p ls opn cs s)"
  proof (induction p arbitrary: ls opn cs s)
    case (Count i p)
    then show ?case using chk by (fastforce split: option.splits)
  next
    case (Do f p)
    then show ?case by (fastforce simp: keeps_def split: option.splits)
  qed (auto split: prod.splits)
  from assms show "run_jit load p ls opn cs s = Some (t, ls', s') \<Longrightarrow> J (host s')"
  proof (induction p arbitrary: ls opn cs s)
    case (Count i p)
    then show ?case using chk by (fastforce split: option.splits)
  next
    case (Do f p)
    then show ?case by (fastforce simp: keeps_def split: option.splits)
  qed (fastforce split: prod.splits)+
qed

lemma preserves_seq: "preserves r I p \<Longrightarrow> preserves r I q \<Longrightarrow> preserves r I (seq p q)"
  by (induction p) auto

lemma range_preserves: "preserves (m_rev e) (\<lambda>s. host_keeps J e \<longrightarrow> J (host s)) (compile_range e it fin)"
proof (induction e it fin rule: compile_range.induct)
  case (1 e it fin)
  show ?case
  proof (cases "fin \<le> it")
    case False
    let ?rest = "drop it (take fin (m_code e))" and ?I = "\<lambda>s. host_keeps J e \<longrightarrow> J (host s)"
    let ?i = "decode (hd ?rest)"
    have "preserves (m_rev e) ?I (compile_range e (inst_end ?i it ?rest + 1) fin)"
      using "1.IH" [OF False refl refl] .
    moreover have "keeps ?I (gas_check c)" for c by (auto simp: keeps_def dest: gas_check_host)
    ultimately show ?thesis
      using False by (simp add: compile_range.simps [of e it] Let_def preserves_seq hosted.inst_preserves)
  qed (simp add: compile_range.simps [of e it])
qed

lemma block_keeps:
  assumes "host_keeps J e" "J (host s)"
  shows "J (block_abort_host (m_rev e) (compileBasicBlock e b) slots sz s)"
    and "block_jit (m_rev e) (compileBasicBlock e b) slots sz s = Some (t, slots', sz', s') \<Longrightarrow> J (host s')"
proof -
  note keep = run_jit_keeps [OF range_preserves [of e J "m_firstInstrIdx b" "m_end b"] assms(2,1)]
  show "J (block_abort_host (m_rev e) (compileBasicBlock e b) slots sz s)"
    using keep(1) assms(2) by (simp add: block_abort_host_def compileBasicBlock_def Let_def split: option.splits)
  show "block_jit (m_rev e) (compileBasicBlock e b) slots sz s = Some (t, slots', sz', s') \<Longrightarrow> J (host s')"
    using keep(2) by (auto simp: block_jit_def compileBasicBlock_def Let_def split: option.splits prod.splits)
qed

lemma step_keeps:
  assumes "host_keeps J e" "J (host s)"
  shows "jit_step e (InBlock k slots sz s) = InBlock k' slots' sz' s' \<Longrightarrow> J (host s')"
    and "jit_step e (InBlock k slots sz s) = JitDone (Exited rc s') \<Longrightarrow> J (host s')"
    and "J (step_abort_host e k slots sz s)"
proof -
  let ?b = "createBasicBlocks (m_code e) ! k"
  note keep = block_keeps [OF assms, of ?b]
  show "J (step_abort_host e k slots sz s)"
    using keep by (auto simp: step_abort_host_def Let_def split: option.splits prod.splits)
  show "jit_step e (InBlock k slots sz s) = InBlock k' slots' sz' s' \<Longrightarrow> J (host s')"
    "jit_step e (InBlock k slots sz s) = JitDone (Exited rc s') \<Longrightarrow> J (host s')"
    using keep(2) assms(2)
    by (auto simp: Let_def jit_jump_def split: if_splits option.splits prod.splits terminator.splits)
qed

lemma run_host_keeps:
  assumes "host_keeps J e" "J (host s)"
  shows "J (run_host e n k slots sz s)"
  using assms(2)
proof (induction n arbitrary: k slots sz s)
  case (Suc n)
  note keep = step_keeps [OF assms(1) Suc.prems, of k slots sz]
  show ?case
    using keep Suc.IH by (auto split: jit_config.splits outcome.splits)
qed simp

lemma run_host_exited:
  "(jit_step e ^^ n) (InBlock k slots sz s) = JitDone (Exited rc s') \<Longrightarrow> run_host e n k slots sz s = host s'"
proof (induction n arbitrary: k slots sz s)
  case (Suc n)
  have st: "(jit_step e ^^ n) (JitDone x) = JitDone x" for x by (induction n) simp_all
  have "(jit_step e ^^ n) (jit_step e (InBlock k slots sz s)) = JitDone (Exited rc s')"
    using Suc.prems by (simp only: funpow_Suc_right comp_apply)
  then show ?case
    using Suc.IH st by (cases "jit_step e (InBlock k slots sz s)") (auto simp del: jit_step.simps split: outcome.splits)
qed simp

end
