(* ===== verification/HostAgree.thy ===== *)
theory HostAgree
  imports HostRun
begin

text \<open>
  A run of compiled code depends on the host's call function only at the messages that it can send:
  those one level deeper than its own message, in the states of the host that can occur. This is what lets
  a host that runs contracts itself be defined level by level.
\<close>

definition with_call :: "('h \<Rightarrow> evm_message \<Rightarrow> evm_result \<times> 'h) \<Rightarrow> 'h jit_env \<Rightarrow> 'h jit_env" where
  "with_call f e = e\<lparr>fns := (fns e)\<lparr>host_call := f\<rparr>\<rparr>"

lemma with_call_simps [simp]:
  "m_rev (with_call f e) = m_rev e" "m_code (with_call f e) = m_code e" "m_staticCall (with_call f e) = m_staticCall e"
  "currentMsg (with_call f e) = currentMsg e" "rtdata (with_call f e) = rtdata e"
  "junk_byte (with_call f e) = junk_byte e" "host_le (with_call f e) = host_le e"
  "div_undef (with_call f e) = div_undef e" "undef_addr (with_call f e) = undef_addr e"
  "fns (with_call f e) = (fns e)\<lparr>host_call := f\<rparr>"
  by (simp_all add: with_call_def)

named_theorems agree_simps \<open>operations that do not call the host's call function\<close>

lemma agree_1 [agree_simps]:
  "getAddress (with_call f e) = getAddress e" "getCaller (with_call f e) = getCaller e"
  "getValue (with_call f e) = getValue e" "getDepth (with_call f e) = getDepth e"
  "getCallData (with_call f e) = getCallData e" "getCallDataSize (with_call f e) = getCallDataSize e"
  "getCode (with_call f e) = getCode e" "getCodeSize (with_call f e) = getCodeSize e"
  "loadTxCtx (with_call f e) = loadTxCtx e"
  by (simp_all add: Let_def fun_eq_iff getAddress_def getCaller_def getValue_def getDepth_def getCallData_def
      getCallDataSize_def getCode_def getCodeSize_def loadTxCtx_def split: option.splits)

lemma agree_2 [agree_simps]:
  "to_ptr (with_call f e) = to_ptr e" "from_ptr (with_call f e) = from_ptr e"
  by (simp_all add: Let_def fun_eq_iff to_ptr_def from_ptr_def)

lemma agree_3 [agree_simps]: "myAddr (with_call f e) = myAddr e"
  by (simp add: Let_def fun_eq_iff myAddr_def agree_simps)

lemma agree_4 [agree_simps]:
  "mem_require (with_call f e) = mem_require e"
  "mload_func (with_call f e) = mload_func e"
  "mstore_func (with_call f e) = mstore_func e"
  "getBytes (with_call f e) = getBytes e"
  by (simp_all add: Let_def fun_eq_iff mem_require_def mload_func_def mstore_func_def getBytes_def)

lemma agree_5 [agree_simps]: "require (with_call f e) = require e"
  by (simp add: Let_def fun_eq_iff require_eq agree_simps)

lemma agree_6 [agree_simps]:
  "loadWord_check (with_call f e) = loadWord_check e" "storeWord (with_call f e) = storeWord e"
  "storeByte (with_call f e) = storeByte e"
  "copyBytes (with_call f e) = copyBytes e"
  "copyBytesNoPadding (with_call f e) = copyBytesNoPadding e"
  by (simp_all add: Let_def fun_eq_iff loadWord_check_def storeWord_def storeByte_def copyBytes_def copyBytesNoPadding_def
      agree_simps)

lemma agree_7 [agree_simps]:
  "sload (with_call f e) = sload e" "sstore (with_call f e) = sstore e"
  "ext_selfdestruct (with_call f e) = ext_selfdestruct e"
  "calldataload (with_call f e) = calldataload e" "balance (with_call f e) = balance e"
  "exists (with_call f e) = exists e" "blockHash (with_call f e) = blockHash e"
  "sha3 (with_call f e) = sha3 e" "extcode (with_call f e) = extcode e"
  "extcodesize (with_call f e) = extcodesize e" "ext_log (with_call f e) = ext_log e"
  by (simp_all add: Let_def fun_eq_iff sload_def sstore_def ext_selfdestruct_def calldataload_def balance_def exists_def
      blockHash_def sha3_def extcode_def extcodesize_def ext_log_def agree_simps)

lemma agree_8 [agree_simps]:
  "countSStore (with_call f e) = countSStore e"
  "selfdestruct_penalty (with_call f e) = selfdestruct_penalty e"
  "call_transfer_cost (with_call f e) = call_transfer_cost e"
  "call_penalty (with_call f e) = call_penalty e"
  "call_gas (with_call f e) = call_gas e"
  by (simp_all add: Let_def fun_eq_iff countSStore_def selfdestruct_penalty_def call_transfer_cost_def call_penalty_def
      call_gas_def agree_simps)

section \<open>Guarded programs\<close>

text \<open>
  A program that stops as soon as the host lacks a property.
\<close>

primrec guard :: "('h \<Rightarrow> bool) \<Rightarrow> 'h eprog \<Rightarrow> 'h eprog" where
  "guard J Done = Done"
| "guard J (Terminate t) = Terminate t"
| "guard J (Count i p) = Count i (guard J p)"
| "guard J (Commit p) = Commit (guard J p)"
| "guard J (Push v p) = Push v (guard J p)"
| "guard J (Pop k) = Pop (\<lambda>v. guard J (k v))"
| "guard J (Dup i p) = Dup i (guard J p)"
| "guard J (Swap i p) = Swap i (guard J p)"
| "guard J (Do f p) = Do (\<lambda>s. if J (host s) then f s else None) (guard J p)"
| "guard J (Ask f k) = Ask f (\<lambda>v. guard J (k v))"

lemma guard_seq: "guard J (seq p q) = seq (guard J p) (guard J q)"
  by (induction p) auto

lemma guard_popWords: "guard J (popWords n ws k) = popWords n ws (\<lambda>ws. guard J (k ws))"
  by (induction n arbitrary: ws) simp_all

lemma guard_static: "static_stack (guard J p) ls = static_stack p ls" "static_meter r (guard J p) g = static_meter r p g"
  by (induction p arbitrary: ls g) simp_all

lemma run_guard:
  assumes "preserves r (\<lambda>s. J (host s)) p" "J (host s)"
  shows "run_jit load (guard J p) ls opn cs s = run_jit load p ls opn cs s"
    "abort_host load (guard J p) ls opn cs s = abort_host load p ls opn cs s"
proof -
  have chk: "J (host s')" if "place_check opn cs s = Some (cs', s')" "J (host s)" for opn cs cs' and s s' :: "'a rt"
    using that by (induction opn cs s rule: place_check.induct) (auto split: option.splits dest: gas_check_host)
  have "run_jit load (guard J p) ls opn cs s = run_jit load p ls opn cs s \<and>
     abort_host load (guard J p) ls opn cs s = abort_host load p ls opn cs s"
    using assms
  proof (induction p arbitrary: ls opn cs s)
    case (Count i p)
    then show ?case using chk [of opn cs s] by (auto split: option.splits)
  next
    case (Do f p)
    then show ?case by (fastforce simp: keeps_def split: option.splits)
  qed (auto split: prod.splits)
  then show "run_jit load (guard J p) ls opn cs s = run_jit load p ls opn cs s"
    "abort_host load (guard J p) ls opn cs s = abort_host load p ls opn cs s" by simp_all
qed

text \<open>
  Two call functions that agree in the states with a property \<open>J\<close> of the host, for the messages of the
  next level.
\<close>

definition agrees :: "('h \<Rightarrow> bool) \<Rightarrow> ('h \<Rightarrow> evm_message \<Rightarrow> evm_result \<times> 'h) \<Rightarrow> 'h jit_env \<Rightarrow> bool" where
  "agrees J f e \<longleftrightarrow>
     (\<forall>h m. J h \<and> depth m = depth (currentMsg e) + 1 \<longrightarrow> f h m = host_call (fns e) h m)"

lemma agree_leave:
  assumes "agrees J f e" "J (host s)"
  shows "ext_call (with_call f e) knd g a v x n y m s = ext_call e knd g a v x n y m s"
    "ext_create (with_call f e) g v x n s = ext_create e g v x n s"
proof -
  have msg: "call_msg (with_call f e) knd g a v inp = call_msg e knd g a v inp"
    "depth (call_msg e knd g a v inp) = depth (currentMsg e) + 1" for knd g a v inp
    by (simp_all add: call_msg_def Let_def)
  have "call_v2 (with_call f e) knd g a v inp n (host s) = call_v2 e knd g a v inp n (host s)" for knd g a v inp n
    using assms msg by (simp add: call_v2_def agrees_def Let_def case_prod_beta cong: if_cong)
  then have w: "call_wrapper (with_call f e) knd g a v inp n my dep (resetReturnBuf s) =
      call_wrapper e knd g a v inp n my dep (resetReturnBuf s)" for knd g a v inp n my dep
    by (simp add: call_wrapper_def resetReturnBuf_def agree_simps Let_def cong: if_cong)
  show "ext_call (with_call f e) knd g a v x n y m s = ext_call e knd g a v x n y m s"
    "ext_create (with_call f e) g v x n s = ext_create e g v x n s"
    by (simp_all add: ext_call_def ext_create_def agree_simps w Let_def)
qed

lemma agree_do_create:
  assumes "agrees J f e"
  shows "(\<lambda>s. if J (host s) then do_create (with_call f e) v x n s else None) =
    (\<lambda>s. if J (host s) then do_create e v x n s else None)"
  using agree_leave(2) [OF assms] by (simp add: fun_eq_iff do_create_def Let_def)

lemma agree_do_call:
  assumes "agrees J f e"
  shows "(\<lambda>s. if J (host s) then do_call (with_call f e) i c a v x n y m s else None) =
    (\<lambda>s. if J (host s) then do_call e i c a v x n y m s else None)"
proof
  fix s :: "'a rt"
  have *: "Option.bind o1 g = Option.bind o1 g'" if "\<And>s'. o1 = Some s' \<Longrightarrow> g s' = g' s'"
    for o1 :: "'a rt option" and g g' using that by (cases o1) simp_all
  have leave: "call_leave (with_call f e) i c a v x n y m s = call_leave e i c a v x n y m s" if "J (host s)" for c s
    using agree_leave(1) [OF assms that] by (simp add: call_leave_def Let_def)
  have "do_call (with_call f e) i c a v x n y m s = do_call e i c a v x n y m s" if "J (host s)"
    unfolding do_call_def Let_def agree_5 agree_8
    apply (intro *)
    using that leave
    by (auto simp: require_eq dest!: mem_require_host count_host split: if_splits)
  then show "(if J (host s) then do_call (with_call f e) i c a v x n y m s else None) =
      (if J (host s) then do_call e i c a v x n y m s else None)" by simp
qed

lemma guard_inst:
  assumes "agrees J f e"
  shows "guard J (compile_inst i (with_call f e) it rest) = guard J (compile_inst i e it rest)"
  by (cases i) (simp_all add: emit_defs emit_LOG_def agree_simps agree_do_call [OF assms] agree_do_create [OF assms]
     guard_popWords Let_def cong: if_cong)

lemma guard_range:
  assumes "agrees J f e"
  shows "guard J (compile_range (with_call f e) it fin) = guard J (compile_range e it fin)"
  using assms
proof (induction e it fin rule: compile_range.induct)
  case (1 e it fin)
  show ?case
  proof (cases "fin \<le> it")
    case False
    let ?rest = "drop it (take fin (m_code e))"
    have "guard J (compile_range (with_call f e) (inst_end (decode (hd ?rest)) it ?rest + 1) fin) =
        guard J (compile_range e (inst_end (decode (hd ?rest)) it ?rest + 1) fin)"
      using "1.IH" [OF False refl refl] "1.prems" .
    with False show ?thesis
      by (simp add: compile_range.simps [of _ it] Let_def guard_seq guard_inst [OF "1.prems"])
  qed (simp add: compile_range.simps [of _ it])
qed

lemma agrees_keeps:
  assumes "agrees J f e" "host_keeps J e"
  shows "host_keeps J (with_call f e)"
  using assms by (simp add: agrees_def host_keeps_def)

lemma agree_block:
  assumes "agrees J f e" "host_keeps J e" "J (host s)"
  shows "block_jit (m_rev e) (compileBasicBlock (with_call f e) b) slots sz s =
      block_jit (m_rev e) (compileBasicBlock e b) slots sz s" (is ?run)
    and "block_abort_host (m_rev e) (compileBasicBlock (with_call f e) b) slots sz s =
      block_abort_host (m_rev e) (compileBasicBlock e b) slots sz s" (is ?stop)
proof -
  let ?p = "\<lambda>e. compile_range e (m_firstInstrIdx b) (m_end b)"
  have keep: "preserves (m_rev e) (\<lambda>s. J (host s)) (?p e')" if "host_keeps J e'" "m_rev e' = m_rev e" for e' :: "'a jit_env"
    using range_preserves [of e' J "m_firstInstrIdx b" "m_end b"] that by simp
  note g = run_guard [OF keep [OF agrees_keeps [OF assms(1,2)] with_call_simps(1)] assms(3)]
  note h = run_guard [OF keep [OF assms(2) refl] assms(3)]
  have range: "guard J (?p (with_call f e)) = guard J (?p e)" using guard_range [OF assms(1)] .
  have "static_stack (?p (with_call f e)) ls_init = static_stack (?p e) ls_init"
    "static_meter (m_rev e) (?p (with_call f e)) gm_init = static_meter (m_rev e) (?p e) gm_init"
    by (metis guard_static range)+
  moreover have "run_jit load (?p (with_call f e)) ls opn cs s = run_jit load (?p e) ls opn cs s"
    "abort_host load (?p (with_call f e)) ls opn cs s = abort_host load (?p e) ls opn cs s" for load ls opn cs
    by (simp_all flip: g h add: range)
  ultimately show ?run ?stop
    by (simp_all add: block_jit_def block_abort_host_def compileBasicBlock_def Let_def cong: option.case_cong)
qed

lemma agree_step:
  assumes "agrees J f e" "host_keeps J e" "J (host s)"
  shows "jit_step (with_call f e) (InBlock k slots sz s) = jit_step e (InBlock k slots sz s)"
    and "step_abort_host (with_call f e) k slots sz s = step_abort_host e k slots sz s"
proof -
  have jump: "jit_jump (with_call f e) = jit_jump e" by (simp add: jit_jump_def fun_eq_iff)
  show "jit_step (with_call f e) (InBlock k slots sz s) = jit_step e (InBlock k slots sz s)"
    unfolding jit_step.simps Let_def agree_block(1) [OF assms] with_call_simps jump ..
  show "step_abort_host (with_call f e) k slots sz s = step_abort_host e k slots sz s"
    unfolding step_abort_host_def Let_def agree_block [OF assms] with_call_simps ..
qed

lemma agree_run:
  assumes "agrees J f e" "host_keeps J e" "J (host s)"
  shows "(jit_step (with_call f e) ^^ n) (InBlock k slots sz s) = (jit_step e ^^ n) (InBlock k slots sz s)"
    and "run_host (with_call f e) n k slots sz s = run_host e n k slots sz s"
proof -
  have st: "(jit_step e ^^ n) (JitDone x) = JitDone x" for e :: "'a jit_env" and n x by (induction n) simp_all
  have "(jit_step (with_call f e) ^^ n) (InBlock k slots sz s) = (jit_step e ^^ n) (InBlock k slots sz s) \<and>
     run_host (with_call f e) n k slots sz s = run_host e n k slots sz s"
    using assms(3)
  proof (induction n arbitrary: k slots sz s)
    case (Suc n)
    note eq = agree_step [OF assms(1,2) Suc.prems, of k slots sz]
    show ?case
    proof (cases "jit_step e (InBlock k slots sz s)")
      case (InBlock k' slots' sz' s')
      then have "J (host s')" using step_keeps(1) [OF assms(2) Suc.prems] by blast
      with InBlock Suc.IH show ?thesis
        by (simp add: eq funpow_Suc_right del: funpow.simps jit_step.simps)
    next
      case (JitDone x)
      then show ?thesis
        by (cases x) (simp_all add: eq st funpow_Suc_right del: funpow.simps jit_step.simps)
    qed
  qed simp
  then show "(jit_step (with_call f e) ^^ n) (InBlock k slots sz s) = (jit_step e ^^ n) (InBlock k slots sz s)"
    "run_host (with_call f e) n k slots sz s = run_host e n k slots sz s" by simp_all
qed

lemma agree_main:
  assumes "agrees J f e" "host_keeps J e" "J (host s)"
  shows "jit_main (with_call f e) n slots s = jit_main e n slots s"
  unfolding jit_main_def by (rule agree_run(1) [OF assms])

text \<open>
  So a host needs to honour the gas only in the states with a property that its callbacks keep: for
  the others the call function may be replaced.
\<close>

definition honest :: "('h \<Rightarrow> bool) \<Rightarrow> 'h jit_env \<Rightarrow> 'h \<Rightarrow> evm_message \<Rightarrow> evm_result \<times> 'h" where
  "honest J e h m = (if J h \<and> depth m = depth (currentMsg e) + 1 then host_call (fns e) h m
     else (\<lparr>status_code = 1, gas_left = 0, output_data = []\<rparr>, h))"

definition host_gas_on :: "('h \<Rightarrow> bool) \<Rightarrow> 'h jit_env \<Rightarrow> bool" where
  "host_gas_on J e \<longleftrightarrow>
     (\<forall>h m. J h \<and> depth m = depth (currentMsg e) + 1 \<and> 0 \<le> sint (msg_gas m) \<and> msg_gas m \<noteq> gasMax \<longrightarrow>
        0 \<le> sint (gas_left (fst (host_call (fns e) h m))) \<and>
        sint (gas_left (fst (host_call (fns e) h m))) \<le> sint (msg_gas m))"

lemma honest_agrees: "agrees J (honest J e) e"
  by (simp add: agrees_def honest_def)

lemma honest_gas: "host_gas_on J e \<Longrightarrow> host_gas_ok (with_call (honest J e) e)"
  by (auto simp: host_gas_on_def host_gas_ok_def honest_def)

section \<open>The machine\<close>

lemma run_ref_guard:
  "preserves r (\<lambda>s. J (host s)) p \<Longrightarrow> J (host s) \<Longrightarrow> run_ref r (guard J p) st s = run_ref r p st s"
proof (induction p arbitrary: st s)
  case (Count i p)
  then show ?case by (auto simp: keeps_def split: option.splits)
next
  case (Do f p)
  then show ?case by (fastforce simp: keeps_def split: option.splits)
qed (auto split: option.splits)

lemma agree_evm_step:
  assumes "agrees J f e" "host_keeps J e" "J (host s)"
  shows "evm_step (with_call f e) (Running pc st s) = evm_step e (Running pc st s)"
proof -
  have keep: "preserves (m_rev e) (\<lambda>s. J (host s)) (evm_inst e' pc)" if "host_keeps J e'" "m_rev e' = m_rev e" for e' :: "'a jit_env"
    using hosted.evm_inst_preserves [of e' J pc] that by simp
  have "guard J (evm_inst (with_call f e) pc) = guard J (evm_inst e pc)"
    by (simp add: evm_inst_def Let_def guard_inst [OF assms(1)])
  then have run: "run_ref (m_rev e) (evm_inst (with_call f e) pc) st s = run_ref (m_rev e) (evm_inst e pc) st s"
    using run_ref_guard [OF keep [OF agrees_keeps [OF assms(1,2)] with_call_simps(1)] assms(3)]
      run_ref_guard [OF keep [OF assms(2) refl] assms(3)] by metis
  have jump: "evm_jump (with_call f e) = evm_jump e" by (simp add: evm_jump_def fun_eq_iff)
  show ?thesis unfolding evm_step.simps with_call_simps run jump ..
qed

lemma agree_evm_run:
  assumes "agrees J f e" "host_keeps J e" "J (host s)"
  shows "(evm_step (with_call f e) ^^ n) (Running pc st s) = (evm_step e ^^ n) (Running pc st s)"
  using assms(3)
proof (induction n arbitrary: pc st s)
  case (Suc n)
  have inv: "config_inv (\<lambda>s. J (host s)) (evm_step e (Running pc st s))"
    using hosted.evm_run_keeps [where e = e and J = J and c = "Running pc st s" and n = 1] assms(2) Suc.prems by simp
  have st: "(evm_step e ^^ n) (Halted x) = Halted x" for e :: "'a jit_env" and n x by (induction n) simp_all
  show ?case
    using inv Suc.IH st
    by (cases "evm_step e (Running pc st s)")
      (simp_all add: agree_evm_step [OF assms(1,2) Suc.prems] funpow_Suc_right del: funpow.simps evm_step.simps)
qed simp

text \<open>Compiled code on a host that honours the gas in the states with a property that it keeps.\<close>

lemma jit_ends_on:
  assumes "host_gas_on J e" "host_keeps J e" "J (host s)" "length (m_code e) < 2 ^ 32" "gas_ok s"
  shows "\<exists>x m. jit_main e ((nat (sint (gas s)) + 1) * (length (m_code e) + 1)) slots s = JitDone x \<and>
    (evm_step e ^^ m) (Running 0 [] s) = Halted x \<and>
    (\<forall>rc s'. x = Exited rc s' \<longrightarrow> gas_ok s' \<and> sint (gas s') \<le> sint (gas s))"
proof -
  let ?e = "with_call (honest J e) e"
  obtain x m where x: "jit_main ?e ((nat (sint (gas s)) + 1) * (length (m_code e) + 1)) slots s = JitDone x"
    "(evm_step ?e ^^ m) (Running 0 [] s) = Halted x"
    using jit_main_ends [OF honest_gas [OF assms(1)] _ assms(5), of slots] assms(4) by auto
  note agree = honest_agrees [of J e] assms(2,3)
  show ?thesis
    using x jit_main_spends [OF honest_gas [OF assms(1)] _ assms(5)] assms(4)
    by (auto simp: agree_main [OF agree] agree_evm_run [OF agree])
qed

lemma jit_overdrawn_on:
  assumes "host_gas_on J e" "host_keeps J e" "J (host s)" "length (m_code e) < 2 ^ 32"
    "- (2 ^ 62) \<le> sint (gas s)" "sint (gas s) < 0"
  shows "\<exists>x. jit_main e (Suc n) slots s = JitDone x \<and> (\<forall>rc s'. x = Exited rc s' \<longrightarrow> s' = s)"
proof -
  have "length (m_code (with_call (honest J e) e)) < 2 ^ 32" using assms(4) by simp
  from jit_main_overdrawn [OF honest_gas [OF assms(1)] this assms(5,6), of n slots] show ?thesis
    by (simp only: agree_main [OF honest_agrees [of J e] assms(2,3)])
qed

end
