(* ===== verification/DataWord.thy ===== *)
theory DataWord
  imports FVM_Prelude
begin

text \<open>
  The number codecs of the Java side: \<^verbatim>\<open>FvmDataWord.java\<close>, \<^verbatim>\<open>util/ByteUtil.java\<close> and
  \<^verbatim>\<open>util/TransactionUtil.java\<close> under \<^verbatim>\<open>src/modFastVM/src/org/aion/fastvm\<close>.

  A \<open>BigInteger\<close> is an \<open>int\<close>, a \<open>byte[]\<close> a byte list; a Java exception is the left summand of a result.
  \<open>toByteArray\<close> and \<open>positive\<close> are \<open>BigInteger.toByteArray()\<close>, the shortest two's complement form, and
  the constructor \<open>BigInteger(1, bytes)\<close>.
\<close>

section \<open>Exceptions\<close>

datatype java_exn =
    BufferUnderflow | BufferOverflow | NegativeArraySize | IllegalArgument | IllegalState | NoSuchElement
  | NullPointer

type_synonym 'a java = "java_exn + 'a"

definition bind_java :: "'a java \<Rightarrow> ('a \<Rightarrow> 'b java) \<Rightarrow> 'b java" where
  "bind_java m k = (case m of Inl x \<Rightarrow> Inl x | Inr v \<Rightarrow> k v)"

lemma bind_java_simps [simp]: "bind_java (Inl x) k = Inl x" "bind_java (Inr v) k = k v"
  by (simp_all add: bind_java_def)

lemma bind_java_eq_Inr: "bind_java m k = Inr w \<longleftrightarrow> (\<exists>v. m = Inr v \<and> k v = Inr w)"
  by (cases m) simp_all


section \<open>BigInteger\<close>

fun nat_bits :: "nat \<Rightarrow> nat" where
  "nat_bits n = (if n = 0 then 0 else Suc (nat_bits (n div 2)))"

declare nat_bits.simps [simp del]

definition bitLength :: "int \<Rightarrow> nat" where
  "bitLength n = nat_bits (nat (if n < 0 then - n - 1 else n))"

definition toByteArray :: "int \<Rightarrow> byte list" where
  "toByteArray n = map (\<lambda>i. word_of_int (n div 256 ^ i)) (rev [0..<bitLength n div 8 + 1])"

definition positive :: "byte list \<Rightarrow> int" where
  "positive bs = foldl (\<lambda>a b. 256 * a + uint b) 0 bs"


section \<open>FvmDataWord\<close>

definition SIZE :: nat where
  "SIZE = 16"

definition rightPadBytesWithZeroes :: "byte list \<Rightarrow> byte list" where
  "rightPadBytesWithZeroes bytes = replicate (SIZE - length bytes) 0 @ bytes"

definition fromBytes :: "byte list \<Rightarrow> byte list java" where
  "fromBytes bytes =
     (if length bytes = SIZE then Inr bytes
      else if length bytes < SIZE then Inr (rightPadBytesWithZeroes bytes)
      else Inl IllegalArgument)"

definition removeLargeBigIntegerLeadingZeroByte :: "int \<Rightarrow> byte list" where
  "removeLargeBigIntegerLeadingZeroByte number =
     (let bytes = toByteArray number;
          isLength17leadingZero = length bytes = SIZE + 1 \<and> bytes ! 0 = 0
      in if isLength17leadingZero then drop 1 bytes else bytes)"

definition fromBigInteger :: "int \<Rightarrow> byte list java" where
  "fromBigInteger bigInteger = fromBytes (removeLargeBigIntegerLeadingZeroByte bigInteger)"

definition fromLong :: "i64 \<Rightarrow> byte list java" where
  "fromLong number = fromBytes (replicate 8 0 @ be_bytes 8 number)"

definition fromInt :: "32 word \<Rightarrow> byte list java" where
  "fromInt number = fromBytes (replicate 12 0 @ be_bytes 4 number)"

definition toInt :: "byte list \<Rightarrow> 32 word" where
  "toInt w = be_word (drop 12 w)"

definition toLong :: "byte list \<Rightarrow> i64" where
  "toLong w = be_word (drop 8 w)"

definition toBigInteger :: "byte list \<Rightarrow> int" where
  "toBigInteger w = positive w"


section \<open>ByteUtil\<close>

definition merge_arrays :: "byte list list \<Rightarrow> byte list" where
  "merge_arrays arrays = foldl (@) [] arrays"

definition bigIntegerToBytesSigned :: "int \<Rightarrow> nat \<Rightarrow> byte list java" where
  "bigIntegerToBytesSigned n numBytes =
     (let bytes = replicate numBytes (if n < 0 then 0xff else 0);
          biBytes = toByteArray n;
          start = if length biBytes = numBytes + 1 then 1 else 0;
          len = min (length biBytes) numBytes
      in Inr (take (numBytes - len) bytes @ take len (drop start biBytes)))"

definition bytesToBigInteger :: "byte list \<Rightarrow> int" where
  "bytesToBigInteger bb = (if length bb = 0 then 0 else positive bb)"

fun indexOfFirstNonZeroByte :: "byte list \<Rightarrow> nat" where
  "indexOfFirstNonZeroByte [] = 0"
| "indexOfFirstNonZeroByte (b # bs) = (if b \<noteq> 0 then 0 else Suc (indexOfFirstNonZeroByte bs))"

definition stripLeadingZeroes :: "byte list \<Rightarrow> byte list" where
  "stripLeadingZeroes bytes =
     (let i = indexOfFirstNonZeroByte bytes
      in if i = length bytes then [0] else drop i bytes)"


section \<open>Numbers and their bytes\<close>

lemma positive_Nil [simp]: "positive [] = 0"
  by (simp add: positive_def)

lemma positive_snoc: "positive (bs @ [b]) = 256 * positive bs + uint b"
  by (simp add: positive_def)

lemma positive_append: "positive (xs @ ys) = positive xs * 256 ^ length ys + positive ys"
  by (induction ys rule: rev_induct) (simp_all add: positive_snoc algebra_simps flip: append_assoc)

lemma positive_Cons: "positive (b # bs) = uint b * 256 ^ length bs + positive bs"
  using positive_append [of "[b]" bs] by (simp add: positive_def)

lemma positive_zeros [simp]: "positive (replicate n 0) = 0"
  by (induction n) (simp_all add: positive_Cons)

lemma positive_range: "0 \<le> positive bs" "positive bs < 256 ^ length bs"
proof (induction bs)
  case (Cons b bs)
  have b: "0 \<le> uint b" "uint b \<le> 255" using uint_lt2p [of b] by simp_all
  then show "0 \<le> positive (b # bs)" using Cons by (simp add: positive_Cons)
  have "uint b * 256 ^ length bs \<le> 255 * 256 ^ length bs" using b by (intro mult_right_mono) simp_all
  with Cons(2) show "positive (b # bs) < 256 ^ length (b # bs)"
    by (simp only: positive_Cons length_Cons power_Suc)
qed simp_all

lemma positive_inj: "length xs = length ys \<Longrightarrow> positive xs = positive ys \<longleftrightarrow> xs = ys"
proof (induction xs ys rule: list_induct2)
  case (Cons x xs y ys)
  have "x = y \<and> positive xs = positive ys" if eq: "positive (x # xs) = positive (y # ys)"
  proof -
    let ?m = "256 ^ length xs :: int"
    from eq Cons have e: "uint x * ?m + positive xs = uint y * ?m + positive ys"
      by (simp add: positive_Cons)
    have "positive xs mod ?m = positive xs" "positive ys mod ?m = positive ys"
      using positive_range [of xs] positive_range [of ys] Cons by simp_all
    with arg_cong [OF e, of "\<lambda>k. k mod ?m"] have "positive xs = positive ys" by simp
    with e show ?thesis by (simp add: word_uint_eq_iff)
  qed
  with Cons show ?case by auto
qed simp

lemma positive_digits: "positive (map (\<lambda>i. word_of_int (n div 256 ^ i)) (rev [0..<k])) = n mod 256 ^ k"
proof (induction k)
  case (Suc k)
  have "n mod 256 ^ Suc k = n mod 256 ^ k + 256 ^ k * (n div 256 ^ k mod 256)"
    using zmod_zmult2_eq [of 256 n "256 ^ k"] by (simp add: mult.commute [of 256])
  moreover have "uint (word_of_int (n div 256 ^ k) :: byte) = n div 256 ^ k mod 256"
    by (simp add: uint_word_of_int)
  ultimately show ?case using Suc by (simp add: positive_Cons)
qed simp

lemma nat_bits_bounds: "n < 2 ^ nat_bits n" "0 < n \<Longrightarrow> 2 ^ nat_bits n \<le> 2 * n"
proof (induction n rule: nat_bits.induct)
  case (1 n)
  show "n < 2 ^ nat_bits n"
    using 1(1) by (cases "n = 0") (simp_all add: nat_bits.simps [of n])
  show "2 ^ nat_bits n \<le> 2 * n" if "0 < n"
    using 1(2) that by (cases "n = 1") (simp_all add: nat_bits.simps [of n] nat_bits.simps [of "Suc 0"] nat_bits.simps [of 0])
qed

lemma toByteArray_value:
  assumes "0 \<le> n"
  shows "positive (toByteArray n) = n"
proof -
  have "nat n < 2 ^ nat_bits (nat n)" by (rule nat_bits_bounds)
  also have "\<dots> \<le> 2 ^ (8 * (nat_bits (nat n) div 8 + 1))" by (rule power_increasing) simp_all
  also have "\<dots> = 256 ^ (nat_bits (nat n) div 8 + 1)" by (simp only: power_mult) simp
  finally have "nat n < 256 ^ (nat_bits (nat n) div 8 + 1)" .
  then have "n < 256 ^ (nat_bits (nat n) div 8 + 1)" using assms by (simp add: nat_less_iff)
  then show ?thesis
    using assms unfolding toByteArray_def positive_digits by (simp add: bitLength_def)
qed

lemma length_toByteArray: "length (toByteArray n) = bitLength n div 8 + 1"
  by (simp add: toByteArray_def)

lemma bitLength_le: "0 \<le> n \<Longrightarrow> bitLength n \<le> k \<longleftrightarrow> n < 2 ^ k"
proof -
  assume n: "0 \<le> n"
  have "nat_bits m \<le> k \<longleftrightarrow> m < 2 ^ k" for m
  proof
    assume "nat_bits m \<le> k"
    then have "(2::nat) ^ nat_bits m \<le> 2 ^ k" by (rule power_increasing) simp
    with nat_bits_bounds(1) [of m] show "m < 2 ^ k" by (rule less_le_trans)
  next
    assume m: "m < 2 ^ k"
    show "nat_bits m \<le> k"
    proof (cases "m = 0")
      case False
      with nat_bits_bounds(2) [of m] m have "(2::nat) ^ nat_bits m < 2 ^ Suc k" by simp
      then show ?thesis using nat_power_less_imp_less [of 2 "nat_bits m" "Suc k"] by simp
    qed (simp add: nat_bits.simps)
  qed
  with n show ?thesis by (simp add: bitLength_def nat_less_iff)
qed

lemma remove_leading:
  assumes "0 \<le> n"
  shows "positive (removeLargeBigIntegerLeadingZeroByte n) = n"
    "length (removeLargeBigIntegerLeadingZeroByte n) \<le> 16 \<longleftrightarrow> n < 2 ^ 128"
proof -
  let ?bs = "toByteArray n"
  have v: "positive ?bs = n" by (rule toByteArray_value [OF assms])
  have len: "length ?bs \<le> 16 \<longleftrightarrow> n < 2 ^ 127"
    using bitLength_le [OF assms, of 127] by (auto simp: length_toByteArray)
  have len': "n < 2 ^ 128 \<Longrightarrow> length ?bs \<le> 17"
    using bitLength_le [OF assms, of 128] by (auto simp: length_toByteArray)
  show "positive (removeLargeBigIntegerLeadingZeroByte n) = n"
    "length (removeLargeBigIntegerLeadingZeroByte n) \<le> 16 \<longleftrightarrow> n < 2 ^ 128"
  proof -
    obtain b bs where bs: "?bs = b # bs" by (cases ?bs) (simp_all add: toByteArray_def)
    have n: "n = uint b * 256 ^ length bs + positive bs" using v by (simp add: bs positive_Cons)
    have eq: "removeLargeBigIntegerLeadingZeroByte n = (if length bs = SIZE \<and> b = 0 then bs else b # bs)"
      by (simp add: removeLargeBigIntegerLeadingZeroByte_def Let_def bs)
    have lt: "positive bs < 256 ^ length bs" by (rule positive_range)
    show "positive (removeLargeBigIntegerLeadingZeroByte n) = n"
      unfolding eq using n by (simp add: positive_Cons)
    show "length (removeLargeBigIntegerLeadingZeroByte n) \<le> 16 \<longleftrightarrow> n < 2 ^ 128"
    proof (cases "length bs = 16")
      case True
      have "b = 0 \<longleftrightarrow> n < 2 ^ 128"
      proof
        show "b = 0 \<Longrightarrow> n < 2 ^ 128" using n lt True by simp
      next
        assume "n < 2 ^ 128"
        with n True positive_range(1) [of bs] have "uint b * 2 ^ 128 < 2 ^ 128" by simp
        then have "uint b < 1" by (simp add: mult_less_cancel_right)
        then have "uint b = 0" using uint_ge_0 [of b] by linarith
        then show "b = 0" by (simp add: word_uint_eq_iff)
      qed
      with True show ?thesis by (simp add: eq SIZE_def)
    next
      case False
      then have "removeLargeBigIntegerLeadingZeroByte n = ?bs"
        by (simp add: eq bs SIZE_def)
      moreover have "n < 2 ^ 128 \<Longrightarrow> length ?bs \<le> 16" using len' False by (simp add: bs)
      ultimately show ?thesis using len by auto
    qed
  qed
qed

lemma fromBytes_cases:
  "length bs \<le> 16 \<Longrightarrow> \<exists>w. fromBytes bs = Inr w \<and> length w = 16 \<and> positive w = positive bs"
  "16 < length bs \<Longrightarrow> fromBytes bs = Inl IllegalArgument"
  by (auto simp: fromBytes_def SIZE_def rightPadBytesWithZeroes_def positive_append)

lemma fromBigInteger_small:
  assumes "0 \<le> n" "n < 2 ^ 128"
  obtains w where "fromBigInteger n = Inr w" "length w = 16" "positive w = n"
  using fromBytes_cases(1) [of "removeLargeBigIntegerLeadingZeroByte n"] remove_leading [OF assms(1)] assms(2)
  unfolding fromBigInteger_def by auto

lemma fromBigInteger_positive:
  assumes "length w = 16"
  shows "fromBigInteger (positive w) = Inr w"
proof -
  have "0 \<le> positive w" "positive w < 2 ^ 128" using positive_range [of w] assms by simp_all
  then obtain v where "fromBigInteger (positive w) = Inr v" "length v = 16" "positive v = positive w"
    by (rule fromBigInteger_small)
  with assms show ?thesis by (simp add: positive_inj)
qed

text \<open>
  C35: numbers as data words. A number from 0 up to \<open>2 ^ 128\<close> becomes the data word of 16 bytes with that
  value, a larger one is refused, and the number of a data word gives the word back.
\<close>

theorem data_word_roundtrip:
  "(0 \<le> n \<and> n < 2 ^ 128 \<longrightarrow> (\<exists>w. fromBigInteger n = Inr w \<and> length w = 16 \<and> toBigInteger w = n)) \<and>
   (2 ^ 128 \<le> n \<longrightarrow> fromBigInteger n = Inl IllegalArgument) \<and>
   (length w = 16 \<longrightarrow> fromBigInteger (toBigInteger w) = Inr w)"
proof (intro conjI impI)
  assume "0 \<le> n \<and> n < 2 ^ 128"
  then show "\<exists>w. fromBigInteger n = Inr w \<and> length w = 16 \<and> toBigInteger w = n"
    using fromBigInteger_small [of n] by (auto simp: toBigInteger_def)
next
  assume "2 ^ 128 \<le> n"
  then show "fromBigInteger n = Inl IllegalArgument"
    using remove_leading(2) [of n] fromBytes_cases(2) [of "removeLargeBigIntegerLeadingZeroByte n"]
    by (simp add: fromBigInteger_def)
next
  assume "length w = 16"
  then show "fromBigInteger (toBigInteger w) = Inr w" by (simp add: toBigInteger_def fromBigInteger_positive)
qed

theorem data_word_roundtrip_witness:
  "(\<exists>w. fromBigInteger 70000 = Inr w \<and> toBigInteger w = 70000) \<and>
   fromBigInteger (2 ^ 128) = Inl IllegalArgument \<and>
   fromBigInteger (toBigInteger (replicate 16 0xff)) = Inr (replicate 16 0xff)"
  using data_word_roundtrip [of 70000] data_word_roundtrip [of "2 ^ 128"]
    data_word_roundtrip [of 0 "replicate 16 0xff"] by auto

text \<open>The energy price travels as a long in a data word.\<close>

lemma fromLong_eq: "fromLong n = Inr (replicate 8 0 @ be_bytes 8 n)"
  by (simp add: fromLong_def fromBytes_def SIZE_def)

lemma toLong_fromLong: "fromLong n = Inr w \<Longrightarrow> toLong w = n \<and> length w = 16"
  by (auto simp: fromLong_eq toLong_def codec_simps)

end
