(* ===== verification/JavaEffects.thy ===== *)
theory JavaEffects
  imports DataWord
begin

text \<open>
  What a transaction does besides changing the world state:
  \<^verbatim>\<open>src/modFastVM/src/org/aion/fastvm/SideEffects.java\<close>.

  \<open>InternalTransaction\<close> and \<open>Log\<close> belong to a library; here they are their constructors. Whether two
  internal transactions are equal is decided by that library, so \<open>List.remove\<close> takes the equality as an
  argument. The set of deleted accounts has no order.
\<close>

type_synonym AionAddress = "byte list"

datatype InternalTransaction =
    contractCallTransaction (tx_rejected: bool) AionAddress AionAddress int int "byte list" i64 i64
  | contractCreateTransaction (tx_rejected: bool) AionAddress int int "byte list" i64 i64

record Log =
  log_address :: AionAddress
  log_topics :: "byte list list"
  log_data :: "byte list"

record SideEffects =
  deleteAccounts :: "AionAddress set"
  internalTxs :: "InternalTransaction list"
  logs :: "Log list"
  calls :: "(byte list \<times> byte list \<times> byte list) list"

definition newSideEffects :: SideEffects where
  "newSideEffects = \<lparr>deleteAccounts = {}, internalTxs = [], logs = [], calls = []\<rparr>"

definition addToDeletedAddresses :: "AionAddress \<Rightarrow> SideEffects \<Rightarrow> SideEffects" where
  "addToDeletedAddresses a e = e\<lparr>deleteAccounts := insert a (deleteAccounts e)\<rparr>"

definition addAllToDeletedAddresses :: "AionAddress set \<Rightarrow> SideEffects \<Rightarrow> SideEffects" where
  "addAllToDeletedAddresses as e = e\<lparr>deleteAccounts := deleteAccounts e \<union> as\<rparr>"

definition addLog :: "Log \<Rightarrow> SideEffects \<Rightarrow> SideEffects" where
  "addLog l e = e\<lparr>logs := logs e @ [l]\<rparr>"

definition addLogs :: "Log list \<Rightarrow> SideEffects \<Rightarrow> SideEffects" where
  "addLogs ls e = foldl (\<lambda>e l. addLog l e) e ls"

definition addCall :: "byte list \<Rightarrow> byte list \<Rightarrow> byte list \<Rightarrow> SideEffects \<Rightarrow> SideEffects" where
  "addCall d dest v e = e\<lparr>calls := calls e @ [(d, dest, v)]\<rparr>"

definition addInternalTransaction :: "InternalTransaction \<Rightarrow> SideEffects \<Rightarrow> SideEffects" where
  "addInternalTransaction t e = e\<lparr>internalTxs := internalTxs e @ [t]\<rparr>"

definition addInternalTransactions :: "InternalTransaction list \<Rightarrow> SideEffects \<Rightarrow> SideEffects" where
  "addInternalTransactions ts e = foldl (\<lambda>e t. addInternalTransaction t e) e ts"

fun copyTransactionAsRejected :: "InternalTransaction \<Rightarrow> InternalTransaction" where
  "copyTransactionAsRejected (contractCreateTransaction r s n v d l p) =
     contractCreateTransaction True s n v d l p"
| "copyTransactionAsRejected (contractCallTransaction r s t n v d l p) =
     contractCallTransaction True s t n v d l p"

definition markAllInternalTransactionsAsRejected :: "SideEffects \<Rightarrow> SideEffects" where
  "markAllInternalTransactionsAsRejected e =
     e\<lparr>internalTxs := map copyTransactionAsRejected (internalTxs e)\<rparr>"

text \<open>\<open>List.remove(Object)\<close> removes the first element that is equal to the given one.\<close>

fun list_remove :: "('a \<Rightarrow> 'a \<Rightarrow> bool) \<Rightarrow> 'a \<Rightarrow> 'a list \<Rightarrow> 'a list" where
  "list_remove eq x [] = []"
| "list_remove eq x (y # ys) = (if eq x y then ys else y # list_remove eq x ys)"

definition markMostRecentInternalTransactionAsRejected ::
  "(InternalTransaction \<Rightarrow> InternalTransaction \<Rightarrow> bool) \<Rightarrow> SideEffects \<Rightarrow> SideEffects" where
  "markMostRecentInternalTransactionAsRejected eq e =
     (if internalTxs e = [] then e
      else let toReject = internalTxs e ! (length (internalTxs e) - 1);
               rejected = copyTransactionAsRejected toReject
           in e\<lparr>internalTxs := list_remove eq toReject (internalTxs e) @ [rejected]\<rparr>)"

definition merge_effects :: "SideEffects \<Rightarrow> SideEffects \<Rightarrow> SideEffects" where
  "merge_effects other e =
     addLogs (logs other)
       (addAllToDeletedAddresses (deleteAccounts other)
         (addInternalTransactions (internalTxs other) e))"


section \<open>What the operations do\<close>

named_theorems effect_simps \<open>the fields of side effects after an operation\<close>

lemma addInternalTransactions_eq [effect_simps]:
  "addInternalTransactions ts e = e\<lparr>internalTxs := internalTxs e @ ts\<rparr>"
  by (induction ts arbitrary: e) (simp_all add: addInternalTransactions_def addInternalTransaction_def)

lemma addLogs_eq [effect_simps]: "addLogs ls e = e\<lparr>logs := logs e @ ls\<rparr>"
  by (induction ls arbitrary: e) (simp_all add: addLogs_def addLog_def)

lemma merge_effects_eq [effect_simps]:
  "merge_effects other e =
    e\<lparr>internalTxs := internalTxs e @ internalTxs other,
      deleteAccounts := deleteAccounts e \<union> deleteAccounts other, logs := logs e @ logs other\<rparr>"
  by (simp add: merge_effects_def effect_simps addAllToDeletedAddresses_def)

lemma tx_rejected_copy [simp]: "tx_rejected (copyTransactionAsRejected t)"
  by (cases t) simp_all

lemma list_remove_last:
  assumes "\<And>y. y \<in> set ys \<Longrightarrow> \<not> eq x y" "eq x x"
  shows "list_remove eq x (ys @ [x]) = ys"
  using assms by (induction ys) auto

text \<open>
  With distinct transactions the last one, and only it, becomes rejected.
\<close>

lemma mark_most_recent:
  assumes "internalTxs e = ts @ [t]" "\<And>u. u \<in> set ts \<Longrightarrow> \<not> eq t u" "eq t t"
  shows "markMostRecentInternalTransactionAsRejected eq e =
    e\<lparr>internalTxs := ts @ [copyTransactionAsRejected t]\<rparr>"
proof -
  have "list_remove eq t (ts @ [t]) = ts" using assms(2,3) by (rule list_remove_last)
  then show ?thesis
    using assms(1) by (simp add: markMostRecentInternalTransactionAsRejected_def nth_append)
qed

text \<open>In any case the number of transactions stays, and the last one is rejected.\<close>

lemma length_list_remove: "(\<exists>y \<in> set xs. eq x y) \<Longrightarrow> length (list_remove eq x xs) = length xs - 1"
  by (induction xs) (auto simp: Suc_diff_Suc split: if_splits, metis Suc_pred length_pos_if_in_set)

lemma mark_most_recent_others:
  "deleteAccounts (markMostRecentInternalTransactionAsRejected eq e) = deleteAccounts e"
  "logs (markMostRecentInternalTransactionAsRejected eq e) = logs e"
  "deleteAccounts (markAllInternalTransactionsAsRejected e) = deleteAccounts e"
  "logs (markAllInternalTransactionsAsRejected e) = logs e"
  by (simp_all add: markMostRecentInternalTransactionAsRejected_def
      markAllInternalTransactionsAsRejected_def Let_def)

lemma list_remove_first:
  "(\<forall>v \<in> set as. \<not> eq x v) \<Longrightarrow> eq x u \<Longrightarrow> list_remove eq x (as @ u # bs) = as @ bs"
  by (induction as) simp_all

text \<open>
  C36: rejecting the most recent internal transaction \<open>t\<close>, the last of the list. Whatever equality the library has for
  internal transactions, the first transaction \<open>u\<close> that is equal to \<open>t\<close> is removed, the others keep their
  order, and a rejected copy of \<open>t\<close> is appended. So when an equal transaction was recorded before, it is the
  earlier one that disappears, and \<open>t\<close> itself stays in the list, not rejected, in front of its copy.
\<close>

theorem mark_most_recent_reorders:
  assumes "internalTxs e = as @ u # bs" "last (internalTxs e) = t"
    and "\<forall>v \<in> set as. \<not> eq t v" "eq t u"
  shows "markMostRecentInternalTransactionAsRejected eq e =
      e\<lparr>internalTxs := as @ bs @ [copyTransactionAsRejected t]\<rparr> \<and>
    (bs \<noteq> [] \<longrightarrow>
      internalTxs (markMostRecentInternalTransactionAsRejected eq e) =
        as @ butlast bs @ [t, copyTransactionAsRejected t])"
proof -
  have "internalTxs e ! (length (internalTxs e) - 1) = t" "internalTxs e \<noteq> []"
    using assms(1,2) by (simp_all add: last_conv_nth)
  then have eq: "markMostRecentInternalTransactionAsRejected eq e =
      e\<lparr>internalTxs := as @ bs @ [copyTransactionAsRejected t]\<rparr>"
    using list_remove_first [of as eq t u bs] assms(1,3,4)
    by (simp add: markMostRecentInternalTransactionAsRejected_def Let_def)
  show ?thesis
  proof (cases bs rule: rev_cases)
    case (snoc cs x)
    then have "x = t" using assms(1,2) by simp
    with snoc eq show ?thesis by simp
  qed (simp add: eq)
qed

theorem mark_most_recent_reorders_witness:
  "\<exists>s t u. s \<noteq> t \<and> t \<noteq> u \<and> internalTxs (markMostRecentInternalTransactionAsRejected (=)
      (newSideEffects\<lparr>internalTxs := [s, t, u, t]\<rparr>)) = [s, u, t, copyTransactionAsRejected t]"
proof -
  let ?s = "contractCallTransaction False [] [] 0 3 [] 0 1"
  let ?t = "contractCallTransaction False [] [] 0 1 [] 0 1"
  let ?u = "contractCallTransaction False [] [] 0 2 [] 0 1"
  have "internalTxs (markMostRecentInternalTransactionAsRejected (=)
      (newSideEffects\<lparr>internalTxs := [?s, ?t, ?u, ?t]\<rparr>)) = [?s, ?u, ?t, copyTransactionAsRejected ?t]"
    using mark_most_recent_reorders [of "newSideEffects\<lparr>internalTxs := [?s, ?t, ?u, ?t]\<rparr>" "[?s]" ?t "[?u, ?t]" ?t "(=)"]
    by simp
  moreover have "?s \<noteq> ?t" "?t \<noteq> ?u" by simp_all
  ultimately show ?thesis by blast
qed

end
