(* ===== verification/Wire.thy ===== *)
theory Wire
  imports JavaEffects JitExt
begin

text \<open>
  The byte formats between the Java side and the native library. Messages, contexts and results cross
  as byte arrays that one side writes and the other reads.

  \<^item> Native: \<open>read_int\<close> to \<open>encode_result\<close> of \<^verbatim>\<open>src/fastvm/jni/org_aion_fastvm_FastVM.cpp\<close>. A pointer into a
    Java array is that array; a read past its end gives the byte \<open>junk\<close>, fresh memory of \<open>malloc\<close>
    contains \<open>junk\<close>, and a write past the end of a buffer is lost. The theorems show that none of this
    shows. The size of an array that is returned to Java is computed in 32 bits and passed to
    \<open>NewByteArray\<close> as a \<open>jsize\<close>: from \<open>2 ^ 31\<close> on it is negative and there is no array, and from \<open>2 ^ 32\<close> on it
    wraps around and the copy overruns the buffer. \<open>None\<close> stands for both.
  \<^item> Java: \<^verbatim>\<open>TransactionKind.java\<close>, \<^verbatim>\<open>FastVmResultCode.java\<close>, \<^verbatim>\<open>FastVmTransactionResult.java\<close>,
    \<^verbatim>\<open>ExecutionContext.java\<close> and \<open>parseMessage\<close> of \<^verbatim>\<open>Callback.java\<close>, under
    \<^verbatim>\<open>src/modFastVM/src/org/aion/fastvm\<close>. \<open>ByteBuffer\<close> is the rest that is still to be read, or the bytes
    written so far with the capacity. A capacity is an \<open>int\<close>, and \<open>allocate\<close> throws if it is negative.
\<close>

section \<open>Numbers on the native side\<close>

definition read_int :: "byte \<Rightarrow> byte list \<Rightarrow> nat \<Rightarrow> 32 word" where
  "read_int junk b off =
     foldl (\<lambda>ret x. push_bit 8 ret + (ucast x AND 0xff)) 0 (read_mem junk b off 4)"

definition read_long :: "byte \<Rightarrow> byte list \<Rightarrow> nat \<Rightarrow> i64" where
  "read_long junk b off =
     foldl (\<lambda>ret x. push_bit 8 ret + (ucast x AND 0xff)) 0 (read_mem junk b off 8)"

definition write_int :: "nat \<Rightarrow> 32 word \<Rightarrow> byte list \<Rightarrow> byte list" where
  "write_int off num b =
     foldl (\<lambda>b i. write_mem (off + (3 - i)) [ucast (drop_bit (i * 8) num AND 0xff)] b) b [0..<4]"

definition write_long :: "nat \<Rightarrow> i64 \<Rightarrow> byte list \<Rightarrow> byte list" where
  "write_long off num b =
     foldl (\<lambda>b i. write_mem (off + (7 - i)) [ucast (drop_bit (i * 8) num AND 0xff)] b) b [0..<8]"


section \<open>Messages, contexts and results on the native side\<close>

definition parse_context ::
  "byte \<Rightarrow> byte list \<Rightarrow> evm_message \<Rightarrow> evm_tx_context \<Rightarrow> evm_message \<times> evm_tx_context" where
  "parse_context junk b msg ctx =
     (let address_len = 32;
          offset = 0;
          msg = msg\<lparr>address := read_mem junk b offset address_len\<rparr>; offset = offset + address_len;
          ctx = ctx\<lparr>tx_origin := read_mem junk b offset address_len\<rparr>; offset = offset + address_len;
          msg = msg\<lparr>caller := read_mem junk b offset address_len\<rparr>; offset = offset + address_len;
          offset = offset + 16;
          msg = msg\<lparr>msg_gas := read_long junk b offset\<rparr>; offset = offset + 8;
          msg = msg\<lparr>msg_value := read_mem junk b offset 16\<rparr>; offset = offset + 16;
          input_size = unat (read_int junk b offset); offset = offset + 4;
          msg = msg\<lparr>msg_input := read_mem junk b offset input_size\<rparr>; offset = offset + input_size;
          msg = msg\<lparr>depth := read_int junk b offset\<rparr>; offset = offset + 4;
          msg = msg\<lparr>kind := read_int junk b offset\<rparr>; offset = offset + 4;
          msg = msg\<lparr>flags := read_int junk b offset\<rparr>; offset = offset + 4;
          ctx = ctx\<lparr>block_coinbase := read_mem junk b offset address_len\<rparr>; offset = offset + address_len;
          ctx = ctx\<lparr>block_number := read_long junk b offset\<rparr>; offset = offset + 8;
          ctx = ctx\<lparr>block_timestamp := read_long junk b offset\<rparr>; offset = offset + 8;
          ctx = ctx\<lparr>block_gas_limit := read_long junk b offset\<rparr>; offset = offset + 8;
          ctx = ctx\<lparr>block_difficulty := read_mem junk b offset 16\<rparr>
      in (msg, ctx))"

definition encode_message :: "byte \<Rightarrow> evm_message \<Rightarrow> byte list option" where
  "encode_message junk msg =
     (let address_len = 32;
          input_size = length (msg_input msg);
          sum = address_len + address_len + 8 + 16 + 4 + input_size + 4 + 4 + 4;
          size = (of_nat sum :: 32 word);
          buf = replicate (unat size) junk;
          offset = 0;
          buf = write_mem offset (read_mem junk (address msg) 0 address_len) buf; offset = offset + address_len;
          buf = write_mem offset (read_mem junk (caller msg) 0 address_len) buf; offset = offset + address_len;
          buf = write_long offset (msg_gas msg) buf; offset = offset + 8;
          buf = write_mem offset (read_mem junk (msg_value msg) 0 16) buf; offset = offset + 16;
          buf = write_int offset (of_nat input_size) buf; offset = offset + 4;
          buf = write_mem offset (msg_input msg) buf; offset = offset + input_size;
          buf = write_int offset (depth msg) buf; offset = offset + 4;
          buf = write_int offset (kind msg) buf; offset = offset + 4;
          buf = write_int offset (flags msg) buf
      in if sum < 2 ^ 31 then Some buf else None)"

definition parse_result :: "byte \<Rightarrow> byte list \<Rightarrow> evm_result" where
  "parse_result junk p =
     (let offset = 0;
          code = read_int junk p offset; offset = offset + 4;
          gas_left = read_long junk p offset; offset = offset + 8;
          output_size = read_int junk p offset; offset = offset + 4;
          buf = read_mem junk p offset (unat output_size)
      in \<lparr>status_code = code, gas_left = gas_left, output_data = buf\<rparr>)"

definition encode_result :: "byte \<Rightarrow> evm_result \<Rightarrow> byte list option" where
  "encode_result junk result =
     (let output_size = length (output_data result);
          sum = 4 + 8 + 4 + output_size;
          size = (of_nat sum :: 32 word);
          buf = replicate (unat size) junk;
          offset = 0;
          buf = write_int offset (status_code result) buf; offset = offset + 4;
          buf = write_long offset (gas_left result) buf; offset = offset + 8;
          buf = write_int offset (of_nat output_size) buf; offset = offset + 4;
          buf = write_mem offset (output_data result) buf
      in if sum < 2 ^ 31 then Some buf else None)"


section \<open>The Java side\<close>

definition buf_get :: "nat \<Rightarrow> byte list \<Rightarrow> (byte list \<times> byte list) java" where
  "buf_get n b = (if n \<le> length b then Inr (take n b, drop n b) else Inl BufferUnderflow)"

definition buf_getInt :: "byte list \<Rightarrow> (32 word \<times> byte list) java" where
  "buf_getInt b = bind_java (buf_get 4 b) (\<lambda>(x, b). Inr (be_word x, b))"

definition buf_getLong :: "byte list \<Rightarrow> (i64 \<times> byte list) java" where
  "buf_getLong b = bind_java (buf_get 8 b) (\<lambda>(x, b). Inr (be_word x, b))"

text \<open>\<open>new byte[n]\<close>, to be filled from the buffer.\<close>

definition buf_getArray :: "32 word \<Rightarrow> byte list \<Rightarrow> (byte list \<times> byte list) java" where
  "buf_getArray n b = (if sint n < 0 then Inl NegativeArraySize else buf_get (unat n) b)"

definition buf_allocate :: "32 word \<Rightarrow> (byte list \<times> nat) java" where
  "buf_allocate capacity = (if sint capacity < 0 then Inl IllegalArgument else Inr ([], unat capacity))"

definition buf_put :: "byte list \<Rightarrow> byte list \<times> nat \<Rightarrow> (byte list \<times> nat) java" where
  "buf_put bs = (\<lambda>(b, cap). if length b + length bs \<le> cap then Inr (b @ bs, cap) else Inl BufferOverflow)"

definition buf_array :: "byte list \<times> nat \<Rightarrow> byte list" where
  "buf_array = (\<lambda>(b, cap). b @ replicate (cap - length b) 0)"

primrec buf_puts :: "byte list list \<Rightarrow> byte list \<times> nat \<Rightarrow> (byte list \<times> nat) java" where
  "buf_puts [] b = Inr b"
| "buf_puts (bs # bss) b = bind_java (buf_put bs b) (buf_puts bss)"

subsection \<open>Kinds and result codes\<close>

datatype TransactionKind = K_CALL | K_DELEGATE_CALL | K_CALLCODE | K_CREATE

primrec kind_intValue :: "TransactionKind \<Rightarrow> 32 word" where
  "kind_intValue K_CALL = 0"
| "kind_intValue K_DELEGATE_CALL = 1"
| "kind_intValue K_CALLCODE = 2"
| "kind_intValue K_CREATE = 3"

definition kind_fromInt :: "32 word \<Rightarrow> TransactionKind java" where
  "kind_fromInt i =
     (if i = 0 then Inr K_CALL else if i = 1 then Inr K_DELEGATE_CALL
      else if i = 2 then Inr K_CALLCODE else if i = 3 then Inr K_CREATE else Inl IllegalArgument)"

datatype FastVmResultCode =
    RC_SUCCESS | INVALID_NONCE | INVALID_NRG_LIMIT | INSUFFICIENT_BALANCE | RC_FAILURE | OUT_OF_NRG
  | BAD_INSTRUCTION | BAD_JUMP_DESTINATION | STACK_OVERFLOW | STACK_UNDERFLOW | RC_REVERT
  | STATIC_MODE_ERROR | INCOMPATIBLE_CONTRACT_CALL | ABORT | REJECT_DEPLOY | VM_REJECTED | VM_INTERNAL_ERROR

datatype ResultCategory = CAT_SUCCESS | CAT_REJECTED | CAT_FAILED | CAT_FATAL | CAT_REVERT

primrec code_toInt :: "FastVmResultCode \<Rightarrow> 32 word" where
  "code_toInt RC_SUCCESS = 0"
| "code_toInt INVALID_NONCE = 101"
| "code_toInt INVALID_NRG_LIMIT = 102"
| "code_toInt INSUFFICIENT_BALANCE = 103"
| "code_toInt RC_FAILURE = 1"
| "code_toInt OUT_OF_NRG = 2"
| "code_toInt BAD_INSTRUCTION = 3"
| "code_toInt BAD_JUMP_DESTINATION = 4"
| "code_toInt STACK_OVERFLOW = 5"
| "code_toInt STACK_UNDERFLOW = 6"
| "code_toInt RC_REVERT = 7"
| "code_toInt STATIC_MODE_ERROR = 8"
| "code_toInt INCOMPATIBLE_CONTRACT_CALL = 9"
| "code_toInt ABORT = 11"
| "code_toInt REJECT_DEPLOY = 104"
| "code_toInt VM_REJECTED = - 1"
| "code_toInt VM_INTERNAL_ERROR = - 2"

primrec category :: "FastVmResultCode \<Rightarrow> ResultCategory" where
  "category RC_SUCCESS = CAT_SUCCESS"
| "category INVALID_NONCE = CAT_REJECTED"
| "category INVALID_NRG_LIMIT = CAT_REJECTED"
| "category INSUFFICIENT_BALANCE = CAT_REJECTED"
| "category RC_FAILURE = CAT_FAILED"
| "category OUT_OF_NRG = CAT_FAILED"
| "category BAD_INSTRUCTION = CAT_FAILED"
| "category BAD_JUMP_DESTINATION = CAT_FAILED"
| "category STACK_OVERFLOW = CAT_FAILED"
| "category STACK_UNDERFLOW = CAT_FAILED"
| "category RC_REVERT = CAT_REVERT"
| "category STATIC_MODE_ERROR = CAT_FAILED"
| "category INCOMPATIBLE_CONTRACT_CALL = CAT_FAILED"
| "category ABORT = CAT_FAILED"
| "category REJECT_DEPLOY = CAT_REJECTED"
| "category VM_REJECTED = CAT_FATAL"
| "category VM_INTERNAL_ERROR = CAT_FATAL"

text \<open>The enumeration in its order, and the map from numbers that its initializer builds.\<close>

definition code_values :: "FastVmResultCode list" where
  "code_values =
     [RC_SUCCESS, INVALID_NONCE, INVALID_NRG_LIMIT, INSUFFICIENT_BALANCE, RC_FAILURE, OUT_OF_NRG,
      BAD_INSTRUCTION, BAD_JUMP_DESTINATION, STACK_OVERFLOW, STACK_UNDERFLOW, RC_REVERT,
      STATIC_MODE_ERROR, INCOMPATIBLE_CONTRACT_CALL, ABORT, REJECT_DEPLOY, VM_REJECTED, VM_INTERNAL_ERROR]"

definition integerMapping :: "32 word \<Rightarrow> FastVmResultCode option" where
  "integerMapping = foldl (\<lambda>m c. m(code_toInt c \<mapsto> c)) Map.empty code_values"

definition code_fromInt :: "32 word \<Rightarrow> FastVmResultCode java" where
  "code_fromInt code =
     (case integerMapping code of None \<Rightarrow> Inl IllegalArgument | Some c \<Rightarrow> Inr c)"

definition isSuccess :: "FastVmResultCode \<Rightarrow> bool" where
  "isSuccess c \<longleftrightarrow> category c = CAT_SUCCESS"

definition isRejected :: "FastVmResultCode \<Rightarrow> bool" where
  "isRejected c \<longleftrightarrow> category c = CAT_REJECTED"

definition isFailed :: "FastVmResultCode \<Rightarrow> bool" where
  "isFailed c \<longleftrightarrow> category c = CAT_FAILED \<or> category c = CAT_REVERT"

definition isFatal :: "FastVmResultCode \<Rightarrow> bool" where
  "isFatal c \<longleftrightarrow> category c = CAT_FATAL"

definition isRevert :: "FastVmResultCode \<Rightarrow> bool" where
  "isRevert c \<longleftrightarrow> category c = CAT_REVERT"

subsection \<open>Results\<close>

record FastVmTransactionResult =
  res_code :: FastVmResultCode
  res_output :: "byte list"
  energyRemaining :: i64

definition checkNegativeEnergy :: "i64 \<Rightarrow> i64" where
  "checkNegativeEnergy e = (if 0 <=s e then e else 0)"

definition newResult :: "FastVmResultCode \<Rightarrow> i64 \<Rightarrow> byte list \<Rightarrow> FastVmTransactionResult" where
  "newResult c e out = \<lparr>res_code = c, res_output = out, energyRemaining = checkNegativeEnergy e\<rparr>"

definition result_toBytes :: "FastVmTransactionResult \<Rightarrow> byte list java" where
  "result_toBytes r =
     bind_java (buf_allocate (4 + 8 + 4 + of_nat (length (res_output r)))) (\<lambda>buffer.
     bind_java (buf_puts [be_bytes 4 (code_toInt (res_code r)), be_bytes 8 (energyRemaining r),
         be_bytes 4 (of_nat (length (res_output r)) :: 32 word), res_output r] buffer) (\<lambda>b.
     Inr (buf_array b)))"

definition result_fromBytes :: "byte list \<Rightarrow> FastVmTransactionResult java" where
  "result_fromBytes b =
     bind_java (buf_getInt b) (\<lambda>(c, b).
     bind_java (code_fromInt c) (\<lambda>code.
     bind_java (buf_getLong b) (\<lambda>(energy, b).
     bind_java (buf_getInt b) (\<lambda>(n, b).
     bind_java (buf_getArray n b) (\<lambda>(out, b).
       Inr (newResult code energy out))))))"

subsection \<open>Contexts\<close>

record ExecutionContext =
  ec_sideEffects :: SideEffects
  ec_origin :: AionAddress
  ec_originalTxHash :: "byte list"
  ec_address :: AionAddress
  ec_sender :: AionAddress
  ec_blockCoinbase :: AionAddress
  ec_nrgPrice :: "byte list"
  ec_callValue :: "byte list"
  ec_blockDifficulty :: "byte list"
  ec_callData :: "byte list"
  ec_txHash :: "byte list"
  ec_nrg :: i64
  ec_blockNumber :: i64
  ec_blockTimestamp :: i64
  ec_blockNrgLimit :: i64
  ec_depth :: "32 word"
  ec_kind :: TransactionKind
  ec_flags :: "32 word"
  ec_contractAddress :: "AionAddress option"
  ec_isCreate :: bool

definition ENCODE_BASE_LEN :: "32 word" where
  "ENCODE_BASE_LEN = 32 * 4 + of_nat SIZE * 3 + 8 * 4 + 4 * 4"

definition getEncodingLength :: "ExecutionContext \<Rightarrow> 32 word" where
  "getEncodingLength c = ENCODE_BASE_LEN + of_nat (length (ec_callData c))"

text \<open>\<open>toBytes\<close> first forgets the call data of a creation; the new context is part of the result.\<close>

definition context_toBytes :: "ExecutionContext \<Rightarrow> (byte list \<times> ExecutionContext) java" where
  "context_toBytes c =
     (let c = if ec_isCreate c then c\<lparr>ec_callData := []\<rparr> else c in
      bind_java (buf_allocate (getEncodingLength c)) (\<lambda>buffer.
      bind_java (buf_puts [ec_address c, ec_origin c, ec_sender c, ec_nrgPrice c, be_bytes 8 (ec_nrg c),
          ec_callValue c, be_bytes 4 (of_nat (length (ec_callData c)) :: 32 word), ec_callData c,
          be_bytes 4 (ec_depth c), be_bytes 4 (kind_intValue (ec_kind c)), be_bytes 4 (ec_flags c),
          ec_blockCoinbase c, be_bytes 8 (ec_blockNumber c), be_bytes 8 (ec_blockTimestamp c),
          be_bytes 8 (ec_blockNrgLimit c), ec_blockDifficulty c] buffer) (\<lambda>b.
      Inr (buf_array b, c))))"

definition context_from ::
  "byte list \<Rightarrow> AionAddress \<Rightarrow> AionAddress \<Rightarrow> AionAddress \<Rightarrow> i64 \<Rightarrow> i64 \<Rightarrow> int \<Rightarrow> byte list \<Rightarrow> 32 word \<Rightarrow>
   TransactionKind \<Rightarrow> 32 word \<Rightarrow> AionAddress \<Rightarrow> i64 \<Rightarrow> i64 \<Rightarrow> i64 \<Rightarrow> byte list \<Rightarrow> ExecutionContext java" where
  "context_from transactionHash destination origin sender energyPrice energy val dat dep knd flgs
     miner blockNumber blockTimestamp blockEnergyLimit blockDifficulty =
     bind_java (fromLong energyPrice) (\<lambda>price.
     bind_java (fromBigInteger val) (\<lambda>v.
       Inr \<lparr>ec_sideEffects = newSideEffects, ec_origin = origin, ec_originalTxHash = transactionHash,
         ec_address = destination, ec_sender = sender, ec_blockCoinbase = miner, ec_nrgPrice = price,
         ec_callValue = v, ec_blockDifficulty = blockDifficulty, ec_callData = dat,
         ec_txHash = transactionHash, ec_nrg = energy, ec_blockNumber = blockNumber,
         ec_blockTimestamp = blockTimestamp, ec_blockNrgLimit = blockEnergyLimit, ec_depth = dep,
         ec_kind = knd, ec_flags = flgs, ec_contractAddress = None, ec_isCreate = (knd = K_CREATE)\<rparr>))"

definition parseMessage :: "ExecutionContext \<Rightarrow> byte list \<Rightarrow> ExecutionContext java" where
  "parseMessage prev message =
     bind_java (buf_get 32 message) (\<lambda>(destination, b).
     bind_java (buf_get 32 b) (\<lambda>(sender, b).
     bind_java (buf_getLong b) (\<lambda>(nrgLimit, b).
     bind_java (buf_get 16 b) (\<lambda>(buf, b).
     let callValue = positive buf in
     bind_java (buf_getInt b) (\<lambda>(n, b).
     bind_java (buf_getArray n b) (\<lambda>(callData, b).
     bind_java (buf_getInt b) (\<lambda>(dep, b).
     bind_java (buf_getInt b) (\<lambda>(k, b).
     bind_java (kind_fromInt k) (\<lambda>knd.
     bind_java (buf_getInt b) (\<lambda>(flgs, b).
       context_from (ec_txHash prev) destination (ec_origin prev) sender (toLong (ec_nrgPrice prev))
         nrgLimit callValue callData dep knd flgs (ec_blockCoinbase prev) (ec_blockNumber prev)
         (ec_blockTimestamp prev) (ec_blockNrgLimit prev) (ec_blockDifficulty prev)))))))))))"


section \<open>The native formats as concatenations\<close>

lemma and_255: "w AND 255 = take_bit 8 (w :: 'a::len word)"
  by (simp add: take_bit_eq_mask mask_eq_decr_exp)

lemma mask_byte: "(ucast (x :: byte) AND 255 :: 'a::len word) = ucast x"
  unfolding and_255 by (rule bit_word_eqI) (auto simp: bit_simps dest: bit_imp_le_length)

lemma low_byte: "ucast (w AND 255) = (ucast (w :: 'a::len word) :: byte)"
  unfolding and_255 by (rule bit_word_eqI) (auto simp: bit_simps dest: bit_imp_le_length)

lemma read_int_eq: "read_int junk b off = be_word (read_mem junk b off 4)"
  by (simp add: read_int_def be_word_def mask_byte)

lemma read_long_eq: "read_long junk b off = be_word (read_mem junk b off 8)"
  by (simp add: read_long_def be_word_def mask_byte)

lemma write_mem_singles:
  "write_mem i [x] (write_mem (Suc i) xs b) = write_mem i (x # xs) b"
  by (rule nth_equalityI) (auto simp: nth_write_mem nth_Cons')

lemma write_backwards:
  "m \<le> k \<Longrightarrow> foldl (\<lambda>b i. write_mem (off + (k - Suc i)) [f i] b) b [0..<m] =
     write_mem (off + (k - m)) (rev (map f [0..<m])) b"
proof (induction m)
  case (Suc m)
  then have "off + (k - m) = Suc (off + (k - Suc m))" by simp
  with Suc show ?case by (simp add: write_mem_singles)
qed simp

lemma be_bytes_rev: "be_bytes k w = rev (map (\<lambda>i. ucast (drop_bit (i * 8) w)) [0..<k])"
proof (induction k arbitrary: w)
  case (Suc k)
  then show ?case by (simp add: map_upt_Suc comp_def drop_bit_drop_bit add.commute del: upt_Suc)
qed simp

lemma write_int_eq: "write_int off num b = write_mem off (be_bytes 4 num) b"
  using write_backwards [of 4 4 off "\<lambda>i. ucast (drop_bit (i * 8) num)" b]
  by (simp only: write_int_def low_byte be_bytes_rev) (simp add: numeral_eq_Suc)

lemma write_long_eq: "write_long off num b = write_mem off (be_bytes 8 num) b"
  using write_backwards [of 8 8 off "\<lambda>i. ucast (drop_bit (i * 8) num)" b]
  by (simp only: write_long_def low_byte be_bytes_rev) (simp add: numeral_eq_Suc)

text \<open>Parts that are written one behind the other, and parts that are read so.\<close>

fun put_parts :: "nat \<Rightarrow> byte list list \<Rightarrow> byte list \<Rightarrow> byte list" where
  "put_parts off [] buf = buf"
| "put_parts off (p # ps) buf = put_parts (off + length p) ps (write_mem off p buf)"

lemma put_parts_eq:
  "length (concat ps) \<le> length rest \<Longrightarrow>
   put_parts (length pre) ps (pre @ rest) = pre @ concat ps @ drop (length (concat ps)) rest"
proof (induction ps arbitrary: pre rest)
  case (Cons p ps)
  have "write_mem (length pre) p (pre @ rest) = (pre @ p) @ drop (length p) rest"
    using Cons.prems by (simp add: write_mem_slice)
  moreover have "put_parts (length (pre @ p)) ps ((pre @ p) @ drop (length p) rest) =
      (pre @ p) @ concat ps @ drop (length (concat ps)) (drop (length p) rest)"
    using Cons.prems by (intro Cons.IH) simp
  ultimately show ?case by (simp add: add.commute)
qed simp

lemma put_parts_full:
  assumes "length (concat ps) = n"
  shows "put_parts 0 ps (replicate n junk) = concat ps"
  using put_parts_eq [of ps "replicate n junk" "[]"] assms by simp

lemma encode_message_parts:
  assumes "length (msg_input m) + 104 < 2 ^ 31"
  shows "encode_message junk m = Some (
    read_mem junk (address m) 0 32 @ read_mem junk (caller m) 0 32 @ be_bytes 8 (msg_gas m) @
    read_mem junk (msg_value m) 0 16 @ be_bytes 4 (of_nat (length (msg_input m)) :: 32 word) @ msg_input m @
    be_bytes 4 (depth m) @ be_bytes 4 (kind m) @ be_bytes 4 (flags m))"
proof -
  let ?ps = "[read_mem junk (address m) 0 32, read_mem junk (caller m) 0 32, be_bytes 8 (msg_gas m),
    read_mem junk (msg_value m) 0 16, be_bytes 4 (of_nat (length (msg_input m)) :: 32 word), msg_input m,
    be_bytes 4 (depth m), be_bytes 4 (kind m), be_bytes 4 (flags m)]"
  let ?n = "104 + length (msg_input m)"
  have "unat (of_nat (32 + 32 + 8 + 16 + 4 + length (msg_input m) + 4 + 4 + 4) :: 32 word) = ?n"
    using assms by (subst unat_of_nat) simp
  then have "encode_message junk m = Some (put_parts 0 ?ps (replicate ?n junk))"
    using assms by (simp add: encode_message_def Let_def write_int_eq write_long_eq add.commute del: of_nat_add)
  also have "put_parts 0 ?ps (replicate ?n junk) = concat ?ps" by (intro put_parts_full) simp
  finally show ?thesis by simp
qed

lemma encode_message_None: "encode_message junk m = None \<longleftrightarrow> 2 ^ 31 \<le> length (msg_input m) + 104"
  by (simp add: encode_message_def Let_def not_less add.commute)

text \<open>The arrays in a message have a fixed size; here that is a condition on their lengths.\<close>

definition message_ok :: "evm_message \<Rightarrow> bool" where
  "message_ok m \<longleftrightarrow> length (address m) = 32 \<and> length (caller m) = 32 \<and> length (msg_value m) = 16 \<and>
     length (msg_input m) + 104 < 2 ^ 31"

lemma encode_result_eq:
  assumes "length (output_data r) + 16 < 2 ^ 31"
  shows "encode_result junk r = Some (
    be_bytes 4 (status_code r) @ be_bytes 8 (gas_left r) @
    be_bytes 4 (of_nat (length (output_data r)) :: 32 word) @ output_data r)"
proof -
  let ?ps = "[be_bytes 4 (status_code r), be_bytes 8 (gas_left r),
    be_bytes 4 (of_nat (length (output_data r)) :: 32 word), output_data r]"
  let ?n = "16 + length (output_data r)"
  have "unat (of_nat (4 + 8 + 4 + length (output_data r)) :: 32 word) = ?n"
    using assms by (subst unat_of_nat) simp
  then have "encode_result junk r = Some (put_parts 0 ?ps (replicate ?n junk))"
    using assms by (simp add: encode_result_def Let_def write_int_eq write_long_eq add.commute del: of_nat_add)
  also have "put_parts 0 ?ps (replicate ?n junk) = concat ?ps" by (intro put_parts_full) simp
  finally show ?thesis by simp
qed

lemma encode_result_None: "encode_result junk r = None \<longleftrightarrow> 2 ^ 31 \<le> length (output_data r) + 16"
  by (simp add: encode_result_def Let_def not_less add.commute)


section \<open>Crossing the border\<close>

lemma read_mem_skip:
  "length xs \<le> off \<Longrightarrow> read_mem junk (xs @ ys) off n = read_mem junk ys (off - length xs) n"
  by (auto simp: read_mem_def nth_append)

lemma read_mem_here: "length xs = n \<Longrightarrow> read_mem junk (xs @ ys) 0 n = xs"
  by (simp add: read_mem_slice)

lemma read_mem_all: "length xs = n \<Longrightarrow> read_mem junk xs 0 n = xs"
  by (simp add: read_mem_slice)

lemma buf_puts_eq:
  "length b + length (concat bss) \<le> cap \<Longrightarrow> buf_puts bss (b, cap) = Inr (b @ concat bss, cap)"
  by (induction bss arbitrary: b) (simp_all add: buf_put_def)

lemma buf_get_append [simp]: "length xs = n \<Longrightarrow> buf_get n (xs @ ys) = Inr (xs, ys)"
  by (simp add: buf_get_def)

lemma buf_getInt_append [simp]: "buf_getInt (be_bytes 4 w @ ys) = Inr (w, ys)"
  by (simp add: buf_getInt_def codec_simps)

lemma buf_getLong_append [simp]: "buf_getLong (be_bytes 8 w @ ys) = Inr (w, ys)"
  by (simp add: buf_getLong_def codec_simps)

lemma length_word:
  assumes "n < 2 ^ 31"
  shows "unat (of_nat n :: 32 word) = n" "0 \<le> sint (of_nat n :: 32 word)"
proof -
  have "int n < 2 ^ 31" using of_nat_less_iff [of n "2 ^ 31", where ?'a = int] assms by simp
  then have "sint (word_of_int (int n) :: 32 word) = int n"
    by (subst sint_sbintrunc') (simp add: signed_take_bit_int_eq_self)
  then show "0 \<le> sint (of_nat n :: 32 word)" by simp
  show "unat (of_nat n :: 32 word) = n" using assms by (simp add: unat_of_nat)
qed

lemma buf_getArray_append:
  "length xs < 2 ^ 31 \<Longrightarrow> buf_getArray (of_nat (length xs)) (xs @ ys) = Inr (xs, ys)"
  using length_word [of "length xs"] by (simp add: buf_getArray_def)

definition context_ok :: "ExecutionContext \<Rightarrow> bool" where
  "context_ok c \<longleftrightarrow> length (ec_address c) = 32 \<and> length (ec_origin c) = 32 \<and> length (ec_sender c) = 32 \<and>
     length (ec_blockCoinbase c) = 32 \<and> length (ec_nrgPrice c) = 16 \<and> length (ec_callValue c) = 16 \<and>
     length (ec_blockDifficulty c) = 16 \<and> length (ec_callData c) < 2 ^ 31"

definition native_input :: "ExecutionContext \<Rightarrow> byte list" where
  "native_input c = (if ec_isCreate c then [] else ec_callData c)"

text \<open>The encoding of a context has 224 bytes besides the input, and its length is an \<open>int\<close> that must not overflow.\<close>

definition context_fits :: "ExecutionContext \<Rightarrow> bool" where
  "context_fits c \<longleftrightarrow> length (native_input c) + 224 < 2 ^ 31"

lemma buf_allocate_eq: "n < 2 ^ 31 \<Longrightarrow> buf_allocate (of_nat n) = Inr ([], n)"
  using length_word [of n] by (simp add: buf_allocate_def)

lemma buf_allocate_overflow: "2 ^ 31 \<le> n \<Longrightarrow> n < 2 ^ 32 \<Longrightarrow> buf_allocate (of_nat n) = Inl IllegalArgument"
proof -
  assume "2 ^ 31 \<le> n" "n < 2 ^ 32"
  then have "int n div 2 ^ 31 = 1" by simp
  with \<open>n < 2 ^ 32\<close> show ?thesis
    by (simp add: buf_allocate_def sint_uint signed_take_bit_eq_if_negative unsigned_of_nat take_bit_nat_eq_self bit_iff_odd)
qed

lemma encoding_length: "getEncodingLength (c\<lparr>ec_callData := d\<rparr>) = of_nat (224 + length d)"
  by (simp add: getEncodingLength_def ENCODE_BASE_LEN_def SIZE_def)

text \<open>What the native side is to know of a context.\<close>

definition native_message :: "ExecutionContext \<Rightarrow> byte list \<Rightarrow> evm_message" where
  "native_message c h =
     \<lparr>address = ec_address c, caller = ec_sender c, msg_value = ec_callValue c, msg_input = native_input c,
      code_hash = h, msg_gas = ec_nrg c, depth = ec_depth c, kind = kind_intValue (ec_kind c),
      flags = ec_flags c\<rparr>"

definition native_tx :: "ExecutionContext \<Rightarrow> byte list \<Rightarrow> evm_tx_context" where
  "native_tx c price =
     \<lparr>tx_gas_price = price, tx_origin = ec_origin c, block_coinbase = ec_blockCoinbase c,
      block_number = ec_blockNumber c, block_timestamp = ec_blockTimestamp c,
      block_gas_limit = ec_blockNrgLimit c, block_difficulty = ec_blockDifficulty c\<rparr>"

lemma context_toBytes_eq:
  assumes "context_ok c" "context_fits c"
  shows "context_toBytes c =
    Inr (ec_address c @ ec_origin c @ ec_sender c @ ec_nrgPrice c @ be_bytes 8 (ec_nrg c) @ ec_callValue c @
      be_bytes 4 (of_nat (length (native_input c)) :: 32 word) @ native_input c @
      be_bytes 4 (ec_depth c) @ be_bytes 4 (kind_intValue (ec_kind c)) @ be_bytes 4 (ec_flags c) @
      ec_blockCoinbase c @ be_bytes 8 (ec_blockNumber c) @ be_bytes 8 (ec_blockTimestamp c) @
      be_bytes 8 (ec_blockNrgLimit c) @ ec_blockDifficulty c, c\<lparr>ec_callData := native_input c\<rparr>)"
proof -
  have eq: "(if ec_isCreate c then c\<lparr>ec_callData := []\<rparr> else c) = c\<lparr>ec_callData := native_input c\<rparr>"
    by (simp add: native_input_def)
  have "buf_allocate (of_nat (224 + length (native_input c))) = Inr ([], 224 + length (native_input c))"
    using assms(2) by (intro buf_allocate_eq) (simp add: context_fits_def)
  with assms(1) show ?thesis
    by (simp add: context_toBytes_def Let_def eq encoding_length context_ok_def buf_puts_eq buf_array_def
        del: buf_puts.simps of_nat_add)
qed

text \<open>Otherwise \<open>allocate\<close> throws.\<close>

lemma context_toBytes_overflow:
  assumes "context_ok c" "\<not> context_fits c"
  shows "context_toBytes c = Inl IllegalArgument"
proof -
  have eq: "(if ec_isCreate c then c\<lparr>ec_callData := []\<rparr> else c) = c\<lparr>ec_callData := native_input c\<rparr>"
    by (simp add: native_input_def)
  have "length (native_input c) < 2 ^ 31" using assms(1) by (simp add: context_ok_def native_input_def)
  then have "buf_allocate (of_nat (224 + length (native_input c))) = Inl IllegalArgument"
    using assms(2) by (intro buf_allocate_overflow) (simp_all add: context_fits_def)
  then show ?thesis by (simp add: context_toBytes_def Let_def eq encoding_length del: of_nat_add)
qed

lemma parse_context_native:
  assumes "context_ok c" "context_fits c" "context_toBytes c = Inr (b, c')"
  shows "parse_context junk b msg ctx = (native_message c (code_hash msg), native_tx c (tx_gas_price ctx))"
proof -
  have "length (native_input c) < 2 ^ 31" using assms(1) by (simp add: context_ok_def native_input_def)
  note len = length_word [OF this]
  have l: "length (ec_address c) = 32" "length (ec_origin c) = 32" "length (ec_sender c) = 32"
    "length (ec_blockCoinbase c) = 32" "length (ec_nrgPrice c) = 16" "length (ec_callValue c) = 16"
    "length (ec_blockDifficulty c) = 16" using assms(1) by (simp_all add: context_ok_def)
  have b: "b = ec_address c @ ec_origin c @ ec_sender c @ ec_nrgPrice c @ be_bytes 8 (ec_nrg c) @
      ec_callValue c @ be_bytes 4 (of_nat (length (native_input c)) :: 32 word) @ native_input c @
      be_bytes 4 (ec_depth c) @ be_bytes 4 (kind_intValue (ec_kind c)) @ be_bytes 4 (ec_flags c) @
      ec_blockCoinbase c @ be_bytes 8 (ec_blockNumber c) @ be_bytes 8 (ec_blockTimestamp c) @
      be_bytes 8 (ec_blockNrgLimit c) @ ec_blockDifficulty c"
    using assms(3) by (simp add: context_toBytes_eq [OF assms(1,2)])
  note rd = read_int_eq read_long_eq read_mem_skip read_mem_here read_mem_all codec_simps
  let ?n = "length (native_input c)"
  have head: "read_mem junk b 0 32 = ec_address c" "read_mem junk b 32 32 = ec_origin c"
    "read_mem junk b 64 32 = ec_sender c" "read_long junk b 112 = ec_nrg c"
    "read_mem junk b 120 16 = ec_callValue c" "read_int junk b 136 = of_nat ?n"
    "read_mem junk b 140 ?n = native_input c"
    unfolding b by (simp_all add: rd l)
  have tail: "read_int junk b (140 + ?n) = ec_depth c" "read_int junk b (144 + ?n) = kind_intValue (ec_kind c)"
    "read_int junk b (148 + ?n) = ec_flags c" "read_mem junk b (152 + ?n) 32 = ec_blockCoinbase c"
    "read_long junk b (184 + ?n) = ec_blockNumber c" "read_long junk b (192 + ?n) = ec_blockTimestamp c"
    "read_long junk b (200 + ?n) = ec_blockNrgLimit c" "read_mem junk b (208 + ?n) 16 = ec_blockDifficulty c"
    unfolding b by (simp_all add: rd l)
  show ?thesis
    by (cases msg; cases ctx)
      (simp add: parse_context_def Let_def head tail len native_message_def native_tx_def)
qed

lemma kind_roundtrip: "kind_fromInt (kind_intValue k) = Inr k"
  by (cases k) (simp_all add: kind_fromInt_def)

lemma integerMapping_values: "integerMapping (code_toInt c) = Some c"
  by (cases c) (simp_all add: integerMapping_def code_values_def)

lemma code_roundtrip: "code_fromInt (code_toInt c) = Inr c"
  by (simp add: code_fromInt_def integerMapping_values)

text \<open>Every status that the virtual machine can return is a result code.\<close>

lemma status_known: "\<exists>c. code_fromInt (status_num st) = Inr c \<and> code_toInt c = status_num st"
proof -
  have "\<exists>c. code_toInt c = status_num st"
    by (cases st) (auto intro: exI [of _ RC_SUCCESS] exI [of _ RC_FAILURE] exI [of _ OUT_OF_NRG]
        exI [of _ BAD_INSTRUCTION] exI [of _ BAD_JUMP_DESTINATION] exI [of _ STACK_OVERFLOW]
        exI [of _ STACK_UNDERFLOW] exI [of _ RC_REVERT] exI [of _ STATIC_MODE_ERROR] exI [of _ VM_REJECTED]
        exI [of _ VM_INTERNAL_ERROR])
  then show ?thesis by (metis code_roundtrip)
qed

text \<open>What the callback makes of a message: the block and the origin come from the calling context.\<close>

definition callee_context :: "ExecutionContext \<Rightarrow> evm_message \<Rightarrow> TransactionKind \<Rightarrow> ExecutionContext" where
  "callee_context prev m knd =
     \<lparr>ec_sideEffects = newSideEffects, ec_origin = ec_origin prev, ec_originalTxHash = ec_txHash prev,
      ec_address = address m, ec_sender = caller m, ec_blockCoinbase = ec_blockCoinbase prev,
      ec_nrgPrice = replicate 8 0 @ be_bytes 8 (toLong (ec_nrgPrice prev)), ec_callValue = msg_value m,
      ec_blockDifficulty = ec_blockDifficulty prev, ec_callData = msg_input m,
      ec_txHash = ec_txHash prev, ec_nrg = msg_gas m, ec_blockNumber = ec_blockNumber prev,
      ec_blockTimestamp = ec_blockTimestamp prev, ec_blockNrgLimit = ec_blockNrgLimit prev,
      ec_depth = depth m, ec_kind = knd, ec_flags = flags m, ec_contractAddress = None,
      ec_isCreate = (knd = K_CREATE)\<rparr>"

lemma parseMessage_parts:
  assumes "length (msg_input m) + 104 < 2 ^ 31" "kind m = kind_intValue knd" "encode_message junk m = Some b"
  shows "parseMessage prev b =
    Inr (callee_context prev (m\<lparr>address := read_mem junk (address m) 0 32,
      caller := read_mem junk (caller m) 0 32, msg_value := read_mem junk (msg_value m) 0 16\<rparr>) knd)"
proof -
  have "buf_getInt (be_bytes 4 (flags m)) = Inr (flags m, [])"
    using buf_getInt_append [of "flags m" "[]"] by simp
  moreover have len: "length (msg_input m) < 2 ^ 31" using assms(1) by simp
  ultimately show ?thesis
    using assms(3) unfolding encode_message_parts [OF assms(1)]
    by (auto simp: parseMessage_def buf_getArray_append [OF len] kind_roundtrip assms(2) context_from_def
        fromLong_eq fromBigInteger_positive callee_context_def)
qed

lemma parseMessage_native:
  assumes "message_ok m" "kind m = kind_intValue knd"
  shows "\<exists>b. encode_message junk m = Some b \<and> parseMessage prev b = Inr (callee_context prev m knd)"
  using assms parseMessage_parts [of m knd junk _ prev] encode_message_None [of junk m]
  by (cases "encode_message junk m") (simp_all add: message_ok_def read_mem_all)

lemma result_allocate: "n + 16 < 2 ^ 31 \<Longrightarrow> buf_allocate (16 + of_nat n) = Inr ([], 16 + n)"
  using buf_allocate_eq [of "16 + n"] by (simp add: add.commute)

lemma parse_result_native:
  assumes "length (res_output r) + 16 < 2 ^ 31" "result_toBytes r = Inr b"
  shows "parse_result junk b =
    \<lparr>status_code = code_toInt (res_code r), gas_left = energyRemaining r, output_data = res_output r\<rparr>"
proof -
  have "b = be_bytes 4 (code_toInt (res_code r)) @ be_bytes 8 (energyRemaining r) @
      be_bytes 4 (of_nat (length (res_output r)) :: 32 word) @ res_output r"
    using assms(2) result_allocate [OF assms(1)] by (simp add: result_toBytes_def buf_puts_eq buf_array_def del: buf_puts.simps)
  moreover have "length (res_output r) < 2 ^ 31" using assms(1) by simp
  ultimately show ?thesis
    by (simp add: parse_result_def Let_def read_int_eq read_long_eq read_mem_skip read_mem_here read_mem_all
        codec_simps length_word)
qed

lemma result_toBytes_total: "length (res_output r) + 16 < 2 ^ 31 \<Longrightarrow> \<exists>b. result_toBytes r = Inr b"
  by (simp add: result_toBytes_def result_allocate buf_puts_eq del: buf_puts.simps)

lemma result_fromBytes_native:
  assumes "length (output_data r) + 16 < 2 ^ 31" "code_fromInt (status_code r) = Inr c"
  shows "\<exists>b. encode_result junk r = Some b \<and> result_fromBytes b = Inr (newResult c (gas_left r) (output_data r))"
proof -
  have "length (output_data r) < 2 ^ 31" using assms(1) by simp
  from buf_getArray_append [OF this, of "[]"] assms(2) show ?thesis
    by (simp add: encode_result_eq [OF assms(1)] result_fromBytes_def)
qed

text \<open>
  C33: a context crosses to the native side. If its length fits in an \<open>int\<close>, \<open>toBytes\<close> never overflows its buffer, and
  what the native side parses from it, whatever its structures held before, is the message and the block data of the
  context, without the call data of a creation. The gas price alone does not arrive: the field of the
  transaction context keeps the value it had.
\<close>

theorem context_crosses:
  assumes "context_ok c" "context_fits c"
  shows "\<exists>b. context_toBytes c = Inr (b, c\<lparr>ec_callData := native_input c\<rparr>) \<and>
    parse_context junk b msg ctx = (native_message c (code_hash msg), native_tx c (tx_gas_price ctx))"
  using parse_context_native [OF assms] context_toBytes_eq [OF assms] by blast

definition sample_message :: evm_message where
  "sample_message = \<lparr>address = replicate 32 1, caller = replicate 32 2, msg_value = replicate 16 0,
     msg_input = [7, 8, 9], code_hash = replicate 32 0, msg_gas = 5000, depth = 1, kind = 2, flags = 0\<rparr>"

definition sample_context :: ExecutionContext where
  "sample_context = \<lparr>ec_sideEffects = newSideEffects, ec_origin = replicate 32 3,
     ec_originalTxHash = replicate 32 9, ec_address = replicate 32 1, ec_sender = replicate 32 2,
     ec_blockCoinbase = replicate 32 4, ec_nrgPrice = replicate 16 5, ec_callValue = replicate 16 0,
     ec_blockDifficulty = replicate 16 6, ec_callData = [1, 2, 3], ec_txHash = replicate 32 9, ec_nrg = 1000,
     ec_blockNumber = 17, ec_blockTimestamp = 18, ec_blockNrgLimit = 19, ec_depth = 0, ec_kind = K_CALL,
     ec_flags = 0, ec_contractAddress = None, ec_isCreate = False\<rparr>"

theorem context_crosses_witness:
  "\<exists>b. context_toBytes sample_context = Inr (b, sample_context) \<and>
     parse_context 0xaa b sample_message \<lparr>tx_gas_price = replicate 16 0, tx_origin = [], block_coinbase = [],
       block_number = 0, block_timestamp = 0, block_gas_limit = 0, block_difficulty = []\<rparr> =
     (native_message sample_context (replicate 32 0), native_tx sample_context (replicate 16 0))"
  using context_crosses [of sample_context "0xaa" sample_message
      "\<lparr>tx_gas_price = replicate 16 0, tx_origin = [], block_coinbase = [], block_number = 0,
       block_timestamp = 0, block_gas_limit = 0, block_difficulty = []\<rparr>"]
  by (simp add: context_ok_def context_fits_def sample_context_def native_input_def sample_message_def)

text \<open>
  C32: a call message crosses to the Java side. The context that the callback parses from an encoded message
  has the addresses, energy, value, data, depth, kind and flags of the message, and the origin, energy
  price, transaction hash and block data of the calling context.
\<close>

theorem message_crosses:
  assumes "message_ok m" "kind m = kind_intValue knd"
  shows "\<exists>b. encode_message junk m = Some b \<and> parseMessage prev b = Inr (callee_context prev m knd)"
  using assms by (rule parseMessage_native)

theorem message_crosses_witness:
  "\<exists>b. encode_message 0xaa sample_message = Some b \<and>
     parseMessage sample_context b = Inr (callee_context sample_context sample_message K_CALLCODE)"
  by (rule message_crosses) (simp_all add: message_ok_def sample_message_def)

text \<open>
  C34: results cross in both directions. A result of the Java side reaches the native caller with its code,
  energy and output, and a result of the virtual machine, whatever its status, reaches the Java side
  with these, a negative amount of energy becoming 0.
\<close>

theorem results_cross:
  assumes "length (res_output r) + 16 < 2 ^ 31" "length out + 16 < 2 ^ 31"
  shows "(\<exists>b. result_toBytes r = Inr b \<and> parse_result junk b =
      \<lparr>status_code = code_toInt (res_code r), gas_left = energyRemaining r, output_data = res_output r\<rparr>) \<and>
    (\<exists>b c. encode_result junk \<lparr>status_code = status_num st, gas_left = g, output_data = out\<rparr> = Some b \<and>
      code_toInt c = status_num st \<and> result_fromBytes b =
        Inr \<lparr>res_code = c, res_output = out, energyRemaining = (if 0 \<le> sint g then g else 0)\<rparr>)"
proof
  show "\<exists>b. result_toBytes r = Inr b \<and> parse_result junk b =
      \<lparr>status_code = code_toInt (res_code r), gas_left = energyRemaining r, output_data = res_output r\<rparr>"
    using result_toBytes_total [OF assms(1)] parse_result_native [OF assms(1)] by blast
  obtain c where c: "code_fromInt (status_num st) = Inr c" "code_toInt c = status_num st"
    using status_known by blast
  have "newResult c g out = \<lparr>res_code = c, res_output = out, energyRemaining = (if 0 \<le> sint g then g else 0)\<rparr>"
    by (simp add: newResult_def checkNegativeEnergy_def word_sle_eq)
  then show "\<exists>b c. encode_result junk \<lparr>status_code = status_num st, gas_left = g, output_data = out\<rparr> = Some b \<and>
      code_toInt c = status_num st \<and> result_fromBytes b =
        Inr \<lparr>res_code = c, res_output = out, energyRemaining = (if 0 \<le> sint g then g else 0)\<rparr>"
    using result_fromBytes_native [of "\<lparr>status_code = status_num st, gas_left = g, output_data = out\<rparr>" c junk]
      c assms(2) by auto
qed

theorem results_cross_witness:
  "(\<exists>b. result_toBytes (newResult RC_FAILURE 0 [1]) = Inr b \<and> parse_result 0 b =
      \<lparr>status_code = 1, gas_left = 0, output_data = [1]\<rparr>) \<and>
   (\<exists>b c. encode_result 0 \<lparr>status_code = 7, gas_left = 5, output_data = [2, 3]\<rparr> = Some b \<and>
      code_toInt c = 7 \<and> result_fromBytes b =
        Inr \<lparr>res_code = c, res_output = [2, 3], energyRemaining = 5\<rparr>)"
  using results_cross [of "newResult RC_FAILURE 0 [1]" "[2, 3]" 0 EVM_REVERT 5]
  by (simp add: newResult_def checkNegativeEnergy_def)

end
