(* ===== verification/JitRun.thy ===== *)
theory JitRun
  imports HostAgree Keccak Wire "HOL-Library.Char_ord"
begin

text \<open>
  The virtual machine as its host sees it: \<open>execute\<close> and the code map of \<^verbatim>\<open>src/fastvm/libevmjit/JIT.cpp\<close>.

  A compiled function is what it was compiled for: the revision, the static flag and the code. It runs as
  \<open>jit_main\<close>, with the fuel of the termination bound. \<open>jit_state\<close> is the part of \<open>JITImpl\<close> that lives
  between executions. Nested executions share it, so it is a part of the state of the host, which
  every callback may change. The callbacks are the same table in every execution.

  The platform is a parameter: the byte order and what uninitialised storage holds, and, of the LLVM code
  generator, whether it finds the function it compiled and how much memory its sections take. The object
  cache on disk is off, which is its default.
\<close>

unbundle bit_operations_syntax


section \<open>Compiled functions\<close>

record ExecFunc =
  fn_rev :: evm_revision
  fn_static :: bool
  fn_code :: "byte list"

record platform =
  pf_junk :: byte
  pf_le :: bool
  pf_div :: undef_divrem
  pf_addr :: "byte list"
  pf_slots :: "int \<Rightarrow> i128"
  pf_found :: "ExecFunc \<Rightarrow> bool"
  pf_sections :: "ExecFunc \<Rightarrow> nat"

record CodeMapEntry =
  func :: "ExecFunc option"
  hits :: nat

record jit_state =
  m_codeMap :: "string \<Rightarrow> CodeMapEntry option"
  cnt :: nat
  totalMemorySize :: nat
  hitThreshold :: nat
  jit_currentMsg :: "evm_message option"

record jit_host =
  jit :: jit_state


section \<open>The code map\<close>

primrec toChar :: "evm_revision \<Rightarrow> char" where
  "toChar EVM_FRONTIER = CHR ''F''"
| "toChar EVM_HOMESTEAD = CHR ''H''"
| "toChar EVM_TANGERINE_WHISTLE = CHR ''T''"
| "toChar EVM_SPURIOUS_DRAGON = CHR ''S''"
| "toChar EVM_BYZANTIUM = CHR ''B''"
| "toChar EVM_AION = CHR ''A''"
| "toChar EVM_CONSTANTINOPLE = CHR ''C''"
| "toChar EVM_AION_V1 = CHR ''D''"

definition hexChars :: string where
  "hexChars = ''0123456789abcdef''"

definition makeCodeId :: "byte list \<Rightarrow> evm_revision \<Rightarrow> 32 word \<Rightarrow> string" where
  "makeCodeId codeHash revision flgs =
     concat (map (\<lambda>b. [hexChars ! unat (drop_bit 4 b), hexChars ! unat (b AND 0xf)]) codeHash) @
     [toChar revision] @ (if flgs AND EVM_STATIC \<noteq> 0 then ''S'' else [])"

definition getExecFunc :: "string \<Rightarrow> jit_state \<Rightarrow> CodeMapEntry \<times> jit_state" where
  "getExecFunc codeIdentifier j =
     (let entry = case m_codeMap j codeIdentifier of Some e \<Rightarrow> e | None \<Rightarrow> \<lparr>func = None, hits = 0\<rparr>;
          entry = entry\<lparr>hits := hits entry + 1\<rparr>
      in (entry, j\<lparr>m_codeMap := (m_codeMap j)(codeIdentifier \<mapsto> entry)\<rparr>))"

definition mapExecFunc :: "string \<Rightarrow> ExecFunc \<Rightarrow> jit_state \<Rightarrow> jit_state" where
  "mapExecFunc codeIdentifier funcAddr j =
     (let entry = case m_codeMap j codeIdentifier of Some e \<Rightarrow> e | None \<Rightarrow> \<lparr>func = None, hits = 0\<rparr>
      in j\<lparr>m_codeMap := (m_codeMap j)(codeIdentifier \<mapsto> entry\<lparr>func := Some funcAddr\<rparr>)\<rparr>)"

definition resetEngine :: "jit_state \<Rightarrow> jit_state" where
  "resetEngine j = j\<lparr>m_codeMap := Map.empty, totalMemorySize := 0\<rparr>"

definition memoryLimit :: nat where
  "memoryLimit = 1000 * 1024 * 1024"

definition checkMemorySize :: "jit_state \<Rightarrow> jit_state" where
  "checkMemorySize j = (if totalMemorySize j > memoryLimit then resetEngine j else j)"

definition reportMemorySize :: "nat \<Rightarrow> jit_state \<Rightarrow> jit_state" where
  "reportMemorySize addedSize j = j\<lparr>totalMemorySize := totalMemorySize j + addedSize\<rparr>"

definition jit_compile ::
  "platform \<Rightarrow> evm_revision \<Rightarrow> bool \<Rightarrow> byte list \<Rightarrow> jit_state \<Rightarrow> ExecFunc option \<times> jit_state" where
  "jit_compile p revision staticCall code j =
     (let j = j\<lparr>cnt := cnt j + 1\<rparr>;
          j = if cnt j mod 20000 = 0 then resetEngine j else j;
          f = \<lparr>fn_rev = revision, fn_static = staticCall, fn_code = code\<rparr>;
          j = reportMemorySize (pf_sections p f) j
      in (if pf_found p f then Some f else None, j))"


section \<open>Running a compiled function\<close>

definition exec_env ::
  "platform \<Rightarrow> ExecFunc \<Rightarrow> 'h evm_context_fn_table \<Rightarrow> evm_message \<Rightarrow> byte list \<Rightarrow> 'h jit_env" where
  "exec_env p f tab msg code =
     \<lparr>m_rev = fn_rev f, m_staticCall = fn_static f, m_code = fn_code f, fns = tab, currentMsg = msg,
      rtdata = \<lparr>rd_gas = msg_gas msg, callData = msg_input msg, apparentValue = msg_value msg, rd_code = code,
        rd_address = address msg, rd_caller = caller msg, rd_depth = scast (depth msg)\<rparr>,
      junk_byte = pf_junk p, host_le = pf_le p, div_undef = pf_div p, undef_addr = pf_addr p\<rparr>"

definition exec_rt :: "evm_message \<Rightarrow> 'h \<Rightarrow> 'h rt" where
  "exec_rt msg h =
     \<lparr>gas = msg_gas msg, mem = \<lparr>arr_data = [], arr_size = 0, arr_cap = 0\<rparr>, txctx = None, retbuf = [],
      ret_range = None, host = h, call_ret = 0, pAddr = []\<rparr>"

text \<open>
  The returned range lies in memory. \<open>registerReturnData\<close> added the offset to the start of memory, and
  pointers have 64 bits.
\<close>

definition getReturnData :: "byte \<Rightarrow> 'h rt \<Rightarrow> byte list" where
  "getReturnData junk s =
     (case ret_range s of
        None \<Rightarrow> []
      | Some (off, sz) \<Rightarrow>
          let i = (ucast off :: i64)
          in if arr_size (mem s) \<le> i \<or> sz = 0 then []
             else read_mem junk (arr_data (mem s)) (unat i) (unat sz))"

definition exec_fuel :: "ExecFunc \<Rightarrow> evm_message \<Rightarrow> nat" where
  "exec_fuel f msg = (nat (sint (msg_gas msg)) + 1) * (length (fn_code f) + 1)"

fun exec_result :: "byte \<Rightarrow> 'h outcome \<Rightarrow> evm_result" where
  "exec_result junk (Exited rc s) =
     \<lparr>status_code = status_num (if rc = Revert then EVM_REVERT else if rc = OutOfGas then EVM_OUT_OF_GAS
        else EVM_SUCCESS),
      gas_left = (if rc = OutOfGas then 0 else gas s),
      output_data = (if rc = Return \<or> rc = Revert then getReturnData junk s else [])\<rparr>"
| "exec_result junk Aborted = \<lparr>status_code = status_num EVM_OUT_OF_GAS, gas_left = 0, output_data = []\<rparr>"

definition run_func ::
  "platform \<Rightarrow> ExecFunc \<Rightarrow> 'h evm_context_fn_table \<Rightarrow> evm_message \<Rightarrow> byte list \<Rightarrow> 'h \<Rightarrow> evm_result \<times> 'h" where
  "run_func p f tab msg code h =
     (let e = exec_env p f tab msg code;
          n = exec_fuel f msg;
          out = case jit_main e n (pf_slots p) (exec_rt msg h) of JitDone x \<Rightarrow> x | InBlock _ _ _ _ \<Rightarrow> Aborted
      in (exec_result (pf_junk p) out, run_host e n 0 (pf_slots p) 0 (exec_rt msg h)))"

definition failed_result :: "evm_status_code \<Rightarrow> evm_result" where
  "failed_result st = \<lparr>status_code = status_num st, gas_left = 0, output_data = []\<rparr>"

definition set_currentMsg :: "evm_message option \<Rightarrow> ('z jit_host_scheme) \<Rightarrow> 'z jit_host_scheme" where
  "set_currentMsg m h = h\<lparr>jit := (jit h)\<lparr>jit_currentMsg := m\<rparr>\<rparr>"

definition execute ::
  "platform \<Rightarrow> 'z jit_host_scheme evm_context_fn_table \<Rightarrow> evm_revision \<Rightarrow> evm_message \<Rightarrow> byte list \<Rightarrow>
   'z jit_host_scheme \<Rightarrow> evm_result \<times> 'z jit_host_scheme" where
  "execute p tab revision msg code h =
     (let h = if depth msg = 0 then h\<lparr>jit := checkMemorySize (jit h)\<rparr> else h;
          prevMsg = jit_currentMsg (jit h);
          h = set_currentMsg (Some msg) h;
          codeIdentifier = makeCodeId (code_hash msg) revision (flags msg);
          (codeEntry, j) = getExecFunc codeIdentifier (jit h);
          h = h\<lparr>jit := j\<rparr>;
          call = \<lambda>f h. let (result, h) = run_func p f tab msg code h in (result, set_currentMsg prevMsg h)
      in case func codeEntry of
           Some f \<Rightarrow> call f h
         | None \<Rightarrow>
             if hits codeEntry \<le> hitThreshold j then (failed_result EVM_REJECTED, h)
             else let (compiled, j) = jit_compile p revision (flags msg AND EVM_STATIC \<noteq> 0) code j
                  in case compiled of
                       None \<Rightarrow> (failed_result EVM_INTERNAL_ERROR, h\<lparr>jit := j\<rparr>)
                     | Some f \<Rightarrow> call f (h\<lparr>jit := mapExecFunc codeIdentifier f j\<rparr>))"

text \<open>\<open>std::stoul\<close> reads blanks, a sign and decimal digits, and throws without digits or beyond 64 bits.\<close>

definition stoul :: "string \<Rightarrow> nat option" where
  "stoul s =
     (let s = dropWhile (\<lambda>c. c \<in> {CHR '' '', CHR 0x09, CHR 0x0A, CHR 0x0B, CHR 0x0C, CHR 0x0D}) s;
          neg = (case s of c # _ \<Rightarrow> c = CHR ''-'' | [] \<Rightarrow> False);
          s = (case s of c # cs \<Rightarrow> if c \<in> {CHR ''-'', CHR ''+''} then cs else s | [] \<Rightarrow> s);
          ds = takeWhile (\<lambda>c. CHR ''0'' \<le> c \<and> c \<le> CHR ''9'') s;
          n = foldl (\<lambda>n c. 10 * n + (of_char c - 48)) 0 ds
      in if ds = [] \<or> 2 ^ 64 \<le> n then None
         else Some (if neg then (2 ^ 64 - n) mod 2 ^ 64 else n))"

definition set_option :: "string \<Rightarrow> string \<Rightarrow> jit_state \<Rightarrow> bool \<times> jit_state" where
  "set_option name val j =
     (if name = ''hits-threshold''
      then case stoul val of Some n \<Rightarrow> (True, j\<lparr>hitThreshold := n\<rparr>) | None \<Rightarrow> (False, j)
      else (False, j))"


section \<open>What the code map holds\<close>

lemma concat_pairs_inject:
  assumes "concat (map (\<lambda>b. [f b, g b]) xs) @ ys = concat (map (\<lambda>b. [f b, g b]) xs') @ ys'"
    "length xs = length xs'" "\<And>b c. f b = f c \<Longrightarrow> g b = g c \<Longrightarrow> b = c"
  shows "xs = xs' \<and> ys = ys'"
  using assms(2,1) by (induction xs xs' rule: list_induct2) (auto dest: assms(3))

lemma hex_digit_inject:
  fixes b c :: byte
  assumes "hexChars ! unat (drop_bit 4 b) = hexChars ! unat (drop_bit 4 c)"
    "hexChars ! unat (b AND 0xf) = hexChars ! unat (c AND 0xf)"
  shows "b = c"
proof -
  have d: "distinct hexChars" "length hexChars = 16" by (simp_all add: hexChars_def)
  have hi: "unat (drop_bit 4 x) = unat x div 16" for x :: byte
    by (simp add: drop_bit_eq_div unat_div)
  have "x AND 0xf = take_bit 4 x" for x :: byte
    by (simp add: take_bit_eq_mask mask_eq_exp_minus_1)
  then have lo: "unat (x AND 0xf) = unat x mod 16" for x :: byte
    by (simp add: take_bit_eq_mod unat_mod)
  have "unat x < 256" for x :: byte using unsigned_less [of x] by simp
  then have "unat b div 16 = unat c div 16" "unat b mod 16 = unat c mod 16"
    using assms by (simp_all add: hi lo nth_eq_iff_index_eq [OF d(1)] d(2) less_mult_imp_div_less)
  then have "unat b = unat c" by (metis div_mult_mod_eq)
  then show ?thesis by (rule unsigned_word_eqI)
qed

lemma toChar_inject: "toChar r = toChar r' \<longleftrightarrow> r = r'"
  by (cases r; cases r') simp_all

lemma makeCodeId_inject:
  assumes "length h = length h'" "makeCodeId h r fl = makeCodeId h' r' fl'"
  shows "h = h' \<and> r = r' \<and> (fl AND EVM_STATIC = 0 \<longleftrightarrow> fl' AND EVM_STATIC = 0)"
  using concat_pairs_inject [OF assms(2) [unfolded makeCodeId_def] assms(1) hex_digit_inject]
  by (auto simp: toChar_inject split: if_splits)

text \<open>
  Every function of the map is filed under the hash, the revision and the static flag it was compiled
  for, and its code fits in a Java array.
\<close>

definition func_id :: "ExecFunc \<Rightarrow> string" where
  "func_id f = makeCodeId (keccak (fn_code f)) (fn_rev f) (if fn_static f then EVM_STATIC else 0)"

definition code_map_ok :: "jit_state \<Rightarrow> bool" where
  "code_map_ok j \<longleftrightarrow>
     (\<forall>i entry f. m_codeMap j i = Some entry \<and> func entry = Some f \<longrightarrow> i = func_id f \<and> length (fn_code f) < 2 ^ 31)"

lemma func_id_eq:
  "makeCodeId (keccak code) r fl = func_id \<lparr>fn_rev = r, fn_static = (fl AND EVM_STATIC \<noteq> 0), fn_code = code\<rparr>"
  by (simp add: func_id_def makeCodeId_def EVM_STATIC_def)

lemma func_id_inject:
  assumes "func_id f = func_id g"
  shows "fn_rev f = fn_rev g \<and> fn_static f = fn_static g \<and> keccak (fn_code f) = keccak (fn_code g)"
  using makeCodeId_inject [OF _ assms [unfolded func_id_def]] by (auto simp: EVM_STATIC_def split: if_splits)

lemma code_map_steps:
  assumes "code_map_ok j"
  shows "code_map_ok (resetEngine j)" "code_map_ok (checkMemorySize j)" "code_map_ok (j\<lparr>jit_currentMsg := m\<rparr>)"
    "code_map_ok (snd (getExecFunc i j))" "code_map_ok (snd (jit_compile p r b c j))"
    "length (fn_code f) < 2 ^ 31 \<Longrightarrow> code_map_ok (mapExecFunc (func_id f) f j)"
proof -
  show reset: "code_map_ok (resetEngine j)" "code_map_ok (checkMemorySize j)" "code_map_ok (j\<lparr>jit_currentMsg := m\<rparr>)"
    using assms by (simp_all add: code_map_ok_def resetEngine_def checkMemorySize_def)
  show "code_map_ok (snd (getExecFunc i j))"
    using assms by (auto simp: code_map_ok_def getExecFunc_def Let_def split: if_splits option.splits)
  show "code_map_ok (snd (jit_compile p r b c j))"
    using assms by (auto simp: code_map_ok_def jit_compile_def reportMemorySize_def resetEngine_def Let_def)
  show "length (fn_code f) < 2 ^ 31 \<Longrightarrow> code_map_ok (mapExecFunc (func_id f) f j)"
    using assms by (auto simp: code_map_ok_def mapExecFunc_def Let_def split: if_splits option.splits)
qed

lemma jit_compile_func: "jit_compile p r b c j = (Some f, j') \<Longrightarrow> f = \<lparr>fn_rev = r, fn_static = b, fn_code = c\<rparr>"
  by (auto simp: jit_compile_def Let_def split: if_splits)

text \<open>
  One execution: the function that it looks up or compiles, and the state of the compiler at that point.
\<close>

definition enter :: "evm_revision \<Rightarrow> evm_message \<Rightarrow> jit_state \<Rightarrow> CodeMapEntry \<times> jit_state" where
  "enter r msg j =
     getExecFunc (makeCodeId (code_hash msg) r (flags msg))
       ((if depth msg = 0 then checkMemorySize j else j)\<lparr>jit_currentMsg := Some msg\<rparr>)"

definition fresh_func :: "evm_revision \<Rightarrow> evm_message \<Rightarrow> byte list \<Rightarrow> ExecFunc" where
  "fresh_func r msg code = \<lparr>fn_rev = r, fn_static = (flags msg AND EVM_STATIC \<noteq> 0), fn_code = code\<rparr>"

datatype choice = Run ExecFunc jit_state | Refuse evm_status_code jit_state

definition pick_func :: "platform \<Rightarrow> evm_revision \<Rightarrow> evm_message \<Rightarrow> byte list \<Rightarrow> jit_state \<Rightarrow> choice" where
  "pick_func p r msg code j =
     (let (entry, j) = enter r msg j
      in case func entry of
           Some f \<Rightarrow> Run f j
         | None \<Rightarrow>
             if hits entry \<le> hitThreshold j then Refuse EVM_REJECTED j
             else let (compiled, j) = jit_compile p r (flags msg AND EVM_STATIC \<noteq> 0) code j
                  in case compiled of
                       None \<Rightarrow> Refuse EVM_INTERNAL_ERROR j
                     | Some f \<Rightarrow> Run f (mapExecFunc (makeCodeId (code_hash msg) r (flags msg)) f j))"

lemma execute_eq:
  "execute p tab r msg code h =
     (case pick_func p r msg code (jit h) of
        Run f j \<Rightarrow> let (res, h') = run_func p f tab msg code (h\<lparr>jit := j\<rparr>)
          in (res, set_currentMsg (jit_currentMsg (jit h)) h')
      | Refuse st j \<Rightarrow> (failed_result st, h\<lparr>jit := j\<rparr>))"
proof -
  define h1 where "h1 = (if depth msg = 0 then h\<lparr>jit := checkMemorySize (jit h)\<rparr> else h)"
  obtain entry j where j: "enter r msg (jit h) = (entry, j)" by fastforce
  have h1: "jit h1 = (if depth msg = 0 then checkMemorySize (jit h) else jit h)"
    "jit_currentMsg (jit h1) = jit_currentMsg (jit h)"
    by (simp_all add: h1_def checkMemorySize_def resetEngine_def)
  have upd: "h1\<lparr>jit := x, jit := y\<rparr> = h\<lparr>jit := y\<rparr>" "jit (h1\<lparr>jit := x\<rparr>) = x"
    "h\<lparr>jit := x, jit := y\<rparr> = h\<lparr>jit := y\<rparr>" for x y
    by (simp_all add: h1_def)
  have get: "getExecFunc (makeCodeId (code_hash msg) r (flags msg)) ((jit h1)\<lparr>jit_currentMsg := Some msg\<rparr>) = (entry, j)"
    using j by (simp add: enter_def h1(1))
  show ?thesis
    unfolding execute_def pick_func_def Let_def set_currentMsg_def h1_def [symmetric] upd h1(2) get j prod.case
    by (simp split: option.splits prod.splits)
qed

lemma enter_ok:
  assumes "code_map_ok j" "enter r msg j = (entry, j')"
  shows "code_map_ok j'" "jit_currentMsg j' = Some msg" "hitThreshold j' = hitThreshold j" "hits entry \<noteq> 0"
    "m_codeMap j' (makeCodeId (code_hash msg) r (flags msg)) = Some entry"
    "func entry = Some f \<Longrightarrow> \<exists>i e. m_codeMap j i = Some e \<and> func e = Some f"
proof -
  have "code_map_ok ((if depth msg = 0 then checkMemorySize j else j)\<lparr>jit_currentMsg := Some msg\<rparr>)"
    using assms(1) by (intro code_map_steps(3)) (simp add: code_map_steps(2))
  from code_map_steps(4) [OF this, of "makeCodeId (code_hash msg) r (flags msg)"]
  show "code_map_ok j'" using assms(2) by (simp add: enter_def)
  show "jit_currentMsg j' = Some msg" "hitThreshold j' = hitThreshold j" "hits entry \<noteq> 0"
    "m_codeMap j' (makeCodeId (code_hash msg) r (flags msg)) = Some entry"
    using assms(2) by (auto simp: enter_def getExecFunc_def checkMemorySize_def resetEngine_def Let_def)
  show "func entry = Some f \<Longrightarrow> \<exists>i e. m_codeMap j i = Some e \<and> func e = Some f"
    using assms(2)
    by (fastforce simp: enter_def getExecFunc_def checkMemorySize_def resetEngine_def Let_def
        split: option.splits if_splits)
qed

lemma jit_compile_ok:
  assumes "jit_compile p r b c j = (x, j')" "code_map_ok j"
  shows "code_map_ok j'" "jit_currentMsg j' = jit_currentMsg j" "hitThreshold j' = hitThreshold j"
    "x = (if pf_found p \<lparr>fn_rev = r, fn_static = b, fn_code = c\<rparr>
      then Some \<lparr>fn_rev = r, fn_static = b, fn_code = c\<rparr> else None)"
  using assms code_map_steps(5) [OF assms(2), of p r b c]
  by (auto simp: jit_compile_def reportMemorySize_def resetEngine_def Let_def)

text \<open>
  The function is one of the map or freshly compiled. Either way it is filed under the hash, the revision
  and the flags of the message, and the message is the current one when it starts.
\<close>

lemma pick_func_Run:
  assumes "code_map_ok j" "code_hash msg = keccak code" "length code < 2 ^ 31" "pick_func p r msg code j = Run f j'"
  shows "code_map_ok j'" "jit_currentMsg j' = Some msg" "hitThreshold j' = hitThreshold j"
    "func_id f = func_id (fresh_func r msg code)" "length (fn_code f) < 2 ^ 31"
    "f = fresh_func r msg code \<or> (\<exists>i e. m_codeMap j i = Some e \<and> func e = Some f)"
proof -
  let ?i = "makeCodeId (code_hash msg) r (flags msg)"
  have id: "?i = func_id (fresh_func r msg code)" using assms(2) by (simp add: func_id_eq fresh_func_def)
  obtain entry j1 where j1: "enter r msg j = (entry, j1)" by fastforce
  note ok = enter_ok [OF assms(1) j1]
  have "code_map_ok j' \<and> jit_currentMsg j' = Some msg \<and> hitThreshold j' = hitThreshold j \<and>
    func_id f = func_id (fresh_func r msg code) \<and> length (fn_code f) < 2 ^ 31 \<and>
    (f = fresh_func r msg code \<or> (\<exists>i e. m_codeMap j i = Some e \<and> func e = Some f))"
  proof (cases "func entry")
    case (Some g)
    then have "?i = func_id g \<and> length (fn_code g) < 2 ^ 31" using ok(1,5) unfolding code_map_ok_def by blast
    with Some ok assms(4) id j1 show ?thesis by (simp add: pick_func_def)
  next
    case None
    obtain x j2 where j2: "jit_compile p r (flags msg AND EVM_STATIC \<noteq> 0) code j1 = (x, j2)" by fastforce
    have "x = Some f" "j' = mapExecFunc ?i f j2" "f = fresh_func r msg code"
      using None assms(4) j1 j2 jit_compile_ok(4) [OF j2 ok(1)]
      by (auto simp: pick_func_def fresh_func_def split: if_splits)
    with jit_compile_ok(1-3) [OF j2 ok(1)] ok assms(3) id code_map_steps(6) [of j2 f] show ?thesis
      by (simp add: fresh_func_def mapExecFunc_def Let_def)
  qed
  then show "code_map_ok j'" "jit_currentMsg j' = Some msg" "hitThreshold j' = hitThreshold j"
    "func_id f = func_id (fresh_func r msg code)" "length (fn_code f) < 2 ^ 31"
    "f = fresh_func r msg code \<or> (\<exists>i e. m_codeMap j i = Some e \<and> func e = Some f)" by simp_all
qed

text \<open>Unless a function of the map has other code with the same hash, it is the one for the given code.\<close>

lemma pick_func_fresh:
  assumes "code_map_ok j" "code_hash msg = keccak code" "length code < 2 ^ 31" "pick_func p r msg code j = Run f j'"
    and coll: "\<And>i entry f. m_codeMap j i = Some entry \<Longrightarrow> func entry = Some f \<Longrightarrow>
      keccak (fn_code f) = keccak code \<Longrightarrow> fn_code f = code"
  shows "f = fresh_func r msg code"
proof -
  note run = pick_func_Run [OF assms(1-4)]
  have "keccak (fn_code f) = keccak code" "fn_code (fresh_func r msg code) = code"
    using func_id_inject [OF run(4)] by (simp_all add: fresh_func_def)
  then have "fn_code f = code" using run(6) coll by blast
  then show ?thesis using func_id_inject [OF run(4)] by (simp add: fresh_func_def)
qed

lemma pick_func_runs:
  assumes "code_map_ok j" "hitThreshold j = 0" "pf_found p (fresh_func r msg code)"
  obtains f j' where "pick_func p r msg code j = Run f j'"
proof -
  obtain entry j1 where j1: "enter r msg j = (entry, j1)" by fastforce
  obtain x j2 where j2: "jit_compile p r (flags msg AND EVM_STATIC \<noteq> 0) code j1 = (x, j2)" by fastforce
  show thesis
    using that enter_ok(3,4) [OF assms(1) j1] jit_compile_ok(4) [OF j2 enter_ok(1) [OF assms(1) j1]] assms(2,3)
    by (cases "func entry") (simp_all add: pick_func_def j1 j2 fresh_func_def)
qed


section \<open>What an execution computes\<close>

lemma exec_simps [simp]:
  "m_code (exec_env p f tab msg code) = fn_code f" "m_rev (exec_env p f tab msg code) = fn_rev f"
  "m_staticCall (exec_env p f tab msg code) = fn_static f" "fns (exec_env p f tab msg code) = tab"
  "currentMsg (exec_env p f tab msg code) = msg" "host (exec_rt msg h) = h" "gas (exec_rt msg h) = msg_gas msg"
  by (simp_all add: exec_env_def exec_rt_def)

lemma run_func_keeps:
  "host_keeps J (exec_env p f tab msg code) \<Longrightarrow> J h \<Longrightarrow> J (snd (run_func p f tab msg code h))"
  by (simp add: run_func_def Let_def run_host_keeps)

lemma run_func_machine:
  assumes "host_gas_on J (exec_env p f tab msg code)" "host_keeps J (exec_env p f tab msg code)" "J h"
    "length (fn_code f) < 2 ^ 31" "0 \<le> sint (msg_gas msg)" "msg_gas msg \<noteq> gasMax"
  obtains m out where
    "(evm_step (exec_env p f tab msg code) ^^ m) (Running 0 [] (exec_rt msg h)) = Halted out"
    "fst (run_func p f tab msg code h) = exec_result (pf_junk p) out"
    "\<And>rc s'. out = Exited rc s' \<Longrightarrow> snd (run_func p f tab msg code h) = host s'"
    "\<And>rc s'. out = Exited rc s' \<Longrightarrow> 0 \<le> sint (gas s') \<and> sint (gas s') \<le> sint (msg_gas msg)"
proof -
  let ?e = "exec_env p f tab msg code" and ?s = "exec_rt msg h"
  obtain out m where out: "jit_main ?e (exec_fuel f msg) (pf_slots p) ?s = JitDone out"
    "(evm_step ?e ^^ m) (Running 0 [] ?s) = Halted out"
    "\<And>rc s'. out = Exited rc s' \<Longrightarrow> gas_ok s' \<and> sint (gas s') \<le> sint (msg_gas msg)"
    using jit_ends_on [of J ?e ?s "pf_slots p"] assms by (auto simp: exec_fuel_def gas_ok_def)
  have "snd (run_func p f tab msg code h) = host s'" if "out = Exited rc s'" for rc s'
  proof -
    have "(jit_step ?e ^^ exec_fuel f msg) (InBlock 0 (pf_slots p) 0 ?s) = JitDone (Exited rc s')"
      using out(1) that by (simp add: jit_main_def)
    from run_host_exited [OF this] show ?thesis by (simp add: run_func_def Let_def)
  qed
  with out show thesis
    by (intro that [of m out]) (simp_all add: run_func_def Let_def gas_ok_def)
qed

lemma run_func_gas:
  assumes "host_gas_on J (exec_env p f tab msg code)" "host_keeps J (exec_env p f tab msg code)" "J h"
    "length (fn_code f) < 2 ^ 31" "0 \<le> sint (msg_gas msg)" "msg_gas msg \<noteq> gasMax"
  shows "0 \<le> sint (gas_left (fst (run_func p f tab msg code h))) \<and>
    sint (gas_left (fst (run_func p f tab msg code h))) \<le> sint (msg_gas msg)"
proof (rule run_func_machine [OF assms])
  fix m out
  assume "fst (run_func p f tab msg code h) = exec_result (pf_junk p) out"
    "\<And>rc s'. out = Exited rc s' \<Longrightarrow> 0 \<le> sint (gas s') \<and> sint (gas s') \<le> sint (msg_gas msg)"
  then show ?thesis using assms(5) by (cases out) auto
qed

text \<open>An amount of gas that is negative, as a transaction has it whose limit does not cover its price.\<close>

definition overdrawn :: "i64 \<Rightarrow> bool" where
  "overdrawn g \<longleftrightarrow> - (2 ^ 62) \<le> sint g \<and> sint g < 0"

lemma run_func_overdrawn:
  assumes "host_gas_on J (exec_env p f tab msg code)" "host_keeps J (exec_env p f tab msg code)" "J h"
    "length (fn_code f) < 2 ^ 31" "overdrawn (msg_gas msg)"
  shows "\<exists>out. jit_main (exec_env p f tab msg code) (exec_fuel f msg) (pf_slots p) (exec_rt msg h) = JitDone out"
    "sint (gas_left (fst (run_func p f tab msg code h))) \<le> 0"
proof -
  let ?e = "exec_env p f tab msg code" and ?s = "exec_rt msg h"
  have fuel: "exec_fuel f msg = Suc (length (fn_code f))" using assms(5) by (simp add: exec_fuel_def overdrawn_def)
  obtain out where out: "jit_main ?e (exec_fuel f msg) (pf_slots p) ?s = JitDone out"
    "\<And>rc s'. out = Exited rc s' \<Longrightarrow> s' = ?s"
    using jit_overdrawn_on [OF assms(1,2), of ?s "length (fn_code f)" "pf_slots p"] assms(3-5)
    by (auto simp: fuel overdrawn_def)
  then show "\<exists>out. jit_main ?e (exec_fuel f msg) (pf_slots p) ?s = JitDone out" by blast
  show "sint (gas_left (fst (run_func p f tab msg code h))) \<le> 0"
    using out assms(5) by (cases out) (auto simp: run_func_def Let_def overdrawn_def)
qed

text \<open>
  C5: an execution runs the machine on the code of its message. Whether the function comes from the code map or
  is compiled on the spot, after any resets of the map, the result is that of the machine on the given
  code at the given revision, the host is left as the machine leaves it, and the message of the caller
  is the current one again. The code map is not trusted beyond the injectivity of its identifiers: only a
  collision of hashes with a function in the map is excluded.
\<close>

theorem execute_runs_machine:
  assumes map: "code_map_ok (jit h)" and hash: "code_hash msg = keccak code" and len: "length code < 2 ^ 31"
    and coll: "\<And>i entry f. m_codeMap (jit h) i = Some entry \<Longrightarrow> func entry = Some f \<Longrightarrow>
      keccak (fn_code f) = keccak code \<Longrightarrow> fn_code f = code"
    and compiles: "hitThreshold (jit h) = 0" "pf_found p (fresh_func r msg code)"
    and gas: "host_gas_ok (exec_env p (fresh_func r msg code) tab msg code)"
      "0 \<le> sint (msg_gas msg)" "msg_gas msg \<noteq> gasMax"
  shows "\<exists>j m out. code_map_ok j \<and> jit_currentMsg j = Some msg \<and>
    (evm_step (exec_env p (fresh_func r msg code) tab msg code) ^^ m)
      (Running 0 [] (exec_rt msg (h\<lparr>jit := j\<rparr>))) = Halted out \<and>
    fst (execute p tab r msg code h) = exec_result (pf_junk p) out \<and>
    (\<forall>rc s'. out = Exited rc s' \<longrightarrow>
      snd (execute p tab r msg code h) = set_currentMsg (jit_currentMsg (jit h)) (host s'))"
proof -
  obtain f j where c: "pick_func p r msg code (jit h) = Run f j" by (rule pick_func_runs [OF map compiles])
  note run = pick_func_Run [OF map hash len c]
  have f: "f = fresh_func r msg code" using pick_func_fresh [OF map hash len c] coll by blast
  let ?e = "exec_env p f tab msg code"
  have any: "host_gas_on (\<lambda>_. True) ?e" "host_keeps (\<lambda>_. True) ?e"
    using gas(1) by (auto simp: f host_gas_on_def host_gas_ok_def host_keeps_def)
  show ?thesis
  proof (rule run_func_machine [OF any _ run(5) gas(2,3), where h = "h\<lparr>jit := j\<rparr>"])
    fix m out
    assume "(evm_step ?e ^^ m) (Running 0 [] (exec_rt msg (h\<lparr>jit := j\<rparr>))) = Halted out"
      "fst (run_func p f tab msg code (h\<lparr>jit := j\<rparr>)) = exec_result (pf_junk p) out"
      "\<And>rc s'. out = Exited rc s' \<Longrightarrow> snd (run_func p f tab msg code (h\<lparr>jit := j\<rparr>)) = host s'"
    with run(1,2) show ?thesis
      by (intro exI [of _ j] exI [of _ m] exI [of _ out]) (auto simp: f execute_eq c split: prod.splits)
  qed simp
qed

definition quiet_fns :: "'h evm_context_fn_table" where
  "quiet_fns = \<lparr>account_exists = (\<lambda>_ _. 1), get_storage = (\<lambda>_ _ _. replicate 16 0), set_storage = (\<lambda>h _ _ _. h),
     get_balance = (\<lambda>_ _. replicate 16 0), get_code = (\<lambda>_ _. []), selfdestruct = (\<lambda>h _ _. h),
     host_call = (\<lambda>h m. (\<lparr>status_code = 0, gas_left = 0, output_data = []\<rparr>, h)),
     get_tx_context = (\<lambda>_. \<lparr>tx_gas_price = replicate 16 0, tx_origin = replicate 32 0,
       block_coinbase = replicate 32 0, block_number = 1, block_timestamp = 1, block_gas_limit = 1,
       block_difficulty = replicate 16 0\<rparr>),
     get_block_hash = (\<lambda>_ _. replicate 32 0), host_log = (\<lambda>h _ _ _. h)\<rparr>"

definition sample_platform :: platform where
  "sample_platform = \<lparr>pf_junk = 0xaa, pf_le = True, pf_div = (\<lambda>_. (0, 0)), pf_addr = replicate 32 0, pf_slots = (\<lambda>_. 0),
     pf_found = (\<lambda>_. True), pf_sections = (\<lambda>_. 4096)\<rparr>"

definition fresh_jit :: jit_state where
  "fresh_jit = \<lparr>m_codeMap = Map.empty, cnt = 0, totalMemorySize = 0, hitThreshold = 0, jit_currentMsg = None\<rparr>"

theorem execute_runs_machine_witness:
  "let code = [0x5b, 0x00]; msg = sample_message\<lparr>code_hash := keccak code\<rparr>; p = sample_platform;
       h = \<lparr>jit = fresh_jit\<rparr>; e = exec_env p (fresh_func EVM_AION msg code) quiet_fns msg code
   in \<exists>j m out. code_map_ok j \<and> jit_currentMsg j = Some msg \<and>
     (evm_step e ^^ m) (Running 0 [] (exec_rt msg (h\<lparr>jit := j\<rparr>))) = Halted out \<and>
     fst (execute p quiet_fns EVM_AION msg code h) = exec_result (pf_junk p) out \<and>
     (\<forall>rc s'. out = Exited rc s' \<longrightarrow>
       snd (execute p quiet_fns EVM_AION msg code h) = set_currentMsg (jit_currentMsg (jit h)) (host s'))"
  unfolding Let_def
  by (rule execute_runs_machine)
    (simp_all add: code_map_ok_def fresh_jit_def sample_platform_def host_gas_ok_def quiet_fns_def
      sample_message_def gasMax_def)

end
