(* ===== verification/Callback.thy ===== *)
theory Callback
  imports JitRun
begin

text \<open>
  The Java host of the virtual machine and the native callbacks that lead to it:
  \<^verbatim>\<open>src/modFastVM/src/org/aion/fastvm/Callback.java\<close>, \<^verbatim>\<open>FastVM.java\<close> and
  \<^verbatim>\<open>src/fastvm/jni/org_aion_fastvm_FastVM.cpp\<close>.

  The world is behind two interfaces that the kernel implements, \<open>IExternalStateForFvm\<close> and
  \<open>IExternalCapabilities\<close>; \<open>ext_state\<close> is their operations, as functions on a state \<open>'w\<close>. Committing a child
  state is a function of the child and its parent, and \<open>es_reparent\<close> is what becomes of a child when its parent
  changes, since children may read through to their parents. \<open>rollback\<close> only resets a child that is not used any more,
  so it has no counterpart. \<open>vm_host\<close> is everything that lives across the border: the state of the JIT
  compiler, the global transaction context of the native side, the stack of contexts and states of
  \<open>Callback\<close>, whose top the callbacks work on, and whether \<open>CapabilitiesProvider\<close> has its capabilities installed.

  \<open>call\<close> runs contracts, so the table of callbacks refers to itself. \<open>vm_call n\<close> allows \<open>n\<close> nested calls; the
  limit of the call depth makes every larger \<open>n\<close> equivalent.

  A Java exception is a value \<open>Inl\<close>. The native side does not look for exceptions: when \<open>getStorage\<close> or
  \<open>getBalance\<close> throws, it goes on and copies from an array that is not there. What it then reads is
  \<open>es_undefined\<close>, about which no theorem assumes anything. Exceptions are thrown for an empty
  stack, for a storage value that is missing, since \<open>getStorageValue\<close> then returns null, and for a balance
  of \<open>2 ^ 128\<close> or more.

  Three choices concern sizes of almost \<open>2 ^ 31\<close> bytes, which need memory that costs more than \<open>2 ^ 42\<close> gas.
  \<^item> A call whose message does not fit in an array fails; in the source the null array reaches \<open>CallStaticObjectMethod\<close>
    while an exception is pending, which is undefined.
  \<^item> A run whose output does not fit in an array is an exception, with the frame of the run popped; in the source
    \<open>SetByteArrayRegion\<close> gets a null array, which is undefined.
  \<^item> A nested run whose context does not fit in an array throws, as in the source, but the model does not keep
    the frame that the source leaves on the stack. At the top level the frame stays.
\<close>

unbundle bit_operations_syntax


section \<open>The world and the host\<close>

record 'w ext_state =
  es_newChild :: "'w \<Rightarrow> 'w"
  es_commit :: "'w \<Rightarrow> 'w \<Rightarrow> 'w"
  es_reparent :: "'w \<Rightarrow> 'w \<Rightarrow> 'w"
  es_isPrecompiled :: "'w \<Rightarrow> AionAddress \<Rightarrow> bool"
  es_runPrecompiled :: "ExecutionContext \<Rightarrow> 'w \<Rightarrow> FastVmTransactionResult java \<times> SideEffects \<times> 'w"
  es_addStorage :: "'w \<Rightarrow> AionAddress \<Rightarrow> byte list \<Rightarrow> byte list \<Rightarrow> 'w"
  es_removeStorage :: "'w \<Rightarrow> AionAddress \<Rightarrow> byte list \<Rightarrow> 'w"
  es_getStorage :: "'w \<Rightarrow> AionAddress \<Rightarrow> byte list \<Rightarrow> byte list option"
  es_undefined :: "nat \<Rightarrow> byte list"
  es_destinationSafe :: "'w \<Rightarrow> AionAddress \<Rightarrow> bool"
  es_getCode :: "'w \<Rightarrow> AionAddress \<Rightarrow> byte list option"
  es_putCode :: "'w \<Rightarrow> AionAddress \<Rightarrow> byte list \<Rightarrow> 'w"
  es_hasStorage :: "'w \<Rightarrow> AionAddress \<Rightarrow> bool"
  es_hasAccount :: "'w \<Rightarrow> AionAddress \<Rightarrow> bool"
  es_createAccount :: "'w \<Rightarrow> AionAddress \<Rightarrow> 'w"
  es_setVmType :: "'w \<Rightarrow> AionAddress \<Rightarrow> 'w"
  es_getBalance :: "'w \<Rightarrow> AionAddress \<Rightarrow> int"
  es_addBalance :: "'w \<Rightarrow> AionAddress \<Rightarrow> int \<Rightarrow> 'w"
  es_getNonce :: "'w \<Rightarrow> AionAddress \<Rightarrow> int"
  es_incrementNonce :: "'w \<Rightarrow> AionAddress \<Rightarrow> 'w"
  es_validEnergyForCreate :: "'w \<Rightarrow> i64 \<Rightarrow> byte list \<Rightarrow> bool"
  es_validEnergyForNonCreate :: "'w \<Rightarrow> i64 \<Rightarrow> byte list \<Rightarrow> bool"
  es_nonceEquals :: "'w \<Rightarrow> AionAddress \<Rightarrow> int \<Rightarrow> bool"
  es_balanceIsAtLeast :: "'w \<Rightarrow> AionAddress \<Rightarrow> int \<Rightarrow> bool"
  es_deductEnergyCost :: "'w \<Rightarrow> AionAddress \<Rightarrow> int \<Rightarrow> 'w"
  es_fork040 :: "'w \<Rightarrow> bool"
  es_minerAddress :: "'w \<Rightarrow> AionAddress"
  es_blockNumber :: "'w \<Rightarrow> i64"
  es_blockTimestamp :: "'w \<Rightarrow> i64"
  es_blockEnergyLimit :: "'w \<Rightarrow> i64"
  es_blockDifficulty :: "'w \<Rightarrow> byte list"
  es_blockHash :: "'w \<Rightarrow> i64 \<Rightarrow> byte list option"
  es_signatureSwap :: "'w \<Rightarrow> bool"
  cap_newContractAddress :: "AionAddress \<Rightarrow> int \<Rightarrow> AionAddress"
  tx_equals :: "InternalTransaction \<Rightarrow> InternalTransaction \<Rightarrow> bool"

record 'w vm_host = jit_host +
  vm_tx :: evm_tx_context
  vm_stack :: "(ExecutionContext \<times> 'w) list"
  vm_caps :: bool

type_synonym 'w vm_table = "'w vm_host evm_context_fn_table"


section \<open>The capabilities provider\<close>

definition getExternalCapabilities :: "'w vm_host \<Rightarrow> unit java" where
  "getExternalCapabilities h = (if vm_caps h then Inr () else Inl IllegalState)"

definition installExternalCapabilities :: "'w vm_host \<Rightarrow> 'w vm_host java" where
  "installExternalCapabilities h = (if vm_caps h then Inl IllegalState else Inr (h\<lparr>vm_caps := True\<rparr>))"

definition removeExternalCapabilities :: "'w vm_host \<Rightarrow> 'w vm_host" where
  "removeExternalCapabilities h = h\<lparr>vm_caps := False\<rparr>"


section \<open>The stack of Callback\<close>

definition cb_push :: "ExecutionContext \<times> 'w \<Rightarrow> 'w vm_host \<Rightarrow> 'w vm_host" where
  "cb_push pair h = h\<lparr>vm_stack := pair # vm_stack h\<rparr>"

definition cb_pop :: "'w vm_host \<Rightarrow> 'w vm_host" where
  "cb_pop h = h\<lparr>vm_stack := tl (vm_stack h)\<rparr>"

text \<open>Changes of the current context's side effects and of the current state.\<close>

definition on_effects :: "(SideEffects \<Rightarrow> SideEffects) \<Rightarrow> 'w vm_host \<Rightarrow> 'w vm_host" where
  "on_effects g h =
     (case vm_stack h of
        [] \<Rightarrow> h
      | (c, w) # fs \<Rightarrow> h\<lparr>vm_stack := (c\<lparr>ec_sideEffects := g (ec_sideEffects c)\<rparr>, w) # fs\<rparr>)"

definition on_state :: "('w \<Rightarrow> 'w) \<Rightarrow> 'w vm_host \<Rightarrow> 'w vm_host" where
  "on_state g h = (case vm_stack h of [] \<Rightarrow> h | (c, w) # fs \<Rightarrow> h\<lparr>vm_stack := (c, g w) # fs\<rparr>)"

definition ask_state :: "'b \<Rightarrow> ('w \<Rightarrow> 'b) \<Rightarrow> 'w vm_host \<Rightarrow> 'b" where
  "ask_state none g h = (case vm_stack h of [] \<Rightarrow> none | (c, w) # fs \<Rightarrow> g w)"


section \<open>Queries and effects\<close>

definition cb_exists :: "'w ext_state \<Rightarrow> 'w vm_host \<Rightarrow> byte list \<Rightarrow> 32 word" where
  "cb_exists es h addr = ask_state 0 (\<lambda>w. if es_hasAccount es w addr then 1 else 0) h"

definition cb_getStorage :: "'w ext_state \<Rightarrow> 'w vm_host \<Rightarrow> byte list \<Rightarrow> byte list \<Rightarrow> byte list" where
  "cb_getStorage es h addr key =
     (case fromBytes key of
        Inr k \<Rightarrow>
          ask_state (es_undefined es 16)
            (\<lambda>w. case es_getStorage es w addr k of None \<Rightarrow> es_undefined es 16 | Some v \<Rightarrow> v) h
      | Inl _ \<Rightarrow> es_undefined es 16)"

definition isZero :: "byte list \<Rightarrow> bool" where
  "isZero val \<longleftrightarrow> list_all (\<lambda>b. b = 0) (rev val)"

definition cb_putStorage :: "'w ext_state \<Rightarrow> 'w vm_host \<Rightarrow> byte list \<Rightarrow> byte list \<Rightarrow> byte list \<Rightarrow> 'w vm_host" where
  "cb_putStorage es h addr key val =
     (if val = [] \<or> isZero val
      then case fromBytes key of Inr k \<Rightarrow> on_state (\<lambda>w. es_removeStorage es w addr k) h | Inl _ \<Rightarrow> h
      else case (fromBytes key, fromBytes val) of
             (Inr k, Inr v) \<Rightarrow> on_state (\<lambda>w. es_addStorage es w addr k v) h
           | _ \<Rightarrow> h)"

definition cb_getBalance :: "'w ext_state \<Rightarrow> 'w vm_host \<Rightarrow> byte list \<Rightarrow> byte list" where
  "cb_getBalance es h addr =
     ask_state (es_undefined es 16) (\<lambda>w. case fromBigInteger (es_getBalance es w addr) of
        Inr b \<Rightarrow> b | Inl _ \<Rightarrow> es_undefined es 16) h"

definition cb_getCode :: "'w ext_state \<Rightarrow> 'w vm_host \<Rightarrow> byte list \<Rightarrow> byte list" where
  "cb_getCode es h addr =
     ask_state (es_undefined es 0) (\<lambda>w. case es_getCode es w addr of None \<Rightarrow> [] | Some code \<Rightarrow> code) h"

definition cb_getBlockHash :: "'w ext_state \<Rightarrow> 'w vm_host \<Rightarrow> i64 \<Rightarrow> byte list" where
  "cb_getBlockHash es h number =
     ask_state (es_undefined es 32) (\<lambda>w. case es_blockHash es w number of None \<Rightarrow> replicate 32 0 | Some b \<Rightarrow> b) h"

definition cb_selfDestruct :: "'w ext_state \<Rightarrow> 'w vm_host \<Rightarrow> byte list \<Rightarrow> byte list \<Rightarrow> 'w vm_host" where
  "cb_selfDestruct es h sender destination =
     (let bal = ask_state 0 (\<lambda>w. es_getBalance es w sender) h;
          nonce = ask_state 0 (\<lambda>w. es_getNonce es w sender) h;
          h = on_effects (addInternalTransaction
                (contractCallTransaction False sender destination nonce bal [] 0 1)) h;
          h = on_state (\<lambda>w. es_addBalance es w sender (- bal)) h;
          h = if sender \<noteq> destination then on_state (\<lambda>w. es_addBalance es w destination bal) h else h
      in on_effects (addToDeletedAddresses sender) h)"

text \<open>The topics arrive as one array, which is cut into pieces of 32 bytes, the last filled up with zeros.\<close>

fun topic_list :: "byte list \<Rightarrow> byte list list" where
  "topic_list [] = []"
| "topic_list (b # bs) =
     (let t = take 32 (b # bs) in (t @ replicate (32 - length t) 0) # topic_list (drop 32 (b # bs)))"

definition cb_log :: "'w vm_host \<Rightarrow> byte list \<Rightarrow> byte list \<Rightarrow> byte list list \<Rightarrow> 'w vm_host" where
  "cb_log h addr dat topics =
     on_effects (addLog \<lparr>log_address = addr, log_topics = topic_list (concat topics), log_data = dat\<rparr>) h"


section \<open>Running a contract\<close>

text \<open>\<open>Java_org_aion_fastvm_FastVM_run\<close>: the message of the native side starts uninitialised.\<close>

definition blank_message :: "byte \<Rightarrow> evm_message" where
  "blank_message junk = \<lparr>address = replicate 32 junk, caller = replicate 32 junk, msg_value = replicate 16 junk,
     msg_input = [], code_hash = replicate 32 junk, msg_gas = 0, depth = 0, kind = 0, flags = 0\<rparr>"

definition fastvm_run ::
  "platform \<Rightarrow> 'w vm_table \<Rightarrow> evm_revision \<Rightarrow> byte list \<Rightarrow> byte list \<Rightarrow> 'w vm_host \<Rightarrow> evm_result \<times> 'w vm_host" where
  "fastvm_run p tab revision code bytes h =
     (let (msg, tx) = parse_context (pf_junk p) bytes (blank_message (pf_junk p)) (vm_tx h);
          msg = msg\<lparr>code_hash := keccak code\<rparr>
      in execute p tab revision msg code (h\<lparr>vm_tx := tx\<rparr>))"

text \<open>
  \<open>runPre040Fork\<close> and \<open>runPost040Fork\<close> differ in the revision. The context and the state are objects that the
  callbacks change while they are on the stack; their final values are results.
\<close>

definition runFork ::
  "platform \<Rightarrow> 'w vm_table \<Rightarrow> evm_revision \<Rightarrow> byte list \<Rightarrow> ExecutionContext \<Rightarrow> 'w \<Rightarrow> 'w vm_host \<Rightarrow>
   FastVmTransactionResult java \<times> ExecutionContext \<times> 'w \<times> 'w vm_host" where
  "runFork p tab revision code ctx w h =
     (case context_toBytes ctx of
        Inl x \<Rightarrow> (Inl x, ctx, w, cb_push (ctx, w) h)
      | Inr (bytes, ctx) \<Rightarrow>
          let (result, h) = fastvm_run p tab revision code bytes (cb_push (ctx, w) h)
          in case vm_stack h of
               [] \<Rightarrow> (Inl NoSuchElement, ctx, w, h)
             | (ctx, w) # _ \<Rightarrow>
                 (case encode_result (pf_junk p) result of
                    None \<Rightarrow> Inl NegativeArraySize | Some b \<Rightarrow> result_fromBytes b,
                  ctx, w, cb_pop h))"

definition REVISION_AION :: evm_revision where
  "REVISION_AION = EVM_AION"

definition REVISION_AION_V1 :: evm_revision where
  "REVISION_AION_V1 = EVM_AION_V1"

definition runPre040Fork ::
  "platform \<Rightarrow> 'w vm_table \<Rightarrow> byte list \<Rightarrow> ExecutionContext \<Rightarrow> 'w \<Rightarrow> 'w vm_host \<Rightarrow>
   FastVmTransactionResult java \<times> ExecutionContext \<times> 'w \<times> 'w vm_host" where
  "runPre040Fork p tab = runFork p tab REVISION_AION"

definition runPost040Fork ::
  "platform \<Rightarrow> 'w vm_table \<Rightarrow> byte list \<Rightarrow> ExecutionContext \<Rightarrow> 'w \<Rightarrow> 'w vm_host \<Rightarrow>
   FastVmTransactionResult java \<times> ExecutionContext \<times> 'w \<times> 'w vm_host" where
  "runPost040Fork p tab = runFork p tab REVISION_AION_V1"

text \<open>The runs of nested calls; see above for a context that does not fit.\<close>

definition run_nested ::
  "'w ext_state \<Rightarrow> platform \<Rightarrow> 'w vm_table \<Rightarrow> byte list \<Rightarrow> ExecutionContext \<Rightarrow> 'w \<Rightarrow> 'w vm_host \<Rightarrow>
   FastVmTransactionResult java \<times> ExecutionContext \<times> 'w \<times> 'w vm_host" where
  "run_nested es p tab code ctx child h =
     (case context_toBytes ctx of
        Inl x \<Rightarrow> (Inl x, ctx, child, h)
      | Inr _ \<Rightarrow>
          if es_signatureSwap es child then runPost040Fork p tab code ctx child h
          else runPre040Fork p tab code ctx child h)"


section \<open>Nested calls\<close>

definition transferValue :: "ExecutionContext \<Rightarrow> int" where
  "transferValue c = toBigInteger (ec_callValue c)"

definition reject_all :: "ExecutionContext \<Rightarrow> ExecutionContext" where
  "reject_all c = c\<lparr>ec_sideEffects := markAllInternalTransactionsAsRejected (ec_sideEffects c)\<rparr>"

text \<open>The part of \<open>doCall\<close> that executes, on the child state after the transfer.\<close>

definition call_contract ::
  "'w ext_state \<Rightarrow> platform \<Rightarrow> 'w vm_table \<Rightarrow> AionAddress \<Rightarrow> ExecutionContext \<Rightarrow> 'w \<Rightarrow> 'w vm_host \<Rightarrow>
   FastVmTransactionResult java \<times> ExecutionContext \<times> 'w \<times> 'w vm_host" where
  "call_contract es p tab codeAddress ctx child h =
     (let result = newResult RC_SUCCESS (ec_nrg ctx) []
      in if es_isPrecompiled es child (ec_address ctx)
         then let (result, effects, child) = es_runPrecompiled es ctx child
              in (result, ctx\<lparr>ec_sideEffects := effects\<rparr>, child, h)
         else let code = if es_hasAccount es child codeAddress then es_getCode es child codeAddress else Some []
              in case code of
                   None \<Rightarrow> (Inr result, ctx, child, h)
                 | Some code \<Rightarrow>
                     if code = [] then (Inr result, ctx, child, h) else run_nested es p tab code ctx child h)"

definition doCall ::
  "'w ext_state \<Rightarrow> platform \<Rightarrow> 'w vm_table \<Rightarrow> ExecutionContext \<Rightarrow> 'w vm_host \<Rightarrow>
   FastVmTransactionResult java \<times> ExecutionContext \<times> 'w vm_host" where
  "doCall es p tab ctx h =
     (case vm_stack h of
        [] \<Rightarrow> (Inl NullPointer, ctx, h)
      | (current, w) # _ \<Rightarrow>
          let codeAddress = ec_address ctx;
              library = ec_kind ctx = K_CALLCODE \<or> ec_kind ctx = K_DELEGATE_CALL;
              ctx = if library then ctx\<lparr>ec_address := ec_address current\<rparr> else ctx
          in if \<not> es_destinationSafe es w codeAddress
             then (Inr (newResult INCOMPATIBLE_CONTRACT_CALL 0 []), ctx, h)
             else
               let child = es_newChild es w;
                   h = on_effects (addInternalTransaction
                         (contractCallTransaction False (ec_sender ctx) (ec_address ctx)
                           (es_getNonce es child (ec_sender ctx)) (transferValue ctx) (ec_callData ctx) 0 1)) h;
                   child = if library then child
                     else es_addBalance es (es_addBalance es child (ec_sender ctx) (- transferValue ctx))
                            (ec_address ctx) (transferValue ctx);
                   (result, ctx, child, h) = call_contract es p tab codeAddress ctx child h
               in case result of
                    Inl x \<Rightarrow> (Inl x, ctx, h)
                  | Inr r \<Rightarrow>
                      if code_toInt (res_code r) \<noteq> code_toInt RC_SUCCESS
                      then (Inr r, reject_all ctx,
                            on_effects (markMostRecentInternalTransactionAsRejected (tx_equals es)) h)
                      else (Inr r, ctx, on_state (es_commit es child) h))"

definition ENERGY_CODE_DEPOSIT :: i64 where
  "ENERGY_CODE_DEPOSIT = 1000"

text \<open>The accounts of a creation on the child state: the new account keeps its balance and receives the value.\<close>

definition create_accounts :: "'w ext_state \<Rightarrow> ExecutionContext \<Rightarrow> AionAddress \<Rightarrow> 'w \<Rightarrow> 'w" where
  "create_accounts es ctx newAddress child =
     (let oldBalance = es_getBalance es child newAddress;
          child = es_createAccount es child newAddress;
          child = es_incrementNonce es child newAddress;
          child = es_addBalance es child newAddress oldBalance;
          child = es_addBalance es child (ec_sender ctx) (- transferValue ctx);
          child = es_addBalance es child newAddress (transferValue ctx)
      in es_incrementNonce es child (ec_sender ctx))"

definition create_tx :: "'w ext_state \<Rightarrow> ExecutionContext \<Rightarrow> 'w \<Rightarrow> InternalTransaction" where
  "create_tx es ctx child =
     contractCreateTransaction False (ec_sender ctx) (es_getNonce es child (ec_sender ctx)) (transferValue ctx)
       (ec_callData ctx) 0 1"

definition doCreate ::
  "'w ext_state \<Rightarrow> platform \<Rightarrow> 'w vm_table \<Rightarrow> ExecutionContext \<Rightarrow> 'w vm_host \<Rightarrow>
   FastVmTransactionResult java \<times> ExecutionContext \<times> 'w vm_host" where
  "doCreate es p tab ctx h =
     (case vm_stack h of
        [] \<Rightarrow> (Inl NullPointer, ctx, h)
      | (current, w) # _ \<Rightarrow>
          case getExternalCapabilities h of Inl x \<Rightarrow> (Inl x, ctx, h) | Inr _ \<Rightarrow>
          let child = es_newChild es w;
              result = newResult RC_SUCCESS (ec_nrg ctx) [];
              newAddress = cap_newContractAddress es (ec_sender ctx) (es_getNonce es child (ec_sender ctx));
              ctx = ctx\<lparr>ec_address := newAddress\<rparr>;
              h = on_effects (addInternalTransaction (create_tx es ctx child)) h;
              alreadyExists = es_hasAccount es child newAddress;
              alreadyExists = (if es_fork040 es child \<and>
                  (case es_getCode es child newAddress of None \<Rightarrow> True | Some code \<Rightarrow> code = [])
                then False else alreadyExists);
              child = create_accounts es ctx newAddress child;
              ctx = ctx\<lparr>ec_sideEffects := addInternalTransaction (create_tx es ctx child) (ec_sideEffects ctx)\<rparr>;
              (result, ctx, child, h) =
                (if alreadyExists then (Inr (result\<lparr>res_code := RC_FAILURE, energyRemaining := 0\<rparr>), ctx, child, h)
                 else if ec_callData ctx \<noteq> [] then run_nested es p tab (ec_callData ctx) ctx child h
                 else (Inr result, ctx, child, h));
              reject = on_effects (markMostRecentInternalTransactionAsRejected (tx_equals es))
          in case result of
               Inl x \<Rightarrow> (Inl x, ctx, h)
             | Inr r \<Rightarrow>
                 if code_toInt (res_code r) \<noteq> code_toInt RC_SUCCESS then (Inr r, reject_all ctx, reject h)
                 else if energyRemaining r <s ENERGY_CODE_DEPOSIT
                 then (Inr (r\<lparr>res_code := RC_FAILURE, energyRemaining := 0\<rparr>), reject_all ctx, reject h)
                 else (Inr (r\<lparr>res_output := newAddress\<rparr>), ctx,
                       on_state (es_commit es (es_putCode es child newAddress (res_output r))) h))"

definition MAX_CALL_DEPTH :: "32 word" where
  "MAX_CALL_DEPTH = 128"

definition performCall ::
  "'w ext_state \<Rightarrow> platform \<Rightarrow> 'w vm_table \<Rightarrow> byte list \<Rightarrow> 'w vm_host \<Rightarrow> FastVmTransactionResult java \<times> 'w vm_host" where
  "performCall es p tab message h =
     (case vm_stack h of
        [] \<Rightarrow> (Inl NullPointer, h)
      | (current, w) # _ \<Rightarrow>
          case parseMessage current message of
            Inl x \<Rightarrow> (Inl x, h)
          | Inr ctx \<Rightarrow>
              if MAX_CALL_DEPTH <=s ec_depth ctx then (Inr (newResult RC_FAILURE 0 []), h)
              else if es_getBalance es w (ec_sender ctx) < transferValue ctx
              then (Inr (newResult RC_FAILURE 0 []), h)
              else
                let (result, ctx, h) =
                      (if ec_kind ctx = K_CREATE then doCreate es p tab ctx h else doCall es p tab ctx h)
                in case result of
                     Inl x \<Rightarrow> (Inl x, h)
                   | Inr r \<Rightarrow>
                       (Inr r,
                        if code_toInt (res_code r) = code_toInt RC_SUCCESS
                        then on_effects (merge_effects (ec_sideEffects ctx)) h
                        else on_effects (addInternalTransactions (internalTxs (ec_sideEffects ctx))) h))"

text \<open>\<open>Callback.call\<close> catches every exception, and the native \<open>call\<close> parses what it returns.\<close>

definition cb_call ::
  "'w ext_state \<Rightarrow> platform \<Rightarrow> 'w vm_table \<Rightarrow> byte list \<Rightarrow> 'w vm_host \<Rightarrow> byte list java \<times> 'w vm_host" where
  "cb_call es p tab message h =
     (let (result, h) = performCall es p tab message h
      in case bind_java result result_toBytes of
           Inr b \<Rightarrow> (Inr b, h)
         | Inl _ \<Rightarrow> (result_toBytes (newResult VM_INTERNAL_ERROR 0 []), h))"

definition jni_call ::
  "'w ext_state \<Rightarrow> platform \<Rightarrow> 'w vm_table \<Rightarrow> 'w vm_host \<Rightarrow> evm_message \<Rightarrow> evm_result \<times> 'w vm_host" where
  "jni_call es p tab h msg =
     (case encode_message (pf_junk p) msg of
        None \<Rightarrow> (failed_result EVM_INTERNAL_ERROR, h)
      | Some m \<Rightarrow>
          let (r, h) = cb_call es p tab m h
          in case r of
               Inr b \<Rightarrow> (parse_result (pf_junk p) b, h)
             | Inl _ \<Rightarrow> (failed_result EVM_INTERNAL_ERROR, h))"

text \<open>The table \<open>ctx_fn_table\<close>, and the nesting of calls.\<close>

definition vm_fns ::
  "'w ext_state \<Rightarrow> ('w vm_host \<Rightarrow> evm_message \<Rightarrow> evm_result \<times> 'w vm_host) \<Rightarrow> 'w vm_table" where
  "vm_fns es callf =
     \<lparr>account_exists = cb_exists es, get_storage = cb_getStorage es, set_storage = cb_putStorage es,
      get_balance = cb_getBalance es, get_code = cb_getCode es, selfdestruct = cb_selfDestruct es,
      host_call = callf, get_tx_context = vm_tx, get_block_hash = cb_getBlockHash es, host_log = cb_log\<rparr>"

primrec vm_call ::
  "'w ext_state \<Rightarrow> platform \<Rightarrow> nat \<Rightarrow> 'w vm_host \<Rightarrow> evm_message \<Rightarrow> evm_result \<times> 'w vm_host" where
  "vm_call es p 0 = (\<lambda>h msg. (failed_result EVM_INTERNAL_ERROR, h))"
| "vm_call es p (Suc n) = jni_call es p (vm_fns es (vm_call es p n))"

definition vm_table :: "'w ext_state \<Rightarrow> platform \<Rightarrow> 'w vm_table" where
  "vm_table es p = vm_fns es (vm_call es p 129)"

end
