(* ===== verification/Nesting.thy ===== *)
theory Nesting
  imports Callback
begin

text \<open>
  The virtual machine and its Java host together: contracts that call contracts.
\<close>


section \<open>The state between two callbacks\<close>

text \<open>
  While a contract runs, its message is the current one of the JIT compiler, the global transaction
  context is that of its context, its context is on top of the stack, changed only in its side effects, and
  the frames below are the ones that were there when it started.
\<close>

definition inside ::
  "evm_message \<Rightarrow> ExecutionContext \<Rightarrow> (ExecutionContext \<times> 'w) list \<Rightarrow> evm_tx_context \<Rightarrow> 'w vm_host \<Rightarrow> bool" where
  "inside msg c fs tx h \<longleftrightarrow>
     code_map_ok (jit h) \<and> hitThreshold (jit h) = 0 \<and> jit_currentMsg (jit h) = Some msg \<and> vm_tx h = tx \<and> vm_caps h \<and>
     (\<exists>effects w. vm_stack h = (c\<lparr>ec_sideEffects := effects\<rparr>, w) # fs)"

lemma inside_on:
  assumes "inside msg c fs tx h"
  shows "inside msg c fs tx (on_effects g h)" "inside msg c fs tx (on_state k h)"
  using assms by (auto simp: inside_def on_effects_def on_state_def)

lemma inside_effects:
  assumes "inside msg c fs tx h"
  shows "inside msg c fs tx (cb_putStorage es h a x v)" "inside msg c fs tx (cb_selfDestruct es h a b)"
    "inside msg c fs tx (cb_log h a d ts)"
  using assms
  by (auto simp: cb_putStorage_def cb_selfDestruct_def cb_log_def Let_def inside_on split: sum.splits)

text \<open>What a call function has to respect, whatever message it is given.\<close>

definition gas_bound :: "evm_message \<Rightarrow> evm_result \<Rightarrow> bool" where
  "gas_bound m r \<longleftrightarrow> (0 \<le> sint (msg_gas m) \<and> msg_gas m \<noteq> gasMax \<longrightarrow>
     0 \<le> sint (gas_left r) \<and> sint (gas_left r) \<le> sint (msg_gas m))"

definition good_call :: "('w vm_host \<Rightarrow> evm_message \<Rightarrow> evm_result \<times> 'w vm_host) \<Rightarrow> bool" where
  "good_call callf \<longleftrightarrow>
     (\<forall>msg c fs price h m. context_ok c \<and> inside msg c fs (native_tx c price) h \<longrightarrow>
        inside msg c fs (native_tx c price) (snd (callf h m)) \<and> gas_bound m (fst (callf h m)))"

lemma good_call_env:
  assumes "good_call callf" "context_ok c" "fns e = vm_fns es callf"
  shows "host_keeps (inside msg c fs (native_tx c price)) e" "host_gas_on (inside msg c fs (native_tx c price)) e"
proof -
  have "inside msg c fs (native_tx c price) (snd (callf h m))" "gas_bound m (fst (callf h m))"
    if "inside msg c fs (native_tx c price) h" for h m
    using assms(1,2) that unfolding good_call_def by blast+
  then show "host_keeps (inside msg c fs (native_tx c price)) e" "host_gas_on (inside msg c fs (native_tx c price)) e"
    by (auto simp: host_keeps_def host_gas_on_def gas_bound_def assms(3) vm_fns_def inside_effects)
qed

text \<open>The documented behaviour of the kernel that the properties rely on.\<close>

definition es_ok :: "'w ext_state \<Rightarrow> bool" where
  "es_ok es \<longleftrightarrow>
     (\<forall>a n. length (cap_newContractAddress es a n) = 32) \<and>
     (\<forall>w a c. es_getCode es w a = Some c \<longrightarrow> length c < 2 ^ 31) \<and>
     (\<forall>ctx w r effects w'. es_runPrecompiled es ctx w = (Inr r, effects, w') \<longrightarrow>
        length (res_output r) + 16 < 2 ^ 31 \<and>
        (0 \<le> sint (ec_nrg ctx) \<longrightarrow> 0 \<le> sint (energyRemaining r) \<and> sint (energyRemaining r) \<le> sint (ec_nrg ctx)))"

definition result_ok :: "ExecutionContext \<Rightarrow> FastVmTransactionResult java \<Rightarrow> bool" where
  "result_ok ctx r \<longleftrightarrow> (\<forall>x. r = Inr x \<longrightarrow> length (res_output x) + 16 < 2 ^ 31 \<and>
     (0 \<le> sint (ec_nrg ctx) \<and> ec_nrg ctx \<noteq> gasMax \<longrightarrow>
        0 \<le> sint (energyRemaining x) \<and> sint (energyRemaining x) \<le> sint (ec_nrg ctx)))"

lemma newResult_simps [simp]:
  "res_code (newResult c e out) = c" "res_output (newResult c e out) = out"
  "energyRemaining (newResult c e out) = (if 0 \<le> sint e then e else 0)"
  by (simp_all add: newResult_def checkNegativeEnergy_def word_sle_eq)


section \<open>One run\<close>

text \<open>A run leaves the stack below its own frame and everything that its caller relies on as it was.\<close>

definition resumes :: "'w vm_host \<Rightarrow> 'w vm_host \<Rightarrow> bool" where
  "resumes h h' \<longleftrightarrow> code_map_ok (jit h') \<and> hitThreshold (jit h') = hitThreshold (jit h) \<and>
     jit_currentMsg (jit h') = jit_currentMsg (jit h) \<and> vm_tx h' = vm_tx h \<and> vm_caps h' = vm_caps h \<and>
     vm_stack h' = vm_stack h"

lemma native_cong:
  "native_tx (c\<lparr>ec_callData := d\<rparr>) price = native_tx c price" "native_tx (c\<lparr>ec_sideEffects := s\<rparr>) price = native_tx c price"
  "native_tx (c\<lparr>ec_address := a\<rparr>) price = native_tx c price"
  by (simp_all add: native_tx_def)

lemma execute_inside:
  assumes jit: "code_map_ok (jit h)" "hitThreshold (jit h) = 0" and msg: "code_hash msg = keccak code"
    and code: "length code < 2 ^ 31" and found: "\<And>f. pf_found p f"
    and start: "\<And>j. code_map_ok j \<Longrightarrow> jit_currentMsg j = Some msg \<Longrightarrow> hitThreshold j = 0 \<Longrightarrow> J (h\<lparr>jit := j\<rparr>)"
    and env: "\<And>f. host_keeps J (exec_env p f tab msg code)" "\<And>f. host_gas_on J (exec_env p f tab msg code)"
  obtains res h1 where "execute p tab revision msg code h = (res, set_currentMsg (jit_currentMsg (jit h)) h1)"
    "J h1" "gas_bound msg res" "\<exists>st. status_code res = status_num st" "overdrawn (msg_gas msg) \<Longrightarrow> sint (gas_left res) \<le> 0"
proof -
  obtain f j where c: "pick_func p revision msg code (jit h) = Run f j" by (rule pick_func_runs [OF jit found])
  note run = pick_func_Run [OF jit(1) msg code c]
  obtain res h1 where r: "run_func p f tab msg code (h\<lparr>jit := j\<rparr>) = (res, h1)" by fastforce
  have J: "J (h\<lparr>jit := j\<rparr>)" using start run(1-3) jit(2) by simp
  have "J h1" using run_func_keeps [OF env(1) J, of f] r by simp
  moreover have "gas_bound msg res"
    using run_func_gas [OF env(2,1) J run(5)] r by (auto simp: gas_bound_def)
  moreover have "\<exists>st. status_code (exec_result junk out) = status_num st" for junk and out :: "'a jit_host_scheme outcome"
    by (cases out) (auto simp del: status_num.simps)
  then have "\<exists>st. status_code res = status_num st"
    using r by (auto simp: run_func_def Let_def)
  moreover have "sint (gas_left res) \<le> 0" if "overdrawn (msg_gas msg)"
    using run_func_overdrawn(2) [OF env(2,1) J run(5) that] r by simp
  ultimately show thesis using r by (intro that) (auto simp: execute_eq c)
qed

text \<open>What a run hands to the native side, and the state in which its code starts.\<close>

lemma runFork_eq:
  assumes "context_ok ctx" "context_fits ctx" "vm_tx h = native_tx ctx price"
  shows "runFork p tab revision code ctx w h =
    (let (result, h) = execute p tab revision (native_message ctx (keccak code)) code
           (cb_push (ctx\<lparr>ec_callData := native_input ctx\<rparr>, w) h)
     in case vm_stack h of
          [] \<Rightarrow> (Inl NoSuchElement, ctx\<lparr>ec_callData := native_input ctx\<rparr>, w, h)
        | (ctx, w) # _ \<Rightarrow>
            (case encode_result (pf_junk p) result of
               None \<Rightarrow> Inl NegativeArraySize | Some b \<Rightarrow> result_fromBytes b,
             ctx, w, cb_pop h))"
proof -
  let ?ctx = "ctx\<lparr>ec_callData := native_input ctx\<rparr>"
  obtain b where b: "context_toBytes ctx = Inr (b, ?ctx)" using context_toBytes_eq [OF assms(1,2)] by blast
  have tx: "native_tx ctx (tx_gas_price (vm_tx h)) = vm_tx h" by (simp add: assms(3) native_tx_def)
  show ?thesis
    using parse_context_native [OF assms(1,2) b, of "pf_junk p" "blank_message (pf_junk p)" "vm_tx h"]
    by (simp add: runFork_def b fastvm_run_def cb_push_def tx native_message_def)
qed

lemma pushed_inside:
  assumes "code_map_ok j" "jit_currentMsg j = Some msg" "hitThreshold j = 0" "vm_caps h"
  shows "inside msg ctx (vm_stack h) (vm_tx h) ((cb_push (ctx, w) h)\<lparr>jit := j\<rparr>)"
  using assms by (auto simp: inside_def cb_push_def intro: exI [of _ "ec_sideEffects ctx"])

lemma pushed_context:
  assumes "context_ok ctx" "vm_tx h = native_tx ctx price"
  shows "context_ok (ctx\<lparr>ec_callData := native_input ctx\<rparr>)"
    "vm_tx h = native_tx (ctx\<lparr>ec_callData := native_input ctx\<rparr>) price"
  using assms by (simp_all add: context_ok_def native_input_def native_cong)

lemma pushed_env:
  assumes "good_call callf" "context_ok ctx" "vm_tx h = native_tx ctx price" "fns e = vm_fns es callf"
  defines "ctx' \<equiv> ctx\<lparr>ec_callData := native_input ctx\<rparr>"
  shows "host_keeps (inside msg ctx' (vm_stack h) (vm_tx h)) e" "host_gas_on (inside msg ctx' (vm_stack h) (vm_tx h)) e"
  using good_call_env [OF assms(1) pushed_context(1) [OF assms(2,3)] assms(4), of msg "vm_stack h" price]
    pushed_context(2) [OF assms(2,3)] by (simp_all add: ctx'_def)

lemma status_accepted: "\<exists>c. code_fromInt (status_num st) = Inr c \<and> \<not> isRejected c"
proof -
  obtain c where "code_fromInt (status_num st) = Inr c" "code_toInt c = status_num st" using status_known by blast
  then show ?thesis by (cases st; cases c) (auto simp: isRejected_def)
qed

lemma runFork_run:
  assumes call: "good_call callf" and ctx: "context_ok ctx" "context_fits ctx" "vm_tx h = native_tx ctx price"
    and code: "length code < 2 ^ 31" and found: "\<And>f. pf_found p f"
    and jit: "code_map_ok (jit h)" "hitThreshold (jit h) = 0" "vm_caps h"
  obtains r effects w' h' where
    "runFork p (vm_fns es callf) revision code ctx w h =
       (r, ctx\<lparr>ec_callData := native_input ctx, ec_sideEffects := effects\<rparr>, w', h')"
    "resumes h h'" "result_ok ctx r"
    "\<And>x. r = Inr x \<Longrightarrow> \<not> isRejected (res_code x) \<and> 0 \<le> sint (energyRemaining x) \<and>
       (overdrawn (ec_nrg ctx) \<longrightarrow> energyRemaining x = 0)"
proof -
  let ?ctx = "ctx\<lparr>ec_callData := native_input ctx\<rparr>" and ?tab = "vm_fns es callf"
  let ?msg = "native_message ctx (keccak code)" and ?h = "cb_push (ctx\<lparr>ec_callData := native_input ctx\<rparr>, w) h"
  let ?J = "inside ?msg ?ctx (vm_stack h) (vm_tx h)"
  have fields: "jit ?h = jit h" "code_hash ?msg = keccak code" "msg_gas ?msg = ec_nrg ctx"
    by (simp_all add: cb_push_def native_message_def)
  obtain res h1 where ex: "execute p ?tab revision ?msg code ?h = (res, set_currentMsg (jit_currentMsg (jit ?h)) h1)"
    "?J h1" "gas_bound ?msg res" "\<exists>st. status_code res = status_num st"
    "overdrawn (msg_gas ?msg) \<Longrightarrow> sint (gas_left res) \<le> 0"
  proof (rule execute_inside [where h = ?h and msg = ?msg and J = ?J and p = p and tab = ?tab and code = code
        and revision = revision])
  qed (use jit found code fields pushed_inside pushed_env [OF call ctx(1,3)] in simp_all)
  obtain effects w' where stack: "vm_stack h1 = (?ctx\<lparr>ec_sideEffects := effects\<rparr>, w') # vm_stack h"
    using ex(2) by (auto simp: inside_def)
  let ?h' = "cb_pop (set_currentMsg (jit_currentMsg (jit h)) h1)"
  let ?r = "case encode_result (pf_junk p) res of None \<Rightarrow> Inl NegativeArraySize | Some b \<Rightarrow> result_fromBytes b"
  obtain c where c: "code_fromInt (status_code res) = Inr c" "\<not> isRejected c" using ex(4) status_accepted by metis
  have r: "length (output_data res) + 16 < 2 ^ 31 \<and> x = newResult c (gas_left res) (output_data res)" if "?r = Inr x" for x
    using that result_fromBytes_native [of res, OF _ c(1), of "pf_junk p"] encode_result_None [of "pf_junk p" res]
    by (cases "encode_result (pf_junk p) res") auto
  then have "result_ok ctx ?r" using ex(3) by (auto simp: result_ok_def gas_bound_def fields)
  moreover have "resumes h ?h'"
    using ex(2) code_map_steps(3) stack jit(2,3) by (simp add: resumes_def inside_def cb_pop_def set_currentMsg_def)
  moreover have "runFork p ?tab revision code ctx w h = (?r, ?ctx\<lparr>ec_sideEffects := effects\<rparr>, w', ?h')"
    by (simp add: runFork_eq [OF ctx] ex(1) fields set_currentMsg_def stack)
  moreover have "\<not> isRejected (res_code x) \<and> 0 \<le> sint (energyRemaining x) \<and>
      (overdrawn (ec_nrg ctx) \<longrightarrow> energyRemaining x = 0)" if "?r = Inr x" for x
  proof -
    have "energyRemaining x = (if 0 \<le> sint (gas_left res) then gas_left res else 0)" "\<not> isRejected (res_code x)"
      using r [OF that] c(2) by simp_all
    moreover have "gas_left res = 0" if "overdrawn (ec_nrg ctx)" "0 \<le> sint (gas_left res)"
      using ex(5) that fields(3) by (metis antisym signed_eq_0_iff)
    ultimately show ?thesis by simp
  qed
  ultimately show thesis using that by blast
qed

lemma run_nested_run:
  assumes "good_call callf" "context_ok ctx" "vm_tx h = native_tx ctx price" "length code < 2 ^ 31"
    "\<And>f. pf_found p f" "code_map_ok (jit h)" "hitThreshold (jit h) = 0" "vm_caps h"
  obtains r ctx' w' h' where "run_nested es p (vm_fns es callf) code ctx w h = (r, ctx', w', h')"
    "resumes h h'" "result_ok ctx r"
proof (cases "context_fits ctx")
  case True
  let ?rev = "if es_signatureSwap es w then REVISION_AION_V1 else REVISION_AION"
  have "run_nested es p (vm_fns es callf) code ctx w h = runFork p (vm_fns es callf) ?rev code ctx w h"
    by (simp add: run_nested_def context_toBytes_eq [OF assms(2) True] runPre040Fork_def runPost040Fork_def)
  with runFork_run [OF assms(1,2) True assms(3-8), of es ?rev w] show thesis using that by metis
next
  case False
  with assms(6) show thesis
    by (intro that [of "Inl IllegalArgument" ctx w h])
      (simp_all add: run_nested_def context_toBytes_overflow [OF assms(2)] resumes_def result_ok_def)
qed

lemma resumes_inside: "inside msg c fs tx h \<Longrightarrow> resumes h h' \<Longrightarrow> inside msg c fs tx h'"
  by (simp add: inside_def resumes_def)

lemma insideE:
  assumes "inside msg c fs tx h"
  obtains effects w where "vm_stack h = (c\<lparr>ec_sideEffects := effects\<rparr>, w) # fs" "vm_tx h = tx"
    "code_map_ok (jit h)" "hitThreshold (jit h) = 0" "vm_caps h"
  using assms by (auto simp: inside_def)


section \<open>One call\<close>

text \<open>A call that does not succeed keeps the state, the logs and the deleted accounts of its caller.\<close>

definition kept_world :: "'w vm_host \<Rightarrow> 'w vm_host \<Rightarrow> bool" where
  "kept_world h h' \<longleftrightarrow> (\<exists>c c' w fs. vm_stack h = (c, w) # fs \<and> vm_stack h' = (c', w) # fs \<and>
     logs (ec_sideEffects c') = logs (ec_sideEffects c) \<and>
     deleteAccounts (ec_sideEffects c') = deleteAccounts (ec_sideEffects c))"

definition keeps_world :: "(SideEffects \<Rightarrow> SideEffects) \<Rightarrow> bool" where
  "keeps_world g \<longleftrightarrow> (\<forall>s. logs (g s) = logs s \<and> deleteAccounts (g s) = deleteAccounts s)"

lemma keeps_worldI [simp]:
  "keeps_world (addInternalTransaction t)" "keeps_world (addInternalTransactions ts)"
  "keeps_world (markMostRecentInternalTransactionAsRejected eq)"
  by (simp_all add: keeps_world_def addInternalTransaction_def addInternalTransactions_eq
      markMostRecentInternalTransactionAsRejected_def Let_def)

lemma kept_world_trans: "kept_world h h' \<Longrightarrow> kept_world h' h'' \<Longrightarrow> kept_world h h''"
  by (force simp: kept_world_def)

lemma kept_world_on: "keeps_world g \<Longrightarrow> vm_stack h \<noteq> [] \<Longrightarrow> kept_world h (on_effects g h)"
  by (auto simp: kept_world_def keeps_world_def on_effects_def neq_Nil_conv)

lemma kept_world_resumes: "vm_stack h \<noteq> [] \<Longrightarrow> resumes h h' \<Longrightarrow> kept_world h h'"
  by (auto simp: kept_world_def resumes_def neq_Nil_conv)

definition succeeded :: "FastVmTransactionResult java \<Rightarrow> bool" where
  "succeeded r \<longleftrightarrow> (\<exists>x. r = Inr x \<and> res_code x = RC_SUCCESS)"

lemma code_toInt_inject: "code_toInt c = code_toInt d \<longleftrightarrow> c = d"
  by (metis code_roundtrip sum.inject(2))

lemma call_contract_run:
  assumes call: "good_call callf" and es: "es_ok es" and ctx: "context_ok ctx" "vm_tx h = native_tx ctx price"
    and found: "\<And>f. pf_found p f" and jit: "code_map_ok (jit h)" "hitThreshold (jit h) = 0" "vm_caps h"
  obtains r ctx' w' h' where "call_contract es p (vm_fns es callf) a ctx w h = (r, ctx', w', h')"
    "resumes h h'" "result_ok ctx r"
proof -
  have self: "resumes h h" using jit(1) by (simp add: resumes_def)
  have quiet: "result_ok ctx (Inr (newResult RC_SUCCESS (ec_nrg ctx) []))" by (simp add: result_ok_def)
  show thesis
  proof (cases "es_isPrecompiled es w (ec_address ctx)")
    case True
    obtain r effects w' where run: "es_runPrecompiled es ctx w = (r, effects, w')" by (metis prod_cases3)
    have "result_ok ctx r" using es run unfolding es_ok_def result_ok_def by blast
    with True run self show ?thesis by (intro that) (simp_all add: call_contract_def Let_def)
  next
    case False
    let ?code = "if es_hasAccount es w a then es_getCode es w a else Some []"
    show ?thesis
    proof (cases "?code = None \<or> ?code = Some []")
      case True
      with False self quiet show ?thesis by (intro that) (auto simp: call_contract_def Let_def)
    next
      case nonempty: False
      then obtain code where code: "?code = Some code" "code \<noteq> []" by auto
      then have "length code < 2 ^ 31" using es by (auto simp: es_ok_def split: if_splits)
      from run_nested_run [OF call ctx this found jit, of es w]
      obtain r ctx' w' h' where "run_nested es p (vm_fns es callf) code ctx w h = (r, ctx', w', h')"
        "resumes h h'" "result_ok ctx r" by metis
      with False code show ?thesis by (intro that) (auto simp: call_contract_def Let_def)
    qed
  qed
qed

lemma doCall_run:
  assumes call: "good_call callf" and es: "es_ok es" and found: "\<And>f. pf_found p f"
    and ctx: "context_ok ctx" "native_tx ctx price = native_tx c price"
    and c: "context_ok c" "inside msg c fs (native_tx c price) h"
  obtains r ctx' h' where "doCall es p (vm_fns es callf) ctx h = (r, ctx', h')"
    "inside msg c fs (native_tx c price) h'" "result_ok ctx r" "\<not> succeeded r \<Longrightarrow> kept_world h h'"
proof -
  obtain effects w where h: "vm_stack h = (c\<lparr>ec_sideEffects := effects\<rparr>, w) # fs" using c(2) by (rule insideE)
  have cur: "ec_address (c\<lparr>ec_sideEffects := effects\<rparr>) = ec_address c" by simp
  let ?lib = "ec_kind ctx = K_CALLCODE \<or> ec_kind ctx = K_DELEGATE_CALL"
  define ctx1 where "ctx1 = (if ?lib then ctx\<lparr>ec_address := ec_address c\<rparr> else ctx)"
  define tx where "tx = contractCallTransaction False (ec_sender ctx1) (ec_address ctx1)
    (es_getNonce es (es_newChild es w) (ec_sender ctx1)) (transferValue ctx1) (ec_callData ctx1) 0 1"
  define h1 where "h1 = on_effects (addInternalTransaction tx) h"
  define w1 where "w1 = (if ?lib then es_newChild es w else es_addBalance es
    (es_addBalance es (es_newChild es w) (ec_sender ctx1) (- transferValue ctx1)) (ec_address ctx1) (transferValue ctx1))"
  have ctx1: "context_ok ctx1" "native_tx ctx1 price = native_tx c price" "result_ok ctx1 = result_ok ctx"
    using ctx c(1) by (auto simp: ctx1_def context_ok_def native_cong result_ok_def fun_eq_iff)
  have h1: "inside msg c fs (native_tx c price) h1" "kept_world h h1"
    using c(2) h by (simp_all add: h1_def inside_on kept_world_on)
  show thesis
  proof (cases "es_destinationSafe es w (ec_address ctx)")
    case False
    with h c(2) show ?thesis
      by (intro that [of "Inr (newResult INCOMPATIBLE_CONTRACT_CALL 0 [])" _ h])
        (auto simp: doCall_def Let_def result_ok_def kept_world_def)
  next
    case True
    have pre: "vm_tx h1 = native_tx ctx1 price" "code_map_ok (jit h1)" "hitThreshold (jit h1) = 0" "vm_caps h1"
      using h1(1) ctx1(2) by (auto simp: inside_def)
    obtain r ctx' w' h2 where run: "call_contract es p (vm_fns es callf) (ec_address ctx) ctx1 w1 h1 = (r, ctx', w', h2)"
      "resumes h1 h2" "result_ok ctx1 r"
      using call_contract_run [OF call es ctx1(1) pre(1) found pre(2-4), of "ec_address ctx" w1] by metis
    have h2: "inside msg c fs (native_tx c price) h2" "kept_world h h2" "vm_stack h2 \<noteq> []"
      using resumes_inside [OF h1(1) run(2)] kept_world_trans [OF h1(2) kept_world_resumes] run(2) h1(1)
      by (auto simp: inside_def)
    have eq: "doCall es p (vm_fns es callf) ctx h = (case r of Inl x \<Rightarrow> (Inl x, ctx', h2)
        | Inr x \<Rightarrow> if res_code x \<noteq> RC_SUCCESS
            then (Inr x, reject_all ctx', on_effects (markMostRecentInternalTransactionAsRejected (tx_equals es)) h2)
            else (Inr x, ctx', on_state (es_commit es w') h2))"
      unfolding doCall_def h list.case prod.case Let_def cur ctx1_def [symmetric] tx_def [symmetric]
        h1_def [symmetric] w1_def [symmetric] run(1) code_toInt_inject using True by simp
    note rejected = kept_world_trans [OF h2(2) kept_world_on [OF keeps_worldI(3) h2(3)]]
    show ?thesis
    proof (cases "\<exists>x. r = Inr x \<and> res_code x \<noteq> RC_SUCCESS")
      case True
      with h2 run(3) rejected show ?thesis
        by (intro that [of r "reject_all ctx'" "on_effects (markMostRecentInternalTransactionAsRejected (tx_equals es)) h2"])
          (auto simp: eq ctx1(3) inside_on)
    next
      case False
      with h2 run(3) show ?thesis
        by (intro that [of r ctx' "case r of Inl x \<Rightarrow> h2 | Inr x \<Rightarrow> on_state (es_commit es w') h2"])
          (auto simp: eq ctx1(3) inside_on succeeded_def split: sum.splits)
    qed
  qed
qed

text \<open>The code of a creation, after its accounts are made.\<close>

lemma create_contract_run:
  assumes call: "good_call callf" and ctx: "context_ok ctx" "vm_tx h = native_tx ctx price"
    and found: "\<And>f. pf_found p f" and jit: "code_map_ok (jit h)" "hitThreshold (jit h) = 0" "vm_caps h"
  obtains r ctx' w' h' where
    "(if already then (Inr ((newResult RC_SUCCESS (ec_nrg ctx) [])\<lparr>res_code := RC_FAILURE, energyRemaining := 0\<rparr>), ctx, w, h)
      else if ec_callData ctx \<noteq> [] then run_nested es p (vm_fns es callf) (ec_callData ctx) ctx w h
      else (Inr (newResult RC_SUCCESS (ec_nrg ctx) []), ctx, w, h)) = (r, ctx', w', h')"
    "resumes h h'" "result_ok ctx r"
proof -
  have self: "resumes h h" using jit(1) by (simp add: resumes_def)
  have len: "length (ec_callData ctx) < 2 ^ 31" using ctx(1) by (simp add: context_ok_def)
  from run_nested_run [OF call ctx len found jit, of es w]
  obtain r ctx' w' h' where "run_nested es p (vm_fns es callf) (ec_callData ctx) ctx w h = (r, ctx', w', h')"
    "resumes h h'" "result_ok ctx r" by metis
  with self show thesis
    by (intro that [of "if already then Inr ((newResult RC_SUCCESS (ec_nrg ctx) [])\<lparr>res_code := RC_FAILURE, energyRemaining := 0\<rparr>)
        else if ec_callData ctx \<noteq> [] then r else Inr (newResult RC_SUCCESS (ec_nrg ctx) [])"
      "if already \<or> ec_callData ctx = [] then ctx else ctx'" "if already \<or> ec_callData ctx = [] then w else w'"
      "if already \<or> ec_callData ctx = [] then h else h'"])
      (auto simp: result_ok_def)
qed

lemma doCreate_run:
  assumes call: "good_call callf" and es: "es_ok es" and found: "\<And>f. pf_found p f"
    and ctx: "context_ok ctx" "native_tx ctx price = native_tx c price"
    and c: "inside msg c fs (native_tx c price) h"
  obtains r ctx' h' where "doCreate es p (vm_fns es callf) ctx h = (r, ctx', h')"
    "inside msg c fs (native_tx c price) h'" "result_ok ctx r" "\<not> succeeded r \<Longrightarrow> kept_world h h'"
proof -
  obtain effects w where h: "vm_stack h = (c\<lparr>ec_sideEffects := effects\<rparr>, w) # fs" "vm_caps h" using c by (rule insideE)
  define w0 where "w0 = es_newChild es w"
  define a where "a = cap_newContractAddress es (ec_sender ctx) (es_getNonce es w0 (ec_sender ctx))"
  define ctx1 where "ctx1 = ctx\<lparr>ec_address := a\<rparr>"
  define h1 where "h1 = on_effects (addInternalTransaction (create_tx es ctx1 w0)) h"
  define already where "already = (if es_fork040 es w0 \<and>
      (case es_getCode es w0 a of None \<Rightarrow> True | Some code \<Rightarrow> code = []) then False else es_hasAccount es w0 a)"
  define w1 where "w1 = create_accounts es ctx1 a w0"
  define ctx2 where "ctx2 = ctx1\<lparr>ec_sideEffects := addInternalTransaction (create_tx es ctx1 w1) (ec_sideEffects ctx1)\<rparr>"
  let ?reject = "on_effects (markMostRecentInternalTransactionAsRejected (tx_equals es))"
  have a: "length a = 32" using es by (simp add: es_ok_def a_def)
  have ctx2: "context_ok ctx2" "native_tx ctx2 price = native_tx c price" "result_ok ctx2 = result_ok ctx"
    "ec_callData ctx2 = ec_callData ctx" "ec_nrg ctx2 = ec_nrg ctx"
    using ctx a by (simp_all add: ctx2_def ctx1_def context_ok_def native_tx_def result_ok_def fun_eq_iff)
  have h1: "inside msg c fs (native_tx c price) h1" "kept_world h h1"
    using c h by (simp_all add: h1_def inside_on kept_world_on)
  then have pre: "vm_tx h1 = native_tx ctx2 price" "code_map_ok (jit h1)" "hitThreshold (jit h1) = 0" "vm_caps h1"
    using ctx2(2) by (auto simp: inside_def)
  obtain r ctx' w' h2 where run:
    "(if already then (Inr ((newResult RC_SUCCESS (ec_nrg ctx2) [])\<lparr>res_code := RC_FAILURE, energyRemaining := 0\<rparr>), ctx2, w1, h1)
      else if ec_callData ctx2 \<noteq> [] then run_nested es p (vm_fns es callf) (ec_callData ctx2) ctx2 w1 h1
      else (Inr (newResult RC_SUCCESS (ec_nrg ctx2) []), ctx2, w1, h1)) = (r, ctx', w', h2)"
    "resumes h1 h2" "result_ok ctx2 r"
    using create_contract_run [OF call ctx2(1) pre(1) found pre(2-4), of already w1 es] by metis
  have h2: "inside msg c fs (native_tx c price) h2" "kept_world h h2" "vm_stack h2 \<noteq> []"
    using resumes_inside [OF h1(1) run(2)] kept_world_trans [OF h1(2) kept_world_resumes] run(2) h1(1)
    by (auto simp: inside_def)
  note rejected = kept_world_trans [OF h2(2) kept_world_on [OF keeps_worldI(3) h2(3)]]
  have eq: "doCreate es p (vm_fns es callf) ctx h = (case r of Inl x \<Rightarrow> (Inl x, ctx', h2)
      | Inr x \<Rightarrow> if res_code x \<noteq> RC_SUCCESS then (Inr x, reject_all ctx', ?reject h2)
          else if energyRemaining x <s ENERGY_CODE_DEPOSIT
          then (Inr (x\<lparr>res_code := RC_FAILURE, energyRemaining := 0\<rparr>), reject_all ctx', ?reject h2)
          else (Inr (x\<lparr>res_output := a\<rparr>), ctx', on_state (es_commit es (es_putCode es w' a (res_output x))) h2))"
    unfolding doCreate_def h list.case prod.case Let_def w0_def [symmetric] a_def [symmetric] ctx1_def [symmetric]
      h1_def [symmetric] already_def [symmetric] w1_def [symmetric] ctx2_def [symmetric] ctx2(5) [symmetric]
      run(1) code_toInt_inject by (simp add: h(2) getExternalCapabilities_def)
  have ok: "result_ok ctx r" using run(3) by (simp add: ctx2(3))
  consider "\<exists>x. r = Inl x" | x where "r = Inr x" "res_code x \<noteq> RC_SUCCESS"
    | x where "r = Inr x" "res_code x = RC_SUCCESS" "energyRemaining x <s ENERGY_CODE_DEPOSIT"
    | x where "r = Inr x" "res_code x = RC_SUCCESS" "\<not> energyRemaining x <s ENERGY_CODE_DEPOSIT"
    by (cases r) auto
  then show thesis
  proof cases
    case 1
    then show ?thesis using h2 ok by (intro that [of r ctx' h2]) (auto simp: eq)
  next
    case 2
    then show ?thesis using h2 ok rejected inside_on(1) by (intro that [of r "reject_all ctx'" "?reject h2"]) (simp_all add: eq)
  next
    case (3 x)
    then show ?thesis
      using h2 ok rejected inside_on(1)
      by (intro that [of "Inr (x\<lparr>res_code := RC_FAILURE, energyRemaining := 0\<rparr>)" "reject_all ctx'" "?reject h2"])
        (simp_all add: eq result_ok_def)
  next
    case (4 x)
    then show ?thesis
      using h2 ok a inside_on(2)
      by (intro that [of "Inr (x\<lparr>res_output := a\<rparr>)" ctx' "on_state (es_commit es (es_putCode es w' a (res_output x))) h2"])
        (simp_all add: eq result_ok_def succeeded_def)
  qed
qed

lemma encoded_small:
  assumes "encode_message junk m = Some b"
  shows "length (msg_input m) + 104 < 2 ^ 31" "length (msg_input m) < 2 ^ 31"
  using encode_message_None [of junk m] assms by auto

lemma parseMessage_any:
  assumes "encode_message junk m = Some b"
  obtains (known) knd where "parseMessage prev b =
      Inr (callee_context prev (m\<lparr>address := read_mem junk (address m) 0 32,
        caller := read_mem junk (caller m) 0 32, msg_value := read_mem junk (msg_value m) 0 16\<rparr>) knd)"
  | (unknown) "parseMessage prev b = Inl IllegalArgument"
proof (cases "kind_fromInt (kind m)")
  case (Inl x)
  then have "x = IllegalArgument" by (simp add: kind_fromInt_def split: if_splits)
  moreover have "parseMessage prev b = Inl x"
    using assms unfolding encode_message_parts [OF encoded_small(1) [OF assms]]
    by (auto simp: parseMessage_def buf_getArray_append [OF encoded_small(2) [OF assms]] Inl)
  ultimately show ?thesis using unknown by simp
next
  case (Inr knd)
  then have "kind m = kind_intValue knd" by (auto simp: kind_fromInt_def split: if_splits)
  then show ?thesis using known parseMessage_parts [OF encoded_small(1) [OF assms] _ assms] by blast
qed

lemma callee_context_ok:
  assumes "context_ok c" "message_ok m"
  shows "context_ok (callee_context (c\<lparr>ec_sideEffects := s\<rparr>) m knd)"
    "native_tx (callee_context (c\<lparr>ec_sideEffects := s\<rparr>) m knd) price = native_tx c price"
  using assms by (simp_all add: context_ok_def message_ok_def callee_context_def native_tx_def)

lemma performCall_run:
  assumes call: "good_call callf" and es: "es_ok es" and found: "\<And>f. pf_found p f" and c: "context_ok c"
    "inside msg c fs (native_tx c price) h" and m: "encode_message (pf_junk p) m = Some b"
  obtains r h' where "performCall es p (vm_fns es callf) b h = (r, h')"
    "inside msg c fs (native_tx c price) h'" "\<not> succeeded r \<Longrightarrow> kept_world h h'"
    "\<And>x. r = Inr x \<Longrightarrow> length (res_output x) + 16 < 2 ^ 31 \<and> (0 \<le> sint (msg_gas m) \<and> msg_gas m \<noteq> gasMax \<longrightarrow>
      0 \<le> sint (energyRemaining x) \<and> sint (energyRemaining x) \<le> sint (msg_gas m))"
proof -
  obtain effects w where h: "vm_stack h = (c\<lparr>ec_sideEffects := effects\<rparr>, w) # fs" using c(2) by (rule insideE)
  have same: "kept_world h h" by (auto simp: kept_world_def h)
  show thesis
    using m
  proof (cases rule: parseMessage_any [where prev = "c\<lparr>ec_sideEffects := effects\<rparr>"])
    case unknown
    with h c(2) same show ?thesis by (intro that [of "Inl IllegalArgument" h]) (simp_all add: performCall_def)
  next
    case (known knd)
    define ctx where "ctx = callee_context (c\<lparr>ec_sideEffects := effects\<rparr>) (m\<lparr>address := read_mem (pf_junk p) (address m) 0 32,
      caller := read_mem (pf_junk p) (caller m) 0 32, msg_value := read_mem (pf_junk p) (msg_value m) 0 16\<rparr>) knd"
    have ctx: "context_ok ctx" "native_tx ctx price = native_tx c price" "ec_nrg ctx = msg_gas m"
      using callee_context_ok [OF c(1)] encoded_small(1) [OF m]
      by (simp_all add: ctx_def message_ok_def, simp add: callee_context_def)
    let ?fail = "MAX_CALL_DEPTH <=s ec_depth ctx \<or> es_getBalance es w (ec_sender ctx) < transferValue ctx"
    show ?thesis
    proof (cases ?fail)
      case True
      with h c(2) same known show ?thesis
        by (intro that [of "Inr (newResult RC_FAILURE 0 [])" h]) (auto simp: performCall_def ctx_def)
    next
      case False
      obtain r ctx' h' where run:
        "(if ec_kind ctx = K_CREATE then doCreate es p (vm_fns es callf) ctx h else doCall es p (vm_fns es callf) ctx h) = (r, ctx', h')"
        "inside msg c fs (native_tx c price) h'" "result_ok ctx r" "\<not> succeeded r \<Longrightarrow> kept_world h h'"
      proof (cases "ec_kind ctx = K_CREATE")
        case True
        with that show ?thesis using doCreate_run [OF call es found ctx(1,2) c(2)] by metis
      next
        case False
        with that show ?thesis using doCall_run [OF call es found ctx(1,2) c] by metis
      qed
      let ?h = "case r of Inl x \<Rightarrow> h' | Inr x \<Rightarrow> if res_code x = RC_SUCCESS
          then on_effects (merge_effects (ec_sideEffects ctx')) h'
          else on_effects (addInternalTransactions (internalTxs (ec_sideEffects ctx'))) h'"
      have "performCall es p (vm_fns es callf) b h = (r, ?h)"
        using False unfolding performCall_def h list.case prod.case known ctx_def [symmetric] sum.case Let_def
          run(1) code_toInt_inject by (simp split: sum.splits)
      moreover have "inside msg c fs (native_tx c price) ?h" using run(2) by (auto simp: inside_on split: sum.splits)
      moreover have "vm_stack h' \<noteq> []" using run(2) by (auto simp: inside_def)
      then have "kept_world h ?h" if "\<not> succeeded r"
        using run(4) that kept_world_trans [OF _ kept_world_on [OF keeps_worldI(2)]]
        by (auto simp: succeeded_def split: sum.splits)
      ultimately show ?thesis using run(3) that by (simp add: result_ok_def ctx(3))
    qed
  qed
qed

lemma jni_call_run:
  assumes "good_call callf" "es_ok es" "\<And>f. pf_found p f" "context_ok c" "inside msg c fs (native_tx c price) h"
  obtains r h' code where "jni_call es p (vm_fns es callf) h m = (r, h')"
    "inside msg c fs (native_tx c price) h'" "gas_bound m r" "length (output_data r) < 2 ^ 31"
    "status_code r = code_toInt code" "code \<noteq> RC_SUCCESS \<Longrightarrow> kept_world h h'"
proof -
  have err: "status_num EVM_INTERNAL_ERROR = code_toInt VM_INTERNAL_ERROR" by simp
  have same: "kept_world h h" using assms(5) by (auto simp: kept_world_def inside_def)
  have fail: "gas_bound m (failed_result EVM_INTERNAL_ERROR)"
    "status_code (failed_result EVM_INTERNAL_ERROR) = code_toInt VM_INTERNAL_ERROR"
    by (simp_all add: gas_bound_def failed_result_def)
  show thesis
  proof (cases "encode_message (pf_junk p) m")
    case None
    with fail same assms(5) show ?thesis
      by (intro that [of "failed_result EVM_INTERNAL_ERROR" h VM_INTERNAL_ERROR])
        (simp_all add: jni_call_def failed_result_def del: status_num.simps)
  next
    case m: (Some y)
    obtain r h' where run: "performCall es p (vm_fns es callf) y h = (r, h')"
      "inside msg c fs (native_tx c price) h'" "\<not> succeeded r \<Longrightarrow> kept_world h h'"
      "\<And>x. r = Inr x \<Longrightarrow> length (res_output x) + 16 < 2 ^ 31 \<and> (0 \<le> sint (msg_gas m) \<and> msg_gas m \<noteq> gasMax \<longrightarrow>
        0 \<le> sint (energyRemaining x) \<and> sint (energyRemaining x) \<le> sint (msg_gas m))"
      using performCall_run [OF assms m] by metis
    define x where "x = (case r of Inr x \<Rightarrow> x | Inl _ \<Rightarrow> newResult VM_INTERNAL_ERROR 0 [])"
    have x: "length (res_output x) + 16 < 2 ^ 31" "0 \<le> sint (msg_gas m) \<and> msg_gas m \<noteq> gasMax \<longrightarrow>
        0 \<le> sint (energyRemaining x) \<and> sint (energyRemaining x) \<le> sint (msg_gas m)"
      "res_code x \<noteq> RC_SUCCESS \<Longrightarrow> \<not> succeeded r"
      using run(4) by (auto simp: x_def succeeded_def split: sum.splits)
    obtain b where b: "result_toBytes x = Inr b" using result_toBytes_total [OF x(1)] by blast
    have "cb_call es p (vm_fns es callf) y h = (Inr b, h')"
      using b by (cases r) (auto simp: cb_call_def run(1) x_def)
    with m parse_result_native [OF x(1) b] run(2,3) x show ?thesis
      by (intro that [of "parse_result (pf_junk p) b" h' "res_code x"]) (simp_all add: jni_call_def gas_bound_def)
  qed
qed

lemma vm_call_good:
  fixes es :: "'w ext_state"
  assumes "es_ok es" "\<And>f. pf_found p f"
  shows "good_call (vm_call es p n)"
proof (induction n)
  case 0
  then show ?case by (simp add: good_call_def gas_bound_def failed_result_def)
next
  case (Suc n)
  show ?case
    unfolding good_call_def
  proof (intro allI impI)
    fix msg c price m and fs :: "(ExecutionContext \<times> 'w) list" and h :: "'w vm_host"
    assume "context_ok c \<and> inside msg c fs (native_tx c price) h"
    then show "inside msg c fs (native_tx c price) (snd (vm_call es p (Suc n) h m)) \<and>
        gas_bound m (fst (vm_call es p (Suc n) h m))"
      using jni_call_run [OF Suc.IH assms, of c msg fs price h m] by (metis fst_conv snd_conv vm_call.simps(2))
  qed
qed


section \<open>The depth of nesting\<close>

text \<open>Two call functions that agree one level deeper give the same runs, and so the same calls.\<close>

lemma exec_env_with_call: "exec_env p f (vm_fns es g) msg code = with_call g (exec_env p f (vm_fns es k) msg code)"
  by (simp add: exec_env_def with_call_def vm_fns_def)

lemma execute_agree:
  assumes jit: "code_map_ok (jit h)" "hitThreshold (jit h) = 0" and msg: "code_hash msg = keccak code"
    and code: "length code < 2 ^ 31" and found: "\<And>f. pf_found p f"
    and start: "\<And>j. code_map_ok j \<Longrightarrow> jit_currentMsg j = Some msg \<Longrightarrow> hitThreshold j = 0 \<Longrightarrow> J (h\<lparr>jit := j\<rparr>)"
    and env: "\<And>f. host_keeps J (exec_env p f (vm_fns es k) msg code)"
    and agree: "\<And>h m. J h \<Longrightarrow> depth m = depth msg + 1 \<Longrightarrow> g h m = k h m"
  shows "execute p (vm_fns es g) revision msg code h = execute p (vm_fns es k) revision msg code h"
proof -
  obtain f j where c: "pick_func p revision msg code (jit h) = Run f j" by (rule pick_func_runs [OF jit found])
  let ?e = "exec_env p f (vm_fns es k) msg code" and ?s = "exec_rt msg (h\<lparr>jit := j\<rparr>)"
  have J: "J (h\<lparr>jit := j\<rparr>)" using start pick_func_Run(1-3) [OF jit(1) msg code c] jit(2) by simp
  have ag: "agrees J g ?e" using agree by (auto simp: agrees_def vm_fns_def)
  have "run_func p f (vm_fns es g) msg code (h\<lparr>jit := j\<rparr>) = run_func p f (vm_fns es k) msg code (h\<lparr>jit := j\<rparr>)"
    unfolding run_func_def Let_def exec_env_with_call [of p f es g msg code k]
    using agree_main [OF ag env, of ?s] agree_run(2) [OF ag env, of ?s] J by simp
  then show ?thesis by (simp add: execute_eq c)
qed

text \<open>Agreement on the messages of a depth, in every state that occurs.\<close>

definition agree_at ::
  "32 word \<Rightarrow> ('w vm_host \<Rightarrow> evm_message \<Rightarrow> evm_result \<times> 'w vm_host) \<Rightarrow>
   ('w vm_host \<Rightarrow> evm_message \<Rightarrow> evm_result \<times> 'w vm_host) \<Rightarrow> bool" where
  "agree_at d g k \<longleftrightarrow> (\<forall>msg c fs price h m. context_ok c \<and> inside msg c fs (native_tx c price) h \<and> depth m = d \<longrightarrow>
     g h m = k h m)"

lemma runFork_agree:
  assumes call: "good_call k" and ctx: "context_ok ctx" "context_fits ctx" "vm_tx h = native_tx ctx price"
    and code: "length code < 2 ^ 31" and found: "\<And>f. pf_found p f"
    and jit: "code_map_ok (jit h)" "hitThreshold (jit h) = 0" "vm_caps h"
    and agree: "agree_at (ec_depth ctx + 1) g k"
  shows "runFork p (vm_fns es g) revision code ctx w h = runFork p (vm_fns es k) revision code ctx w h"
proof -
  let ?ctx = "ctx\<lparr>ec_callData := native_input ctx\<rparr>" and ?msg = "native_message ctx (keccak code)"
  let ?J = "inside ?msg ?ctx (vm_stack h) (vm_tx h)"
  have "execute p (vm_fns es g) revision ?msg code (cb_push (?ctx, w) h) =
    execute p (vm_fns es k) revision ?msg code (cb_push (?ctx, w) h)"
  proof (rule execute_agree [where J = ?J])
    show "g h' m = k h' m" if "?J h'" "depth m = depth ?msg + 1" for h' m
    proof -
      have "depth m = ec_depth ctx + 1" using that(2) by (simp add: native_message_def)
      with agree pushed_context [OF ctx(1,3)] that(1) show ?thesis unfolding agree_at_def by metis
    qed
  qed (use jit code found pushed_inside pushed_env(1) [OF call ctx(1,3)] in \<open>simp_all add: cb_push_def native_message_def\<close>)
  then show ?thesis by (simp add: runFork_eq [OF ctx])
qed

lemma run_nested_agree:
  assumes "good_call k" "context_ok ctx" "vm_tx h = native_tx ctx price" "length code < 2 ^ 31"
    "\<And>f. pf_found p f" "code_map_ok (jit h)" "hitThreshold (jit h) = 0" "vm_caps h" "agree_at (ec_depth ctx + 1) g k"
  shows "run_nested es p (vm_fns es g) code ctx w h = run_nested es p (vm_fns es k) code ctx w h"
proof (cases "context_fits ctx")
  case True
  then show ?thesis
    using runFork_agree [OF assms(1,2) True assms(3-9)]
    by (simp add: run_nested_def runPre040Fork_def runPost040Fork_def split: sum.splits)
qed (simp add: run_nested_def context_toBytes_overflow [OF assms(2)])

lemma call_contract_agree:
  assumes call: "good_call k" and es: "es_ok es" and ctx: "context_ok ctx" "vm_tx h = native_tx ctx price"
    and found: "\<And>f. pf_found p f" and jit: "code_map_ok (jit h)" "hitThreshold (jit h) = 0" "vm_caps h"
    and agree: "agree_at (ec_depth ctx + 1) g k"
  shows "call_contract es p (vm_fns es g) a ctx w h = call_contract es p (vm_fns es k) a ctx w h"
proof -
  have "run_nested es p (vm_fns es g) code ctx w h = run_nested es p (vm_fns es k) code ctx w h"
    if "length code < 2 ^ 31" for code
    by (rule run_nested_agree [OF call ctx that found jit agree])
  moreover have "length code < 2 ^ 31" if "es_getCode es w a = Some code" for code
    using es that by (auto simp: es_ok_def)
  ultimately show ?thesis by (auto simp: call_contract_def Let_def split: option.splits)
qed

lemma inside_pre:
  assumes "inside msg c fs (native_tx c price) h" "native_tx ctx price = native_tx c price"
  shows "vm_tx h = native_tx ctx price" "code_map_ok (jit h)" "hitThreshold (jit h) = 0" "vm_caps h"
  using assms by (simp_all add: inside_def)

lemma doCall_agree:
  assumes call: "good_call k" and es: "es_ok es" and found: "\<And>f. pf_found p f"
    and ctx: "context_ok ctx" "native_tx ctx price = native_tx c price"
    and c: "context_ok c" "inside msg c fs (native_tx c price) h" and agree: "agree_at (ec_depth ctx + 1) g k"
  shows "doCall es p (vm_fns es g) ctx h = doCall es p (vm_fns es k) ctx h"
proof -
  obtain effects w where h: "vm_stack h = (c\<lparr>ec_sideEffects := effects\<rparr>, w) # fs" using c(2) by (rule insideE)
  have "call_contract es p (vm_fns es g) a ctx' w' (on_effects f h) = call_contract es p (vm_fns es k) a ctx' w' (on_effects f h)"
    if "ctx' = ctx \<or> ctx' = ctx\<lparr>ec_address := ec_address c\<rparr>" for a ctx' w' f
  proof -
    have "context_ok ctx'" "native_tx ctx' price = native_tx c price" "ec_depth ctx' = ec_depth ctx"
      using that ctx c(1) by (auto simp: context_ok_def native_cong)
    then show ?thesis
      using call_contract_agree [OF call es _ _ found, of ctx' "on_effects f h" price g]
        inside_pre [OF inside_on(1) [OF c(2)], of ctx'] agree by simp
  qed
  then show ?thesis unfolding doCall_def h list.case prod.case Let_def by simp
qed

lemma doCreate_agree:
  assumes call: "good_call k" and es: "es_ok es" and found: "\<And>f. pf_found p f"
    and ctx: "context_ok ctx" "native_tx ctx price = native_tx c price"
    and c: "inside msg c fs (native_tx c price) h" and agree: "agree_at (ec_depth ctx + 1) g k"
  shows "doCreate es p (vm_fns es g) ctx h = doCreate es p (vm_fns es k) ctx h"
proof -
  have "run_nested es p (vm_fns es g) (ec_callData ctx) (ctx\<lparr>ec_address := a, ec_sideEffects := s\<rparr>) w (on_effects f h) =
      run_nested es p (vm_fns es k) (ec_callData ctx) (ctx\<lparr>ec_address := a, ec_sideEffects := s\<rparr>) w (on_effects f h)"
    if "length a = 32" for a s w f
  proof -
    let ?ctx = "ctx\<lparr>ec_address := a, ec_sideEffects := s\<rparr>"
    have "context_ok ?ctx" "native_tx ?ctx price = native_tx c price" "ec_depth ?ctx = ec_depth ctx"
      "length (ec_callData ctx) < 2 ^ 31"
      using that ctx by (simp_all add: context_ok_def native_tx_def)
    then show ?thesis
      using run_nested_agree [OF call _ _ _ found, of ?ctx "on_effects f h" price "ec_callData ctx" g]
        inside_pre [OF inside_on(1) [OF c], of ?ctx] agree by simp
  qed
  moreover have "length (cap_newContractAddress es x n) = 32" for x n using es by (simp add: es_ok_def)
  moreover have "getExternalCapabilities h = Inr ()" using c by (auto simp: inside_def getExternalCapabilities_def)
  ultimately show ?thesis unfolding doCreate_def Let_def by (auto split: list.splits)
qed

lemma jni_call_agree:
  assumes call: "good_call k" and es: "es_ok es" and found: "\<And>f. pf_found p f"
    and c: "context_ok c" "inside msg c fs (native_tx c price) h"
    and agree: "sint (depth m) < 128 \<Longrightarrow> agree_at (depth m + 1) g k"
  shows "jni_call es p (vm_fns es g) h m = jni_call es p (vm_fns es k) h m"
proof (cases "encode_message (pf_junk p) m")
  case m: (Some y)
  obtain effects w where h: "vm_stack h = (c\<lparr>ec_sideEffects := effects\<rparr>, w) # fs" using c(2) by (rule insideE)
  have "performCall es p (vm_fns es g) y h = performCall es p (vm_fns es k) y h"
    using m
  proof (cases rule: parseMessage_any [where prev = "c\<lparr>ec_sideEffects := effects\<rparr>"])
    case unknown
    then show ?thesis by (simp add: performCall_def h)
  next
    case (known knd)
    define ctx where "ctx = callee_context (c\<lparr>ec_sideEffects := effects\<rparr>) (m\<lparr>address := read_mem (pf_junk p) (address m) 0 32,
      caller := read_mem (pf_junk p) (caller m) 0 32, msg_value := read_mem (pf_junk p) (msg_value m) 0 16\<rparr>) knd"
    have ctx: "context_ok ctx" "native_tx ctx price = native_tx c price"
      using callee_context_ok [OF c(1)] encoded_small(1) [OF m] by (simp_all add: ctx_def message_ok_def)
    have d: "ec_depth ctx = depth m" by (simp add: ctx_def callee_context_def)
    have "\<not> MAX_CALL_DEPTH <=s ec_depth ctx \<Longrightarrow> agree_at (ec_depth ctx + 1) g k"
      using agree by (simp add: d MAX_CALL_DEPTH_def word_sle_eq)
    note same = doCall_agree [OF call es found ctx c this] doCreate_agree [OF call es found ctx c(2) this]
    show ?thesis
      unfolding performCall_def h list.case prod.case known ctx_def [symmetric] sum.case using same by simp
  qed
  with m show ?thesis by (simp add: jni_call_def cb_call_def)
qed (simp add: jni_call_def)

lemma host_call_vm_table: "host_call (vm_table es p) = jni_call es p (vm_fns es (vm_call es p 128))"
proof -
  have "vm_call es p 129 = vm_call es p (Suc 128)" by (simp del: vm_call.simps)
  then have "vm_call es p 129 = jni_call es p (vm_fns es (vm_call es p 128))" by (simp only: vm_call.simps)
  moreover have "host_call (vm_table es p) = vm_call es p 129" by (simp add: vm_table_def vm_fns_def)
  ultimately show ?thesis by simp
qed

lemma vm_call_deep:
  assumes "es_ok es" "\<And>f. pf_found p f" "0 \<le> sint (depth m)" "nat (128 - sint (depth m)) < n" "nat (128 - sint (depth m)) < n'"
    "context_ok c" "inside msg c fs (native_tx c price) h"
  shows "vm_call es p n h m = vm_call es p n' h m"
  using assms(3-7)
proof (induction n arbitrary: n' m msg c fs price h)
  case (Suc n)
  then obtain k where k: "n' = Suc k" by (cases n') simp_all
  have "agree_at (depth m + 1) (vm_call es p n) (vm_call es p k)" if less: "sint (depth m) < 128"
    unfolding agree_at_def
  proof (intro allI impI)
    fix msg c price and m' :: evm_message and fs :: "(ExecutionContext \<times> 'a) list" and h :: "'a vm_host"
    assume *: "context_ok c \<and> inside msg c fs (native_tx c price) h \<and> depth m' = depth m + 1"
    have "sint (depth m') = sint (depth m) + 1"
      using * less Suc.prems(1) by (simp add: sint_word_ariths signed_take_bit_int_eq_self)
    then show "vm_call es p n h m' = vm_call es p k h m'"
      using Suc.IH [of m' k c msg fs price h] * Suc.prems(1-3) less k by simp
  qed
  then show ?case
    using jni_call_agree [OF vm_call_good [OF assms(1,2)] assms(1,2) Suc.prems(4,5), of m "vm_call es p n" k]
    by (simp add: k)
qed simp


section \<open>Properties\<close>

text \<open>A small kernel: balances, no code, no precompiled contracts.\<close>

definition sample_es :: "(AionAddress \<Rightarrow> int) ext_state" where
  "sample_es =
     \<lparr>es_newChild = (\<lambda>w. w), es_commit = (\<lambda>child w. child), es_reparent = (\<lambda>w child. w),
      es_isPrecompiled = (\<lambda>_ _. False),
      es_runPrecompiled = (\<lambda>ctx w. (Inl IllegalState, newSideEffects, w)),
      es_addStorage = (\<lambda>w _ _ _. w), es_removeStorage = (\<lambda>w _ _. w), es_getStorage = (\<lambda>_ _ _. None),
      es_undefined = (\<lambda>n. replicate n 0),
      es_destinationSafe = (\<lambda>_ _. True), es_getCode = (\<lambda>_ _. None), es_putCode = (\<lambda>w _ _. w),
      es_hasStorage = (\<lambda>_ _. False), es_hasAccount = (\<lambda>w a. w a \<noteq> 0), es_createAccount = (\<lambda>w a. w(a := 0)),
      es_setVmType = (\<lambda>w _. w), es_getBalance = (\<lambda>w a. w a), es_addBalance = (\<lambda>w a v. w(a := w a + v)),
      es_getNonce = (\<lambda>_ _. 0), es_incrementNonce = (\<lambda>w _. w), es_validEnergyForCreate = (\<lambda>_ _ _. True),
      es_validEnergyForNonCreate = (\<lambda>_ _ _. True), es_nonceEquals = (\<lambda>_ _ n. n = 0),
      es_balanceIsAtLeast = (\<lambda>w a v. v \<le> w a), es_deductEnergyCost = (\<lambda>w a v. w(a := w a - v)),
      es_fork040 = (\<lambda>_. True), es_minerAddress = (\<lambda>_. replicate 32 4), es_blockNumber = (\<lambda>_. 17),
      es_blockTimestamp = (\<lambda>_. 18), es_blockEnergyLimit = (\<lambda>_. 19), es_blockDifficulty = (\<lambda>_. replicate 16 6),
      es_blockHash = (\<lambda>_ _. None), es_signatureSwap = (\<lambda>_. False),
      cap_newContractAddress = (\<lambda>_ _. replicate 32 7), tx_equals = (=)\<rparr>"

definition sample_host :: "(AionAddress \<Rightarrow> int) vm_host" where
  "sample_host = \<lparr>jit = fresh_jit\<lparr>jit_currentMsg := Some sample_message\<rparr>,
     vm_tx = native_tx sample_context (replicate 16 0), vm_stack = [(sample_context, \<lambda>_. 10)],
     vm_caps = True\<rparr>"

lemma sample_vm:
  "es_ok sample_es" "pf_found sample_platform f" "context_ok sample_context"
  "inside sample_message sample_context [] (native_tx sample_context (replicate 16 0)) sample_host"
  by (simp_all add: es_ok_def sample_es_def sample_platform_def context_ok_def sample_context_def inside_def
      sample_host_def code_map_ok_def fresh_jit_def)

text \<open>
  C11: a contract finds its world after every callback as it left it. Whatever storing, logging, destroying or
  calling does, with any number of contracts called in turn, afterwards its context is on top of the
  stack with the same frames below, changed only in its side effects and its state; its message is the
  current one of the compiler; the global transaction context is its own, so a stack of
  transaction contexts is not needed; and the code map still holds what it says.
\<close>

theorem callbacks_resume_contract:
  assumes "es_ok es" "\<And>f. pf_found p f" "context_ok c" "inside msg c fs (native_tx c price) h"
  shows "inside msg c fs (native_tx c price) (snd (host_call (vm_table es p) h m)) \<and>
    inside msg c fs (native_tx c price) (set_storage (vm_table es p) h a k v) \<and>
    inside msg c fs (native_tx c price) (selfdestruct (vm_table es p) h a b) \<and>
    inside msg c fs (native_tx c price) (host_log (vm_table es p) h a d ts)"
proof -
  have "inside msg c fs (native_tx c price) (snd (vm_call es p 129 h m))"
    using vm_call_good [OF assms(1,2), of 129] assms(3,4) unfolding good_call_def by blast
  then show ?thesis using inside_effects [OF assms(4)] by (simp add: vm_table_def vm_fns_def)
qed

theorem callbacks_resume_contract_witness:
  "inside sample_message sample_context [] (native_tx sample_context (replicate 16 0))
     (snd (host_call (vm_table sample_es sample_platform) sample_host sample_message))"
  using callbacks_resume_contract [OF sample_vm, of sample_message] by blast

text \<open>
  C16: the result of a call is well formed: its status is a result code of the Java side, its output fits in a
  Java array, and the gas that is left is between 0 and the gas of the message.
\<close>

theorem call_result_well_formed:
  assumes "es_ok es" "\<And>f. pf_found p f" "context_ok c" "inside msg c fs (native_tx c price) h"
    and "0 \<le> sint (msg_gas m)" "msg_gas m \<noteq> gasMax"
    and "host_call (vm_table es p) h m = (r, h')"
  shows "(\<exists>code. status_code r = code_toInt code) \<and> length (output_data r) < 2 ^ 31 \<and>
    0 \<le> sint (gas_left r) \<and> sint (gas_left r) \<le> sint (msg_gas m)"
proof -
  have call: "jni_call es p (vm_fns es (vm_call es p 128)) h m = (r, h')"
    using assms(7) by (simp only: host_call_vm_table)
  show ?thesis
    by (rule jni_call_run [OF vm_call_good [OF assms(1,2)] assms(1-4), of 128 m])
      (use call assms(5,6) in \<open>auto simp: gas_bound_def\<close>)
qed

theorem call_result_well_formed_witness:
  "let r = fst (host_call (vm_table sample_es sample_platform) sample_host sample_message)
   in (\<exists>code. status_code r = code_toInt code) \<and> length (output_data r) < 2 ^ 31 \<and>
     0 \<le> sint (gas_left r) \<and> sint (gas_left r) \<le> 5000"
proof -
  have "0 \<le> sint (msg_gas sample_message)" "msg_gas sample_message \<noteq> gasMax" "sint (msg_gas sample_message) = 5000"
    by (simp_all add: sample_message_def gasMax_def)
  with call_result_well_formed [OF sample_vm, OF _ _ surjective_pairing, of sample_message] show ?thesis
    by (simp add: Let_def)
qed

text \<open>
  C12: a call that does not succeed has no effect on the world. If the status is anything but success, the state
  of the caller, its logs and its deleted accounts are exactly those before the call; what the callee and
  all that it called did is dropped with the child state.
\<close>

theorem failed_call_keeps_world:
  assumes "es_ok es" "\<And>f. pf_found p f" "context_ok c" "inside msg c fs (native_tx c price) h"
    and "host_call (vm_table es p) h m = (r, h')" "status_code r \<noteq> code_toInt RC_SUCCESS"
  shows "kept_world h h'"
proof -
  have call: "jni_call es p (vm_fns es (vm_call es p 128)) h m = (r, h')"
    using assms(5) by (simp only: host_call_vm_table)
  show ?thesis
    by (rule jni_call_run [OF vm_call_good [OF assms(1,2)] assms(1-4), of 128 m])
      (use call assms(6) in \<open>auto simp: code_toInt_inject simp del: code_toInt.simps\<close>)
qed

theorem failed_call_keeps_world_witness:
  "let m = sample_message\<lparr>depth := 128\<rparr>; r = fst (host_call (vm_table sample_es sample_platform) sample_host m)
   in status_code r = code_toInt RC_FAILURE \<and>
     kept_world sample_host (snd (host_call (vm_table sample_es sample_platform) sample_host m))"
proof -
  let ?m = "sample_message\<lparr>depth := 128\<rparr>"
  obtain y where y: "encode_message 0xaa ?m = Some y" "parseMessage sample_context y = Inr (callee_context sample_context ?m K_CALLCODE)"
    using parseMessage_native [of ?m K_CALLCODE "0xaa" sample_context] by (auto simp: message_ok_def sample_message_def)
  then have "performCall sample_es sample_platform tab y sample_host =
      (Inr (newResult RC_FAILURE 0 []), sample_host)" for tab
    by (simp add: performCall_def sample_host_def callee_context_def MAX_CALL_DEPTH_def)
  moreover obtain b where b: "result_toBytes (newResult RC_FAILURE 0 []) = Inr b"
    using result_toBytes_total [of "newResult RC_FAILURE 0 []"] by auto
  ultimately have "host_call (vm_table sample_es sample_platform) sample_host ?m = (parse_result 0xaa b, sample_host)"
    using y(1) by (simp add: host_call_vm_table jni_call_def cb_call_def sample_platform_def)
  moreover have "status_code (parse_result 0xaa b) = code_toInt RC_FAILURE"
    using parse_result_native [OF _ b] by simp
  moreover note failed_call_keeps_world [OF sample_vm, of ?m "parse_result 0xaa b" sample_host]
  ultimately show ?thesis by (simp add: Let_def code_toInt_inject)
qed

text \<open>
  C13: nesting is bounded by the depth of calls. The table of callbacks refers to itself; allowing more than 129
  levels of it changes no call of a contract at a depth that is not negative, because a message of depth
  128 is answered without running anything.
\<close>

theorem nesting_is_bounded:
  assumes "es_ok es" "\<And>f. pf_found p f" "context_ok c" "inside msg c fs (native_tx c price) h"
    and "0 \<le> sint (depth m)" "129 \<le> n"
  shows "vm_call es p n h m = host_call (vm_table es p) h m"
  using vm_call_deep [OF assms(1,2,5) _ _ assms(3,4), of n 129] assms(5,6)
  by (simp add: vm_table_def vm_fns_def del: vm_call.simps)

theorem nesting_is_bounded_witness:
  "vm_call sample_es sample_platform 1000 sample_host sample_message =
     host_call (vm_table sample_es sample_platform) sample_host sample_message"
proof (rule nesting_is_bounded [OF sample_vm])
  show "0 \<le> sint (depth sample_message)" by (simp add: sample_message_def)
qed simp

text \<open>
  C39: a library call needs a balance that it does not spend. A call whose sender owns less than the value
  of the message is refused with all its gas, delegate calls included, where the value is that of the
  calling contract's own message and has already been transferred to it.
\<close>

theorem delegate_call_needs_value_again:
  assumes "vm_stack h = (c, w) # fs" "message_ok m" "kind m = kind_num EVM_DELEGATECALL"
    and "es_getBalance es w (caller m) < toBigInteger (msg_value m)"
  shows "vm_call es p (Suc n) h m =
    (\<lparr>status_code = code_toInt RC_FAILURE, gas_left = 0, output_data = []\<rparr>, h)"
proof -
  obtain y where y: "encode_message (pf_junk p) m = Some y" "parseMessage c y = Inr (callee_context c m K_DELEGATE_CALL)"
    using parseMessage_native [OF assms(2), of K_DELEGATE_CALL "pf_junk p" c] assms(3) by auto
  then have "performCall es p tab y h = (Inr (newResult RC_FAILURE 0 []), h)" for tab
    using assms(4) by (simp add: performCall_def assms(1) callee_context_def transferValue_def)
  moreover obtain b where b: "result_toBytes (newResult RC_FAILURE 0 []) = Inr b"
    using result_toBytes_total [of "newResult RC_FAILURE 0 []"] by auto
  ultimately show ?thesis
    using y(1) parse_result_native [OF _ b, of "pf_junk p"] by (simp add: jni_call_def cb_call_def)
qed

theorem delegate_call_needs_value_again_witness:
  "let m = sample_message\<lparr>kind := 1, msg_value := [0, 0, 0, 0, 0, 0, 0, 0, 0, 0, 0, 0, 0, 0, 0, 11]\<rparr>
   in vm_call sample_es sample_platform (Suc 128) sample_host m =
     (\<lparr>status_code = code_toInt RC_FAILURE, gas_left = 0, output_data = []\<rparr>, sample_host)"
  unfolding Let_def
  by (rule delegate_call_needs_value_again)
    (simp_all add: sample_host_def message_ok_def sample_message_def sample_es_def toBigInteger_def positive_def,
      simp)

text \<open>
  C4: every run of a contract returns. Started by the Java side with gas that is not negative and a context that fits in
  an array, the machine on the
  code of the contract, with the callbacks of the Java host and so with all the contracts that it calls,
  halts, and its outcome is what the Java side receives: the status as a result code, the output, and the
  remaining gas as energy.
\<close>

theorem contract_run_returns:
  assumes es: "es_ok es" "\<And>f. pf_found p f" and ctx: "context_ok ctx" "context_fits ctx" "vm_tx h = native_tx ctx price"
    and jit: "code_map_ok (jit h)" "hitThreshold (jit h) = 0" "vm_caps h" and code: "length code < 2 ^ 31"
    and coll: "\<And>i entry f. m_codeMap (jit h) i = Some entry \<Longrightarrow> func entry = Some f \<Longrightarrow>
      keccak (fn_code f) = keccak code \<Longrightarrow> fn_code f = code"
    and gas: "0 \<le> sint (ec_nrg ctx)" "ec_nrg ctx \<noteq> gasMax"
  shows "let msg = native_message ctx (keccak code); frame = (ctx\<lparr>ec_callData := native_input ctx\<rparr>, w);
      e = exec_env p (fresh_func revision msg code) (vm_table es p) msg code
    in \<exists>j m out c. (evm_step e ^^ m) (Running 0 [] (exec_rt msg ((cb_push frame h)\<lparr>jit := j\<rparr>))) = Halted out \<and>
      code_toInt c = status_code (exec_result (pf_junk p) out) \<and>
      (length (output_data (exec_result (pf_junk p) out)) + 16 < 2 ^ 31 \<longrightarrow>
        fst (runFork p (vm_table es p) revision code ctx w h) =
          Inr \<lparr>res_code = c, res_output = output_data (exec_result (pf_junk p) out),
            energyRemaining = gas_left (exec_result (pf_junk p) out)\<rparr>)"
proof -
  let ?ctx = "ctx\<lparr>ec_callData := native_input ctx\<rparr>" and ?msg = "native_message ctx (keccak code)"
  let ?h = "cb_push (?ctx, w) h" and ?tab = "vm_fns es (vm_call es p 129)" and ?f = "fresh_func revision ?msg code"
  let ?J = "inside ?msg ?ctx (vm_stack h) (vm_tx h)" and ?e = "exec_env p ?f ?tab ?msg code"
  note call = vm_call_good [OF es, of 129]
  have fields: "jit ?h = jit h" "code_hash ?msg = keccak code" "msg_gas ?msg = ec_nrg ctx"
    by (simp_all add: cb_push_def native_message_def)
  have "pf_found p ?f" by (rule es(2))
  from pick_func_runs [OF jit(1,2) this]
  obtain f j where pick: "pick_func p revision ?msg code (jit h) = Run f j" by blast
  note run = pick_func_Run [OF jit(1) fields(2) code pick]
  have f: "f = ?f" using pick_func_fresh [OF jit(1) fields(2) code pick] coll by blast
  have J: "?J (?h\<lparr>jit := j\<rparr>)" using pushed_inside [OF run(1,2)] run(3) jit(2,3) by simp
  note env = pushed_env [OF call ctx(1,3), of ?e es ?msg]
  have small: "length (fn_code ?f) < 2 ^ 31" using run(5) f by simp
  obtain m out where mach: "(evm_step ?e ^^ m) (Running 0 [] (exec_rt ?msg (?h\<lparr>jit := j\<rparr>))) = Halted out"
    "fst (run_func p ?f ?tab ?msg code (?h\<lparr>jit := j\<rparr>)) = exec_result (pf_junk p) out"
    "\<And>rc s'. out = Exited rc s' \<Longrightarrow> 0 \<le> sint (gas s')"
    by (rule run_func_machine [of ?J p ?f ?tab ?msg code "?h\<lparr>jit := j\<rparr>"])
      (use env J small gas fields(3) in auto)
  let ?r = "exec_result (pf_junk p) out"
  have "?J (snd (run_func p ?f ?tab ?msg code (?h\<lparr>jit := j\<rparr>)))"
    using run_func_keeps [of ?J p ?f ?tab ?msg code, OF _ J] env(1) by simp
  then obtain x xs where stack: "vm_stack (snd (run_func p ?f ?tab ?msg code (?h\<lparr>jit := j\<rparr>))) = x # xs"
    by (auto simp: inside_def)
  have "\<exists>st. status_code ?r = status_num st" by (cases out) (auto simp del: status_num.simps)
  then obtain c where c: "code_fromInt (status_code ?r) = Inr c" "code_toInt c = status_code ?r"
    using status_known by metis
  have "0 \<le> sint (gas_left ?r)" using mach(3) by (cases out) auto
  then have "newResult c (gas_left ?r) (output_data ?r) =
      \<lparr>res_code = c, res_output = output_data ?r, energyRemaining = gas_left ?r\<rparr>"
    by (simp add: newResult_def checkNegativeEnergy_def word_sle_eq)
  moreover have "fst (runFork p ?tab revision code ctx w h) =
      (case encode_result (pf_junk p) ?r of None \<Rightarrow> Inl NegativeArraySize | Some b \<Rightarrow> result_fromBytes b)"
    using mach(2) stack
    by (auto simp: runFork_eq [OF ctx] execute_eq fields(1) pick f set_currentMsg_def case_prod_beta split: prod.splits)
  ultimately show ?thesis
    using mach(1) c result_fromBytes_native [of ?r c "pf_junk p"] unfolding Let_def vm_table_def
    by (intro exI [of _ j] exI [of _ m] exI [of _ out] exI [of _ c]) auto
qed

theorem contract_run_returns_witness:
  "let ctx = sample_context; code = [0x5b, 0x00]; h = sample_host; p = sample_platform; es = sample_es;
      msg = native_message ctx (keccak code); frame = (ctx\<lparr>ec_callData := native_input ctx\<rparr>, \<lambda>_. 10);
      e = exec_env p (fresh_func EVM_AION msg code) (vm_table es p) msg code
    in \<exists>j m out c. (evm_step e ^^ m) (Running 0 [] (exec_rt msg ((cb_push frame h)\<lparr>jit := j\<rparr>))) = Halted out \<and>
      code_toInt c = status_code (exec_result (pf_junk p) out) \<and>
      (length (output_data (exec_result (pf_junk p) out)) + 16 < 2 ^ 31 \<longrightarrow>
        fst (runFork p (vm_table es p) EVM_AION code ctx (\<lambda>_. 10) h) =
          Inr \<lparr>res_code = c, res_output = output_data (exec_result (pf_junk p) out),
            energyRemaining = gas_left (exec_result (pf_junk p) out)\<rparr>)"
proof -
  have "vm_tx sample_host = native_tx sample_context (replicate 16 0)" "code_map_ok (jit sample_host)"
    "hitThreshold (jit sample_host) = 0" "length [0x5b, 0x00 :: byte] < 2 ^ 31" "m_codeMap (jit sample_host) = Map.empty"
    "0 \<le> sint (ec_nrg sample_context)" "ec_nrg sample_context \<noteq> gasMax" "vm_caps sample_host" "context_fits sample_context"
    by (simp_all add: context_fits_def native_input_def sample_host_def fresh_jit_def code_map_ok_def sample_context_def gasMax_def)
  then show ?thesis
    using contract_run_returns [OF sample_vm(1-3), of sample_host "replicate 16 0" "[0x5b, 0x00]" "\<lambda>_. 10" EVM_AION]
    by (simp add: Let_def)
qed

end
