(* ===== verification/Transaction.thy ===== *)
theory Transaction
  imports Nesting
begin

text \<open>
  Transactions: \<^verbatim>\<open>src/modFastVM/src/org/aion/fastvm/FastVirtualMachine.java\<close> with \<open>TransactionUtil\<close>,
  \<open>TransactionResultUtil\<close>, \<open>FvmConstants\<close> and \<open>ExecutionContext.fromTransaction\<close>.

  \<open>Transaction\<close>, \<open>TransactionResult\<close> and \<open>TransactionStatus\<close> are the classes of the kernel's types with the
  fields and factory methods that the code uses. The state objects are values: \<open>run\<close> returns the state that
  the caller holds afterwards, next to the result or the exception, and the state of the machine that
  outlives the transaction. The lock makes runs of the machine sequential, so one run at a time is modelled.
\<close>


section \<open>Transactions and their results\<close>

record Transaction =
  senderAddress :: AionAddress
  destinationAddress :: AionAddress
  tx_nonce :: int
  tx_value :: int
  energyLimit :: i64
  energyPrice :: i64
  isCreate :: bool
  transactionData :: "byte list"
  transactionHash :: "byte list"

datatype TransactionStatus =
  Successful | Rejection string | RevertedFailure | NonRevertedFailure string | Fatal string

record TransactionResult =
  transactionStatus :: TransactionStatus
  tr_logs :: "Log list"
  internalTransactions :: "InternalTransaction list"
  energyUsed :: i64
  tr_output :: "byte list"

record FvmWrappedTransactionResult =
  wrapped_result :: TransactionResult
  deletedAddresses :: "AionAddress set"

primrec code_toString :: "FastVmResultCode \<Rightarrow> string" where
  "code_toString RC_SUCCESS = ''SUCCESS''"
| "code_toString INVALID_NONCE = ''INVALID_NONCE''"
| "code_toString INVALID_NRG_LIMIT = ''INVALID_NRG_LIMIT''"
| "code_toString INSUFFICIENT_BALANCE = ''INSUFFICIENT_BALANCE''"
| "code_toString RC_FAILURE = ''FAILURE''"
| "code_toString OUT_OF_NRG = ''OUT_OF_NRG''"
| "code_toString BAD_INSTRUCTION = ''BAD_INSTRUCTION''"
| "code_toString BAD_JUMP_DESTINATION = ''BAD_JUMP_DESTINATION''"
| "code_toString STACK_OVERFLOW = ''STACK_OVERFLOW''"
| "code_toString STACK_UNDERFLOW = ''STACK_UNDERFLOW''"
| "code_toString RC_REVERT = ''REVERT''"
| "code_toString STATIC_MODE_ERROR = ''STATIC_MODE_ERROR''"
| "code_toString INCOMPATIBLE_CONTRACT_CALL = ''INCOMPATIBLE_CONTRACT_CALL''"
| "code_toString ABORT = ''ABORT''"
| "code_toString REJECT_DEPLOY = ''REJECT_DEPLOY''"
| "code_toString VM_REJECTED = ''VM_REJECTED''"
| "code_toString VM_INTERNAL_ERROR = ''VM_INTERNAL_ERROR''"

definition transactionStatusFromFvmResultCode :: "FastVmResultCode \<Rightarrow> TransactionStatus" where
  "transactionStatusFromFvmResultCode c =
     (if isSuccess c then Successful
      else if isRejected c then Rejection (code_toString c)
      else if isRevert c then RevertedFailure
      else if isFailed c then NonRevertedFailure (code_toString c)
      else Fatal (code_toString c))"

definition createFvmWrappedTransactionResult ::
  "FastVmResultCode \<Rightarrow> InternalTransaction list \<Rightarrow> Log list \<Rightarrow> i64 \<Rightarrow> byte list \<Rightarrow> AionAddress set \<Rightarrow>
   FvmWrappedTransactionResult" where
  "createFvmWrappedTransactionResult c txs lgs used out deleted =
     \<lparr>wrapped_result = \<lparr>transactionStatus = transactionStatusFromFvmResultCode c, tr_logs = lgs,
        internalTransactions = txs, energyUsed = used, tr_output = out\<rparr>,
      deletedAddresses = deleted\<rparr>"

definition createWithCodeAndEnergyRemaining :: "FastVmResultCode \<Rightarrow> i64 \<Rightarrow> FvmWrappedTransactionResult" where
  "createWithCodeAndEnergyRemaining c used =
     \<lparr>wrapped_result = \<lparr>transactionStatus = transactionStatusFromFvmResultCode c, tr_logs = [],
        internalTransactions = [], energyUsed = used, tr_output = []\<rparr>,
      deletedAddresses = {}\<rparr>"


section \<open>The price of a transaction\<close>

definition CREATE_TRANSACTION_FEE :: i64 where
  "CREATE_TRANSACTION_FEE = 200000"

definition TRANSACTION_BASE_FEE :: i64 where
  "TRANSACTION_BASE_FEE = 21000"

definition ZERO_BYTE_FEE :: i64 where
  "ZERO_BYTE_FEE = 4"

definition NONZERO_BYTE_FEE :: i64 where
  "NONZERO_BYTE_FEE = 64"

text \<open>The counter of the loop is an \<open>int\<close>.\<close>

definition zeroBytesInData :: "byte list \<Rightarrow> i64" where
  "zeroBytesInData data = scast (fold (\<lambda>b c. c + (if b = 0 then 1 else 0)) data (0 :: 32 word))"

definition nonZeroBytesInData :: "byte list \<Rightarrow> i64" where
  "nonZeroBytesInData data = scast (of_nat (length data) :: 32 word) - zeroBytesInData data"

definition computeTransactionCost :: "bool \<Rightarrow> byte list \<Rightarrow> i64" where
  "computeTransactionCost create data =
     (if create then CREATE_TRANSACTION_FEE else 0) + TRANSACTION_BASE_FEE +
     zeroBytesInData data * ZERO_BYTE_FEE + nonZeroBytesInData data * NONZERO_BYTE_FEE"

definition transactionCost :: "Transaction \<Rightarrow> i64" where
  "transactionCost tx = computeTransactionCost (isCreate tx) (transactionData tx)"


section \<open>Running a transaction\<close>

definition fromTransaction ::
  "Transaction \<Rightarrow> AionAddress option \<Rightarrow> AionAddress \<Rightarrow> i64 \<Rightarrow> i64 \<Rightarrow> i64 \<Rightarrow> byte list \<Rightarrow> ExecutionContext java" where
  "fromTransaction tx contract miner blockNumber blockTimestamp blockEnergyLimit blockDifficulty =
     bind_java (fromLong (energyPrice tx)) (\<lambda>price.
     bind_java (fromBigInteger (tx_value tx)) (\<lambda>val.
     Inr \<lparr>ec_sideEffects = newSideEffects, ec_origin = senderAddress tx, ec_originalTxHash = transactionHash tx,
       ec_address = (case (isCreate tx, contract) of (True, Some a) \<Rightarrow> a | _ \<Rightarrow> destinationAddress tx), ec_sender = senderAddress tx,
       ec_blockCoinbase = miner, ec_nrgPrice = price, ec_callValue = val, ec_blockDifficulty = blockDifficulty,
       ec_callData = transactionData tx, ec_txHash = transactionHash tx,
       ec_nrg = energyLimit tx - transactionCost tx, ec_blockNumber = blockNumber,
       ec_blockTimestamp = blockTimestamp, ec_blockNrgLimit = blockEnergyLimit, ec_depth = 0,
       ec_kind = (if isCreate tx then K_CREATE else K_CALL), ec_flags = 0, ec_contractAddress = contract,
       ec_isCreate = isCreate tx\<rparr>))"

definition constructTransactionContext ::
  "'w ext_state \<Rightarrow> Transaction \<Rightarrow> AionAddress option \<Rightarrow> 'w \<Rightarrow> ExecutionContext java" where
  "constructTransactionContext es tx contract w =
     fromTransaction tx contract (es_minerAddress es w) (es_blockNumber es w) (es_blockTimestamp es w)
       (es_blockEnergyLimit es w) (es_blockDifficulty es w)"

definition performRejectionChecks ::
  "'w ext_state \<Rightarrow> 'w \<Rightarrow> Transaction \<Rightarrow> FastVmTransactionResult \<Rightarrow> FastVmTransactionResult" where
  "performRejectionChecks es w tx result =
     (let reject = \<lambda>c. result\<lparr>res_code := c, energyRemaining := energyLimit tx\<rparr>
      in if isCreate tx \<and> \<not> es_validEnergyForCreate es w (energyLimit tx) (transactionData tx)
         then reject INVALID_NRG_LIMIT
         else if isCreate tx \<and> es_signatureSwap es w then reject REJECT_DEPLOY
         else if \<not> isCreate tx \<and> \<not> es_validEnergyForNonCreate es w (energyLimit tx) (transactionData tx)
         then reject INVALID_NRG_LIMIT
         else if \<not> es_nonceEquals es w (senderAddress tx) (tx_nonce tx) then reject INVALID_NONCE
         else if \<not> es_balanceIsAtLeast es w (senderAddress tx)
                     (sint (energyPrice tx) * sint (energyLimit tx) + tx_value tx)
         then reject INSUFFICIENT_BALANCE
         else result)"

definition incrementNonceAndDeductEnergyCost :: "'w ext_state \<Rightarrow> 'w \<Rightarrow> Transaction \<Rightarrow> 'w" where
  "incrementNonceAndDeductEnergyCost es w tx =
     (let child = es_newChild es w;
          child = es_incrementNonce es child (senderAddress tx);
          energyCost = sint (energyLimit tx) * sint (energyPrice tx);
          child = es_deductEnergyCost es child (senderAddress tx) energyCost
      in es_commit es child w)"

text \<open>The part under the lock: the capabilities are installed around the run of the machine.\<close>

definition run_locked ::
  "'w ext_state \<Rightarrow> platform \<Rightarrow> bool \<Rightarrow> byte list \<Rightarrow> ExecutionContext \<Rightarrow> 'w \<Rightarrow> 'w vm_host \<Rightarrow>
   FastVmTransactionResult java \<times> ExecutionContext \<times> 'w \<times> 'w vm_host" where
  "run_locked es p isFork040enabled code ctx w h =
     (case installExternalCapabilities h of
        Inl x \<Rightarrow> (Inl x, ctx, w, h)
      | Inr h \<Rightarrow>
          let (result, ctx, w, h) =
                (if isFork040enabled then runPost040Fork p (vm_table es p) code ctx w h
                 else runPre040Fork p (vm_table es p) code ctx w h)
          in case result of
               Inl x \<Rightarrow> (Inl x, ctx, w, h)
             | Inr r \<Rightarrow> (Inr r, ctx, w, removeExternalCapabilities h))"

definition transfer :: "'w ext_state \<Rightarrow> Transaction \<Rightarrow> AionAddress \<Rightarrow> 'w \<Rightarrow> 'w" where
  "transfer es tx recipient w =
     es_addBalance es (es_addBalance es w (senderAddress tx) (- tx_value tx)) recipient (tx_value tx)"

definition runContractCreationTransaction ::
  "'w ext_state \<Rightarrow> platform \<Rightarrow> 'w \<Rightarrow> ExecutionContext \<Rightarrow> Transaction \<Rightarrow> FastVmTransactionResult \<Rightarrow> bool \<Rightarrow> 'w vm_host \<Rightarrow>
   FastVmTransactionResult java \<times> ExecutionContext \<times> 'w \<times> 'w vm_host" where
  "runContractCreationTransaction es p w ctx tx result isFork040enabled h =
     (let contractAddress = cap_newContractAddress es (senderAddress tx) (tx_nonce tx);
          known = es_hasAccount es w contractAddress;
          code = es_getCode es w contractAddress;
          failure = result\<lparr>res_code := RC_FAILURE, energyRemaining := 0\<rparr>
      in if known \<and> \<not> isFork040enabled then (Inr failure, ctx, w, h)
         else if known \<and> code \<noteq> None \<and> code \<noteq> Some [] then (Inr failure, ctx, w, h)
         else if known \<and> es_getNonce es w contractAddress \<noteq> 0 then (Inr failure, ctx, w, h)
         else if known \<and> es_hasStorage es w contractAddress then (Inr failure, ctx, w, h)
         else
           let w = if known then w else es_createAccount es w contractAddress;
               w = es_setVmType es w contractAddress
           in if transactionData tx = [] then (Inr result, ctx, transfer es tx contractAddress w, h)
              else let (r, ctx, w, h) = run_locked es p isFork040enabled (transactionData tx) ctx w h
                   in case r of
                        Inl x \<Rightarrow> (Inl x, ctx, w, h)
                      | Inr result \<Rightarrow>
                          let w = if code_toInt (res_code result) = code_toInt RC_SUCCESS
                                then es_putCode es w contractAddress (res_output result) else w
                          in (Inr result, ctx, transfer es tx contractAddress w, h))"

definition runNonContractCreationTransaction ::
  "'w ext_state \<Rightarrow> platform \<Rightarrow> 'w \<Rightarrow> ExecutionContext \<Rightarrow> Transaction \<Rightarrow> FastVmTransactionResult \<Rightarrow> bool \<Rightarrow> 'w vm_host \<Rightarrow>
   FastVmTransactionResult java \<times> ExecutionContext \<times> 'w \<times> 'w vm_host" where
  "runNonContractCreationTransaction es p w ctx tx result isFork040enabled h =
     (case es_getCode es w (destinationAddress tx) of
        None \<Rightarrow> (Inr result, ctx, transfer es tx (destinationAddress tx) w, h)
      | Some code \<Rightarrow>
          if code = [] then (Inr result, ctx, transfer es tx (destinationAddress tx) w, h)
          else let (r, ctx, w, h) = run_locked es p isFork040enabled code ctx w h
               in case r of
                    Inl x \<Rightarrow> (Inl x, ctx, w, h)
                  | Inr result \<Rightarrow> (Inr result, ctx, transfer es tx (destinationAddress tx) w, h))"

definition run_transaction ::
  "'w ext_state \<Rightarrow> platform \<Rightarrow> 'w \<Rightarrow> Transaction \<Rightarrow> bool \<Rightarrow> 'w vm_host \<Rightarrow>
   FvmWrappedTransactionResult java \<times> 'w \<times> 'w vm_host" where
  "run_transaction es p w tx isFork040enabled h =
     (let contract = if isCreate tx then Some (cap_newContractAddress es (senderAddress tx) (tx_nonce tx)) else None
      in case constructTransactionContext es tx contract w of
           Inl x \<Rightarrow> (Inl x, w, h)
         | Inr ctx \<Rightarrow>
             let child = es_newChild es w;
                 grandChild = es_newChild es child;
                 result = newResult RC_SUCCESS (energyLimit tx - transactionCost tx) [];
                 result = performRejectionChecks es child tx result
             in if \<not> isSuccess (res_code result)
                then (Inr (createWithCodeAndEnergyRemaining (res_code result) (energyLimit tx - energyRemaining result)),
                      w, h)
                else
                  let child = incrementNonceAndDeductEnergyCost es child tx;
                      grandChild = es_reparent es child grandChild;
                      (r, ctx, grandChild, h) =
                        (if isCreate tx
                         then runContractCreationTransaction es p grandChild ctx tx result isFork040enabled h
                         else runNonContractCreationTransaction es p grandChild ctx tx result isFork040enabled h)
                  in case r of
                       Inl x \<Rightarrow> (Inl x, w, h)
                     | Inr result \<Rightarrow>
                         let child = if isSuccess (res_code result) then es_commit es grandChild child else child;
                             w = if \<not> isRejected (res_code result) then es_commit es child w else w;
                             sideEffects = ec_sideEffects ctx
                         in (Inr (createFvmWrappedTransactionResult (res_code result)
                                (internalTxs sideEffects) (logs sideEffects)
                                (energyLimit tx - energyRemaining result) (res_output result)
                                (deleteAccounts sideEffects)), w, h))"


section \<open>What the price is\<close>

definition zeros :: "byte list \<Rightarrow> nat" where
  "zeros data = length (filter (\<lambda>b. b = 0) data)"

lemma fold_zeros: "fold (\<lambda>b c. c + (if b = 0 then 1 else 0)) data c = c + (of_nat (zeros data) :: 32 word)"
  by (induction data arbitrary: c) (simp_all add: zeros_def algebra_simps)

lemma zeros_le: "zeros data \<le> length data"
  by (simp add: zeros_def)

lemma scast_of_nat: "n < 2 ^ 31 \<Longrightarrow> (scast (of_nat n :: 32 word) :: i64) = of_nat n"
proof -
  assume "n < 2 ^ 31"
  then have "sint (of_nat n :: 32 word) = int n" by (simp add: sint_uint signed_take_bit_int_eq_self unsigned_of_nat take_bit_nat_eq_self)
  then show ?thesis by (simp add: scast_eq)
qed

lemma transaction_price:
  assumes "length data < 2 ^ 31"
  shows "computeTransactionCost create data =
    word_of_int ((if create then 200000 else 0) + 21000 + 4 * int (zeros data) + 64 * int (length data - zeros data))"
proof -
  have z: "zeroBytesInData data = of_nat (zeros data)"
    using assms zeros_le [of data] by (simp add: zeroBytesInData_def fold_zeros scast_of_nat)
  have "nonZeroBytesInData data = of_nat (length data - zeros data)"
    using assms zeros_le [of data] by (simp add: nonZeroBytesInData_def z scast_of_nat of_nat_diff)
  then show ?thesis
    by (simp add: computeTransactionCost_def z CREATE_TRANSACTION_FEE_def TRANSACTION_BASE_FEE_def ZERO_BYTE_FEE_def
        NONZERO_BYTE_FEE_def algebra_simps)
qed

lemma sint_price:
  assumes "length data < 2 ^ 31"
  shows "sint (computeTransactionCost create data) =
    (if create then 200000 else 0) + 21000 + 4 * int (zeros data) + 64 * int (length data - zeros data)"
proof -
  have "zeros data \<le> length data" by (rule zeros_le)
  then show ?thesis using assms unfolding transaction_price [OF assms] by (intro sint64_of_int) auto
qed

lemma price_bounds:
  assumes "length data < 2 ^ 31"
  shows "21000 \<le> sint (computeTransactionCost create data)" "sint (computeTransactionCost create data) < 2 ^ 38"
  using assms zeros_le [of data] by (simp_all add: sint_price)


section \<open>What a run leaves\<close>

text \<open>Transactions and kernels as the rest of the system provides them, and a machine that is not running.\<close>

definition tx_ok :: "Transaction \<Rightarrow> bool" where
  "tx_ok tx \<longleftrightarrow> length (senderAddress tx) = 32 \<and> length (destinationAddress tx) = 32 \<and>
     length (transactionData tx) < 2 ^ 31 \<and> 0 \<le> tx_value tx \<and> tx_value tx < 2 ^ 128 \<and> 0 \<le> sint (energyLimit tx)"

definition kernel_ok :: "'w ext_state \<Rightarrow> bool" where
  "kernel_ok es \<longleftrightarrow> es_ok es \<and> (\<forall>w. length (es_minerAddress es w) = 32 \<and> length (es_blockDifficulty es w) = 16)"

definition idle :: "'w vm_host \<Rightarrow> bool" where
  "idle h \<longleftrightarrow> code_map_ok (jit h) \<and> hitThreshold (jit h) = 0 \<and> \<not> vm_caps h"

lemma runFork_vm_tx:
  assumes "context_ok ctx" "context_fits ctx"
  shows "runFork p tab revision code ctx w (h\<lparr>vm_tx := native_tx ctx (tx_gas_price (vm_tx h))\<rparr>) =
    runFork p tab revision code ctx w h"
proof -
  obtain b where b: "context_toBytes ctx = Inr (b, ctx\<lparr>ec_callData := native_input ctx\<rparr>)"
    using context_toBytes_eq [OF assms] by blast
  show ?thesis
    by (simp add: runFork_def b fastvm_run_def cb_push_def parse_context_native [OF assms b] native_tx_def)
qed

lemma run_locked_eq:
  assumes "idle h" "runFork p (vm_table es p) (if fork then REVISION_AION_V1 else REVISION_AION) code ctx w (h\<lparr>vm_caps := True\<rparr>) =
    (r, ctx', w', h')"
  shows "run_locked es p fork code ctx w h =
    (r, ctx', w', case r of Inl _ \<Rightarrow> h' | Inr _ \<Rightarrow> removeExternalCapabilities h')"
  using assms by (simp add: run_locked_def installExternalCapabilities_def idle_def runPost040Fork_def runPre040Fork_def
      split: sum.splits if_splits)

lemma run_locked_run:
  assumes es: "es_ok es" "\<And>f. pf_found p f" and h: "idle h" and ctx: "context_ok ctx" and code: "length code < 2 ^ 31"
  obtains r ctx' w' h' where "run_locked es p fork code ctx w h = (r, ctx', w', h')" "result_ok ctx r"
    "\<And>x. r = Inr x \<Longrightarrow> \<not> isRejected (res_code x) \<and> 0 \<le> sint (energyRemaining x) \<and>
       (overdrawn (ec_nrg ctx) \<longrightarrow> energyRemaining x = 0) \<and> idle h' \<and> vm_stack h' = vm_stack h"
    "\<And>x. r = Inl x \<Longrightarrow> vm_caps h'"
proof (cases "context_fits ctx")
  case True
  let ?rev = "if fork then REVISION_AION_V1 else REVISION_AION"
  let ?h = "h\<lparr>vm_caps := True\<rparr>"
  let ?h0 = "?h\<lparr>vm_tx := native_tx ctx (tx_gas_price (vm_tx ?h))\<rparr>"
  have h0: "vm_tx ?h0 = native_tx ctx (tx_gas_price (vm_tx ?h))" "code_map_ok (jit ?h0)" "hitThreshold (jit ?h0) = 0"
    "vm_caps ?h0" using h by (simp_all add: idle_def native_tx_def)
  obtain r effects w' h' where run: "runFork p (vm_table es p) ?rev code ctx w ?h0 =
      (r, ctx\<lparr>ec_callData := native_input ctx, ec_sideEffects := effects\<rparr>, w', h')"
    "resumes ?h0 h'" "result_ok ctx r" "\<And>x. r = Inr x \<Longrightarrow> \<not> isRejected (res_code x) \<and> 0 \<le> sint (energyRemaining x) \<and>
       (overdrawn (ec_nrg ctx) \<longrightarrow> energyRemaining x = 0)"
    unfolding vm_table_def
    by (rule runFork_run [OF vm_call_good [OF es] ctx True h0(1) code es(2) h0(2-4)]) blast
  show thesis
    by (rule that [OF run_locked_eq [OF h run(1) [unfolded runFork_vm_tx [OF ctx True]]]])
      (use run(2-4) h in \<open>auto simp: resumes_def idle_def removeExternalCapabilities_def split: sum.splits\<close>)
next
  case False
  then have run: "runFork p (vm_table es p) revision code ctx w h' = (Inl IllegalArgument, ctx, w, cb_push (ctx, w) h')"
    for revision h' by (simp add: runFork_def context_toBytes_overflow [OF ctx])
  have "run_locked es p fork code ctx w h = (Inl IllegalArgument, ctx, w, cb_push (ctx, w) (h\<lparr>vm_caps := True\<rparr>))"
    using run_locked_eq [OF h run] by simp
  then show thesis by (rule that) (auto simp: result_ok_def cb_push_def)
qed

lemma performRejectionChecks_cases:
  "performRejectionChecks es w tx r = r \<or>
   (\<exists>c. isRejected c \<and> performRejectionChecks es w tx r = r\<lparr>res_code := c, energyRemaining := energyLimit tx\<rparr>)"
proof -
  have "\<exists>c. isRejected c \<and> r\<lparr>res_code := k, energyRemaining := energyLimit tx\<rparr> = r\<lparr>res_code := c, energyRemaining := energyLimit tx\<rparr>"
    if "isRejected k" for k using that by blast
  then show ?thesis by (simp add: performRejectionChecks_def Let_def isRejected_def)
qed


text \<open>What the run of either kind of transaction comes to.\<close>

definition ran ::
  "ExecutionContext \<Rightarrow> 'w vm_host \<Rightarrow> FastVmTransactionResult java \<Rightarrow> 'w vm_host \<Rightarrow> bool" where
  "ran ctx h r h' \<longleftrightarrow> result_ok ctx r \<and>
     (case r of
        Inl x \<Rightarrow> vm_caps h'
      | Inr x \<Rightarrow> idle h' \<and> vm_stack h' = vm_stack h \<and> \<not> isRejected (res_code x) \<and> 0 \<le> sint (energyRemaining x) \<and>
          (overdrawn (ec_nrg ctx) \<longrightarrow> energyRemaining x = 0))"

lemma run_locked_ran:
  assumes "es_ok es" "\<And>f. pf_found p f" "idle h" "context_ok ctx" "length code < 2 ^ 31"
    "run_locked es p fork code ctx w h = (r, ctx', w', h')"
  shows "ran ctx h r h'"
  using run_locked_run [OF assms(1-5), of fork w] assms(6) by (auto simp: ran_def split: sum.splits)

lemma ran_at_once:
  assumes "idle h"
  shows "ran ctx h (Inr (newResult RC_SUCCESS (ec_nrg ctx) [])) h"
    "ran ctx h (Inr ((newResult RC_SUCCESS (ec_nrg ctx) [])\<lparr>res_code := RC_FAILURE, energyRemaining := 0\<rparr>)) h"
  using assms by (simp_all add: ran_def result_ok_def isRejected_def overdrawn_def)

lemma creation_ran:
  assumes es: "es_ok es" "\<And>f. pf_found p f" and h: "idle h" and ctx: "context_ok ctx"
    and tx: "length (transactionData tx) < 2 ^ 31"
    and run: "runContractCreationTransaction es p w ctx tx (newResult RC_SUCCESS (ec_nrg ctx) []) fork h = (r, ctx', w', h')"
  shows "ran ctx h r h'"
proof -
  note locked = run_locked_ran [OF es h ctx tx]
  show ?thesis
    using run locked ran_at_once [OF h, of ctx]
    by (auto simp: runContractCreationTransaction_def Let_def
        split: if_splits prod.splits sum.splits)
qed

lemma call_ran:
  assumes es: "es_ok es" "\<And>f. pf_found p f" and h: "idle h" and ctx: "context_ok ctx"
    and run: "runNonContractCreationTransaction es p w ctx tx (newResult RC_SUCCESS (ec_nrg ctx) []) fork h = (r, ctx', w', h')"
  shows "ran ctx h r h'"
proof -
  have "length code < 2 ^ 31" if "es_getCode es w (destinationAddress tx) = Some code" for code
    using that es(1) by (simp add: es_ok_def)
  note locked = run_locked_ran [OF es h ctx this]
  show ?thesis
    using run locked ran_at_once [OF h, of ctx]
    by (auto simp: runNonContractCreationTransaction_def Let_def
        split: if_splits prod.splits sum.splits option.splits)
qed

lemma transaction_context:
  assumes "kernel_ok es" "tx_ok tx"
  obtains ctx where "constructTransactionContext es tx
      (if isCreate tx then Some (cap_newContractAddress es (senderAddress tx) (tx_nonce tx)) else None) w = Inr ctx"
    "context_ok ctx" "ec_nrg ctx = energyLimit tx - transactionCost tx" "ec_sideEffects ctx = newSideEffects"
proof -
  obtain v where "fromBigInteger (tx_value tx) = Inr v" "length v = 16"
    using fromBigInteger_small assms(2) unfolding tx_ok_def by metis
  then show thesis using assms
    by (intro that) (auto simp: constructTransactionContext_def fromTransaction_def fromLong_eq context_ok_def
        kernel_ok_def es_ok_def tx_ok_def)
qed


definition charged :: "'w ext_state \<Rightarrow> 'w \<Rightarrow> Transaction \<Rightarrow> 'w" where
  "charged es w tx = incrementNonceAndDeductEnergyCost es (es_newChild es w) tx"

lemma run_transaction_cases:
  assumes es: "kernel_ok es" "\<And>f. pf_found p f" and tx: "tx_ok tx" and h: "idle h"
    and run: "run_transaction es p w tx fork h = (r, w', h')"
  obtains (rejected) c where "isRejected c" "r = Inr (createWithCodeAndEnergyRemaining c 0)" "w' = w" "h' = h"
  | (thrown) x where "r = Inl x" "w' = w" "vm_caps h'"
  | (finished) result :: FastVmTransactionResult and ctx :: ExecutionContext and gc where
      "r = Inr (createFvmWrappedTransactionResult (res_code result) (internalTxs (ec_sideEffects ctx))
         (logs (ec_sideEffects ctx)) (energyLimit tx - energyRemaining result) (res_output result)
         (deleteAccounts (ec_sideEffects ctx)))"
      "w' = es_commit es (if isSuccess (res_code result) then es_commit es gc (charged es w tx) else charged es w tx) w"
      "\<not> isRejected (res_code result)" "idle h'" "vm_stack h' = vm_stack h"
      "0 \<le> sint (energyRemaining result)" "sint (transactionCost tx) \<le> sint (energyLimit tx) \<Longrightarrow>
         sint (energyRemaining result) \<le> sint (energyLimit tx) - sint (transactionCost tx)"
      "sint (energyLimit tx) < sint (transactionCost tx) \<Longrightarrow> energyRemaining result = 0"
proof -
  obtain ctx where ctx: "constructTransactionContext es tx
      (if isCreate tx then Some (cap_newContractAddress es (senderAddress tx) (tx_nonce tx)) else None) w = Inr ctx"
    "context_ok ctx" "ec_nrg ctx = energyLimit tx - transactionCost tx"
    using transaction_context [OF es(1) tx, of w] by blast
  let ?R = "newResult RC_SUCCESS (ec_nrg ctx) []" and ?child = "es_newChild es w"
  let ?gc = "es_reparent es (charged es w tx) (es_newChild es ?child)"
  note eq = run [unfolded run_transaction_def Let_def ctx(1) sum.case ctx(3) [symmetric] charged_def [symmetric]]
  have ok: "es_ok es" using es(1) by (simp add: kernel_ok_def)
  have data: "length (transactionData tx) < 2 ^ 31" "0 \<le> sint (energyLimit tx)" using tx by (simp_all add: tx_ok_def)
  consider c where "isRejected c" "performRejectionChecks es ?child tx ?R = ?R\<lparr>res_code := c, energyRemaining := energyLimit tx\<rparr>"
    | "performRejectionChecks es ?child tx ?R = ?R"
    using performRejectionChecks_cases [of es ?child tx ?R] by metis
  then show thesis
  proof cases
    case (1 c)
    then have "\<not> isSuccess c" by (simp add: isRejected_def isSuccess_def)
    then show ?thesis using eq 1 by (intro rejected) auto
  next
    case 2
    have gas: "sint (ec_nrg ctx) = sint (energyLimit tx) - sint (transactionCost tx)" "0 \<le> sint (ec_nrg ctx)" "ec_nrg ctx \<noteq> gasMax"
      if "sint (transactionCost tx) \<le> sint (energyLimit tx)"
      using price_bounds [OF data(1), of "isCreate tx"] data(2) that sint64_range [of "energyLimit tx"]
        sint64_diff_nonneg [of "energyLimit tx" "transactionCost tx"]
      by (auto simp: ctx(3) transactionCost_def gasMax_def)
    have over: "overdrawn (ec_nrg ctx)" if "sint (energyLimit tx) < sint (transactionCost tx)"
      using price_bounds [OF data(1), of "isCreate tx"] data(2) that
        sint64_diff_nonneg [of "energyLimit tx" "transactionCost tx"]
      by (simp add: ctx(3) transactionCost_def overdrawn_def)
    obtain r1 ctx1 w1 h1 where r1: "(if isCreate tx then runContractCreationTransaction es p ?gc ctx tx ?R fork h
        else runNonContractCreationTransaction es p ?gc ctx tx ?R fork h) = (r1, ctx1, w1, h1)"
      by (metis prod.exhaust)
    have ran: "ran ctx h r1 h1"
      using r1 creation_ran [OF ok es(2) h ctx(2) data(1)] call_ran [OF ok es(2) h ctx(2)]
      by (simp split: if_splits)
    have success: "isSuccess RC_SUCCESS" by (simp add: isSuccess_def)
    note eq' = eq [unfolded 2 r1 prod.case]
    show ?thesis
    proof (cases r1)
      case (Inl x)
      then show ?thesis using eq' ran by (intro thrown [of x]) (simp_all add: success ran_def)
    next
      case (Inr x)
      then show ?thesis using eq' ran gas over
        by (intro finished [of x ctx1 w1]) (simp_all add: success ran_def result_ok_def)
    qed
  qed
qed


lemma exception_leaves_capabilities:
  assumes "kernel_ok es" "\<And>f. pf_found p f" "tx_ok tx" "idle h" "run_transaction es p w tx fork h = (Inl x, w', h')"
  shows "w' = w" "vm_caps h'"
  using assms by (cases rule: run_transaction_cases [OF assms]; simp)+

lemma status_simps:
  "isRejected c \<Longrightarrow> transactionStatusFromFvmResultCode c = Rejection (code_toString c)"
  "\<not> isRejected c \<Longrightarrow> transactionStatusFromFvmResultCode c \<noteq> Rejection s"
  "transactionStatusFromFvmResultCode c = Successful \<longleftrightarrow> isSuccess c"
  by (auto simp: transactionStatusFromFvmResultCode_def isRejected_def isSuccess_def)

lemma accepted_call:
  assumes es: "kernel_ok es" and tx: "tx_ok tx" "\<not> isCreate tx"
    and accepted: "isSuccess (res_code (performRejectionChecks es (es_newChild es w) tx
      (newResult RC_SUCCESS (energyLimit tx - transactionCost tx) [])))"
  obtains ctx where "context_ok ctx" "ec_sideEffects ctx = newSideEffects"
    "run_transaction es p w tx fork h =
       (let child = charged es w tx; gc = es_reparent es child (es_newChild es (es_newChild es w));
            (r, ctx, gc, h) = runNonContractCreationTransaction es p gc ctx tx
              (newResult RC_SUCCESS (energyLimit tx - transactionCost tx) []) fork h
        in case r of
             Inl x \<Rightarrow> (Inl x, w, h)
           | Inr result \<Rightarrow>
               (Inr (createFvmWrappedTransactionResult (res_code result) (internalTxs (ec_sideEffects ctx))
                  (logs (ec_sideEffects ctx)) (energyLimit tx - energyRemaining result) (res_output result)
                  (deleteAccounts (ec_sideEffects ctx))),
                if \<not> isRejected (res_code result)
                then es_commit es (if isSuccess (res_code result) then es_commit es gc child else child) w else w, h))"
proof -
  let ?R = "newResult RC_SUCCESS (energyLimit tx - transactionCost tx) []"
  have "isRejected c \<Longrightarrow> \<not> isSuccess c" for c by (simp add: isRejected_def isSuccess_def)
  then have R: "performRejectionChecks es (es_newChild es w) tx ?R = ?R"
    using performRejectionChecks_cases [of es "es_newChild es w" tx ?R] accepted by auto
  obtain ctx where ctx: "constructTransactionContext es tx None w = Inr ctx" "context_ok ctx"
      "ec_sideEffects ctx = newSideEffects"
    using transaction_context [OF es tx(1), of w] tx(2) by auto
  show thesis
    by (rule that [OF ctx(2,3)], unfold run_transaction_def Let_def, unfold R)
      (simp add: ctx(1) tx(2) charged_def isSuccess_def split: prod.splits sum.splits)
qed


section \<open>Properties\<close>

text \<open>A kernel with balances that asks for the price of a transaction, and a transfer of three coins.\<close>

definition strict_es :: "byte list option \<Rightarrow> (AionAddress \<Rightarrow> int) ext_state" where
  "strict_es code = sample_es\<lparr>es_getCode := (\<lambda>_ _. code),
     es_validEnergyForCreate := (\<lambda>_ limit data. sint (computeTransactionCost True data) \<le> sint limit),
     es_validEnergyForNonCreate := (\<lambda>_ limit data. sint (computeTransactionCost False data) \<le> sint limit)\<rparr>"

definition sample_tx :: Transaction where
  "sample_tx = \<lparr>senderAddress = replicate 32 2, destinationAddress = replicate 32 1, tx_nonce = 0, tx_value = 3,
     energyLimit = 50000, energyPrice = 0, isCreate = False, transactionData = [0, 7], transactionHash = replicate 32 9\<rparr>"

definition idle_host :: "(AionAddress \<Rightarrow> int) vm_host" where
  "idle_host = sample_host\<lparr>vm_stack := [], vm_caps := False\<rparr>"

lemma sample_price: "transactionCost sample_tx = 21068"
  by (simp add: transactionCost_def computeTransactionCost_def sample_tx_def zeroBytesInData_def nonZeroBytesInData_def
      TRANSACTION_BASE_FEE_def ZERO_BYTE_FEE_def NONZERO_BYTE_FEE_def)

lemma sample_limit: "energyLimit sample_tx = 50000"
  by (simp add: sample_tx_def)

lemma sample_transaction:
  "kernel_ok (strict_es None)" "kernel_ok (strict_es (Some [0]))" "tx_ok sample_tx" "idle idle_host"
  by (auto simp: kernel_ok_def es_ok_def strict_es_def sample_es_def tx_ok_def sample_tx_def idle_def idle_host_def
      sample_host_def code_map_ok_def fresh_jit_def)

lemma sample_accepted:
  "isSuccess (res_code (performRejectionChecks (strict_es code) (es_newChild (strict_es code) (\<lambda>_. 10)) sample_tx
     (newResult RC_SUCCESS (energyLimit sample_tx - transactionCost sample_tx) [])))"
  using sample_price
  by (simp add: performRejectionChecks_def strict_es_def sample_es_def sample_tx_def isSuccess_def transactionCost_def)

text \<open>
  C14: what a transaction leaves behind. When \<open>run\<close> returns, the stack of \<open>Callback\<close> is as before, no capabilities
  are installed and the code map is well formed, so the machine is ready for the next transaction. A
  rejected transaction used no energy; any other used at least its price and at most its limit, or the whole limit if
  that does not cover the price. When an exception leaves \<open>run\<close>, nothing is committed, but the capabilities stay installed.
\<close>

theorem transaction_restores_machine:
  assumes "kernel_ok es" "\<And>f. pf_found p f" "tx_ok tx" "idle h"
  shows "case run_transaction es p w tx fork h of
      (Inl x, w', h') \<Rightarrow> w' = w \<and> vm_caps h'
    | (Inr x, w', h') \<Rightarrow> idle h' \<and> vm_stack h' = vm_stack h \<and>
        (if \<exists>s. transactionStatus (wrapped_result x) = Rejection s then energyUsed (wrapped_result x) = 0
         else if sint (transactionCost tx) \<le> sint (energyLimit tx)
         then sint (transactionCost tx) \<le> sint (energyUsed (wrapped_result x)) \<and>
           sint (energyUsed (wrapped_result x)) \<le> sint (energyLimit tx)
         else energyUsed (wrapped_result x) = energyLimit tx)"
proof -
  obtain r w' h' where run: "run_transaction es p w tx fork h = (r, w', h')" by (metis prod.exhaust)
  have limit: "0 \<le> sint (energyLimit tx)" using assms(3) by (simp add: tx_ok_def)
  from assms run show ?thesis
  proof (cases rule: run_transaction_cases)
    case (rejected c)
    then show ?thesis using assms(4) by (simp add: run createWithCodeAndEnergyRemaining_def status_simps(1))
  next
    case (thrown x)
    then show ?thesis by (simp add: run)
  next
    case (finished result ctx gc)
    have "sint (energyLimit tx - energyRemaining result) = sint (energyLimit tx) - sint (energyRemaining result)"
      using limit finished(6) by (rule sint64_diff_nonneg)
    then show ?thesis using finished(4-8) status_simps(2) [OF finished(3)]
      by (auto simp: run finished(1) createFvmWrappedTransactionResult_def)
  qed
qed

theorem transaction_restores_machine_witness:
  "case run_transaction (strict_es (Some [0])) sample_platform (\<lambda>_. 10) sample_tx True idle_host of
      (Inl x, w', h') \<Rightarrow> w' = (\<lambda>_. 10) \<and> vm_caps h'
    | (Inr x, w', h') \<Rightarrow> idle h' \<and> vm_stack h' = [] \<and>
        (if \<exists>s. transactionStatus (wrapped_result x) = Rejection s then energyUsed (wrapped_result x) = 0
         else 21068 \<le> sint (energyUsed (wrapped_result x)) \<and> sint (energyUsed (wrapped_result x)) \<le> 50000)"
proof -
  have eq: "vm_stack idle_host = []" "sint (energyLimit sample_tx) = 50000" "sint (transactionCost sample_tx) = 21068"
    "((21068 :: int) \<le> 50000) = True"
    by (simp_all add: idle_host_def sample_tx_def sample_price [unfolded sample_tx_def])
  show ?thesis
    using transaction_restores_machine [OF sample_transaction(2) sample_vm(2) sample_transaction(3,4), of "\<lambda>_. 10" True]
    unfolding eq if_True .
qed

text \<open>
  C15: a transaction that does not succeed changes nothing but what it pays. A rejected one leaves the
  state and the machine as they were, uses no energy and has no logs. A failed one, whatever
  contracts it ran, increments the nonce of the sender and deducts the energy cost, and that is all that
  is committed: the state is the same as if its contract had not run.
\<close>

theorem failed_transaction_only_pays:
  assumes "kernel_ok es" "\<And>f. pf_found p f" "tx_ok tx" "idle h"
  shows "case run_transaction es p w tx fork h of
      (Inl x, w', h') \<Rightarrow> w' = w
    | (Inr x, w', h') \<Rightarrow> case transactionStatus (wrapped_result x) of
          Successful \<Rightarrow> True
        | Rejection s \<Rightarrow> w' = w \<and> h' = h \<and> energyUsed (wrapped_result x) = 0 \<and> tr_logs (wrapped_result x) = []
        | _ \<Rightarrow> w' = es_commit es (incrementNonceAndDeductEnergyCost es (es_newChild es w) tx) w"
proof -
  obtain r w' h' where run: "run_transaction es p w tx fork h = (r, w', h')" by (metis prod.exhaust)
  from assms run show ?thesis
  proof (cases rule: run_transaction_cases)
    case (rejected c)
    then show ?thesis by (simp add: run createWithCodeAndEnergyRemaining_def status_simps(1))
  next
    case (thrown x)
    then show ?thesis by (simp add: run)
  next
    case (finished result ctx gc)
    let ?st = "transactionStatusFromFvmResultCode (res_code result)"
    have "?st = Successful \<or> ((\<forall>s. ?st \<noteq> Rejection s) \<and> \<not> isSuccess (res_code result))"
      using status_simps(2) [OF finished(3)] status_simps(3) by blast
    then show ?thesis using finished(1,2)
      by (auto simp: run createFvmWrappedTransactionResult_def charged_def split: TransactionStatus.split)
  qed
qed

theorem failed_transaction_only_pays_witness:
  "case run_transaction (strict_es (Some [0])) sample_platform (\<lambda>_. 10) (sample_tx\<lparr>tx_nonce := 5\<rparr>) True idle_host of
      (Inl x, w', h') \<Rightarrow> w' = (\<lambda>_. 10)
    | (Inr x, w', h') \<Rightarrow> case transactionStatus (wrapped_result x) of
          Successful \<Rightarrow> True
        | Rejection s \<Rightarrow> w' = (\<lambda>_. 10) \<and> h' = idle_host \<and> energyUsed (wrapped_result x) = 0 \<and>
            tr_logs (wrapped_result x) = []
        | _ \<Rightarrow> w' = (\<lambda>_. 10)"
proof -
  have tx: "tx_ok (sample_tx\<lparr>tx_nonce := 5\<rparr>)" using sample_transaction(3) by (simp add: tx_ok_def)
  have "es_commit (strict_es (Some [0])) (incrementNonceAndDeductEnergyCost (strict_es (Some [0]))
      (es_newChild (strict_es (Some [0])) (\<lambda>_. 10)) (sample_tx\<lparr>tx_nonce := 5\<rparr>)) (\<lambda>_. 10) = (\<lambda>_. 10)"
    by (simp add: incrementNonceAndDeductEnergyCost_def strict_es_def sample_es_def sample_tx_def fun_eq_iff)
  then show ?thesis
    using failed_transaction_only_pays [OF sample_transaction(2) sample_vm(2) tx sample_transaction(4), of "\<lambda>_. 10" True]
    by (simp only:)
qed


text \<open>
  C37: a transfer to an account without code succeeds. A transaction that passes the checks and whose recipient has
  no code uses exactly its price if the limit covers it, and otherwise the whole limit, has no logs and
  no output, and what is committed is the payment for the energy and the value moved from the sender to the
  recipient.
\<close>

theorem plain_transfer:
  assumes "kernel_ok es" "tx_ok tx" "\<not> isCreate tx"
    and "isSuccess (res_code (performRejectionChecks es (es_newChild es w) tx
      (newResult RC_SUCCESS (energyLimit tx - transactionCost tx) [])))"
    and "child = incrementNonceAndDeductEnergyCost es (es_newChild es w) tx"
    and "grandChild = es_reparent es child (es_newChild es (es_newChild es w))"
    and "es_getCode es grandChild (destinationAddress tx) = None \<or> es_getCode es grandChild (destinationAddress tx) = Some []"
  shows "run_transaction es p w tx fork h =
    (Inr \<lparr>wrapped_result = \<lparr>transactionStatus = Successful, tr_logs = [], internalTransactions = [],
         energyUsed = (if sint (transactionCost tx) \<le> sint (energyLimit tx) then transactionCost tx else energyLimit tx),
         tr_output = []\<rparr>, deletedAddresses = {}\<rparr>,
     es_commit es (es_commit es
       (es_addBalance es (es_addBalance es grandChild (senderAddress tx) (- tx_value tx)) (destinationAddress tx) (tx_value tx))
       child) w, h)"
proof -
  obtain ctx where ctx: "ec_sideEffects ctx = newSideEffects"
    and run: "run_transaction es p w tx fork h =
       (let child = charged es w tx; gc = es_reparent es child (es_newChild es (es_newChild es w));
            (r, ctx, gc, h) = runNonContractCreationTransaction es p gc ctx tx
              (newResult RC_SUCCESS (energyLimit tx - transactionCost tx) []) fork h
        in case r of
             Inl x \<Rightarrow> (Inl x, w, h)
           | Inr result \<Rightarrow>
               (Inr (createFvmWrappedTransactionResult (res_code result) (internalTxs (ec_sideEffects ctx))
                  (logs (ec_sideEffects ctx)) (energyLimit tx - energyRemaining result) (res_output result)
                  (deleteAccounts (ec_sideEffects ctx))),
                if \<not> isRejected (res_code result)
                then es_commit es (if isSuccess (res_code result) then es_commit es gc child else child) w else w, h))"
    by (rule accepted_call [OF assms(1-4)])
  have plain: "runNonContractCreationTransaction es p grandChild ctx tx R fork h =
      (Inr R, ctx, transfer es tx (destinationAddress tx) grandChild, h)" for R
    using assms(7) by (auto simp: runNonContractCreationTransaction_def)
  have "21000 \<le> sint (transactionCost tx)" "0 \<le> sint (energyLimit tx)"
    using assms(2) price_bounds [of "transactionData tx"] by (simp_all add: tx_ok_def transactionCost_def)
  then have "sint (energyLimit tx - transactionCost tx) = sint (energyLimit tx) - sint (transactionCost tx)"
    by (intro sint64_diff_nonneg) simp_all
  then show ?thesis
    unfolding run Let_def charged_def assms(5) [symmetric] assms(6) [symmetric] plain
    by (simp add: ctx transfer_def newSideEffects_def createFvmWrappedTransactionResult_def status_simps(3) isSuccess_def isRejected_def)
qed

theorem plain_transfer_witness:
  "run_transaction (strict_es None) sample_platform (\<lambda>_. 10) sample_tx True idle_host =
    (Inr \<lparr>wrapped_result = \<lparr>transactionStatus = Successful, tr_logs = [], internalTransactions = [],
         energyUsed = 21068, tr_output = []\<rparr>, deletedAddresses = {}\<rparr>,
     (\<lambda>_. 10)(replicate 32 2 := 7, replicate 32 1 := 13), idle_host)"
proof -
  let ?es = "strict_es None"
  have "\<not> isCreate sample_tx" "es_getCode ?es w a = None" for w a
    by (simp_all add: sample_tx_def strict_es_def)
  moreover have "es_commit ?es (es_commit ?es (es_addBalance ?es (es_addBalance ?es
      (es_reparent ?es (incrementNonceAndDeductEnergyCost ?es (es_newChild ?es (\<lambda>_. 10)) sample_tx)
        (es_newChild ?es (es_newChild ?es (\<lambda>_. 10))))
      (senderAddress sample_tx) (- tx_value sample_tx)) (destinationAddress sample_tx) (tx_value sample_tx))
      (incrementNonceAndDeductEnergyCost ?es (es_newChild ?es (\<lambda>_. 10)) sample_tx)) (\<lambda>_. 10) =
      (\<lambda>_. 10)(replicate 32 2 := 7, replicate 32 1 := 13)"
    by (simp add: incrementNonceAndDeductEnergyCost_def strict_es_def sample_es_def sample_tx_def fun_eq_iff)
  ultimately show ?thesis
    using plain_transfer [OF sample_transaction(1,3) _ sample_accepted refl refl, of sample_platform True idle_host]
    by (simp add: sample_price sample_limit)
qed

text \<open>
  C40: capabilities that are still installed block the machine. \<open>run\<close> removes the capabilities only if the machine
  returns without an exception. Once they are left behind, every transaction that passes the checks and
  calls a contract throws an exception, and nothing of it is committed.
\<close>

theorem leftover_capabilities_block:
  assumes "kernel_ok es" "tx_ok tx" "\<not> isCreate tx" "vm_caps h"
    and "isSuccess (res_code (performRejectionChecks es (es_newChild es w) tx
      (newResult RC_SUCCESS (energyLimit tx - transactionCost tx) [])))"
    and "grandChild = es_reparent es (incrementNonceAndDeductEnergyCost es (es_newChild es w) tx)
      (es_newChild es (es_newChild es w))"
    and "es_getCode es grandChild (destinationAddress tx) = Some code" "code \<noteq> []"
  shows "run_transaction es p w tx fork h = (Inl IllegalState, w, h)"
proof -
  have "runNonContractCreationTransaction es p grandChild ctx tx R fork h = (Inl IllegalState, ctx, grandChild, h)" for ctx R
    using assms(4,7,8) by (simp add: runNonContractCreationTransaction_def run_locked_def installExternalCapabilities_def)
  then show ?thesis
    using accepted_call [OF assms(1-3,5), of p fork h] unfolding Let_def charged_def assms(6) [symmetric] by auto
qed

theorem leftover_capabilities_block_witness:
  "run_transaction (strict_es (Some [0])) sample_platform (\<lambda>_. 10) sample_tx True (idle_host\<lparr>vm_caps := True\<rparr>) =
    (Inl IllegalState, \<lambda>_. 10, idle_host\<lparr>vm_caps := True\<rparr>)"
  by (rule leftover_capabilities_block [OF sample_transaction(2,3) _ _ sample_accepted refl, of _ "[0]"])
    (simp_all add: sample_tx_def strict_es_def)

text \<open>
  C38: the price of a transaction is exact. For data of less than \<open>2 ^ 31\<close> bytes, which is what an array can hold,
  no addition overflows: the price is the base fee, the fee of a creation, and 4 for every zero
  and 64 for every other byte.
\<close>

theorem transaction_price_exact:
  assumes "length data < 2 ^ 31"
  shows "sint (computeTransactionCost create data) =
    (if create then 200000 else 0) + 21000 + (\<Sum>b\<leftarrow>data. if b = 0 then 4 else 64)"
proof -
  have "4 * int (zeros data) + 64 * int (length data - zeros data) = (\<Sum>b\<leftarrow>data. if b = 0 then 4 else 64)"
  proof (induction data)
    case (Cons b bs)
    then show ?case using zeros_le [of bs] by (auto simp: zeros_def of_nat_diff Suc_diff_le)
  qed (simp add: zeros_def)
  then show ?thesis by (simp add: sint_price [OF assms])
qed

theorem transaction_price_exact_witness: "sint (computeTransactionCost True [0, 1, 0]) = 221072"
  using transaction_price_exact [of "[0, 1, 0]" True] by simp

end
