(* ===== verification/Spec2Isabelle.thy ===== *)
theory Spec2Isabelle
  imports GasMeter LocalStack Arith128 InstArith JitArray JitMemory Keccak JitExt RunInvariant HostAgree Wire Transaction
begin

text \<open>
  Verification of FastVM, the virtual machine of the Aion network with 128-bit words: the just-in-time compiler in
  \<^verbatim>\<open>src/fastvm\<close> and its Java host in \<^verbatim>\<open>src/modFastVM/src/org/aion/fastvm\<close>.

  \<^bold>\<open>The parts and how they work together.\<close> The kernel hands a transaction to \<open>FastVirtualMachine.run\<close>. It checks and
  charges the transaction, makes an \<open>ExecutionContext\<close> and calls \<open>FastVM\<close>, which pushes the context and the state on
  the stack of \<open>Callback\<close> and passes the encoded context to the native library through JNI. \<open>execute\<close> in \<^verbatim>\<open>JIT.cpp\<close> looks
  for the compiled code in its map or compiles it: \<^verbatim>\<open>Compiler.cpp\<close> cuts the code into basic blocks and emits LLVM
  code for them with a symbolic stack (\<^verbatim>\<open>BasicBlock.cpp\<close>) and summed gas checks (\<^verbatim>\<open>GasMeter.cpp\<close>). The compiled code
  works on memory (\<^verbatim>\<open>Memory.cpp\<close>, \<^verbatim>\<open>Array.cpp\<close>), uses generated arithmetic (\<^verbatim>\<open>Arith128.cpp\<close>) and calls the host
  (\<^verbatim>\<open>Ext.cpp\<close>) through a table of callbacks that leads back to \<open>Callback\<close>. A callback may call or create a contract,
  which starts a run of the machine inside the run.

  \<^bold>\<open>Theories, in the order of their imports.\<close>
  \<^item> \<open>FVM_Prelude\<close>: words of the model, signed 64-bit arithmetic, big-endian codecs, byte buffers.
  \<^item> \<open>Opcode\<close> (\<^verbatim>\<open>Instruction.h\<close>, \<^verbatim>\<open>Instruction.cpp\<close>): the instruction set and push data; that the two readers of push data
    agree.
  \<^item> \<open>JitTypes\<close> (\<^verbatim>\<open>evm.h\<close>, \<^verbatim>\<open>JIT.h\<close>, \<^verbatim>\<open>RuntimeManager.cpp\<close>): messages, results, the table of callbacks, the record \<open>rt\<close> of
    a running contract and \<open>jit_env\<close> of what is fixed during a run.
  \<^item> \<open>GasMeter\<close> (\<^verbatim>\<open>GasMeter.cpp\<close>): \<open>gas.check\<close>, step costs, dynamic costs, cost blocks.
  \<^item> \<open>LocalStack\<close> (\<^verbatim>\<open>BasicBlock.cpp\<close>): the symbolic stack. The locale \<open>symbolic_stack\<close> is its interface; it refines
    the machine stack, with exact underflow and overflow checks.
  \<^item> \<open>Arith128\<close>, \<open>InstArith\<close> (\<^verbatim>\<open>Arith128.cpp\<close>, the arithmetic cases of \<^verbatim>\<open>Compiler.cpp\<close>, \<^verbatim>\<open>Endianness.cpp\<close>): generated division
    and exponentiation, the value of every pure instruction. The locale \<open>word_divider\<close> is what signed division and
    the instructions need of a division.
  \<^item> \<open>JitArray\<close>, \<open>JitMemory\<close> (\<^verbatim>\<open>Array.cpp\<close>, \<^verbatim>\<open>Memory.cpp\<close>): the growable array as a list, memory with its quadratic
    price, loads, stores and copies.
  \<^item> \<open>Keccak\<close> (\<^verbatim>\<open>Utils.cpp\<close>): the hash, equal to the standard's, which is stated without the code's tables.
  \<^item> \<open>JitExt\<close> (\<^verbatim>\<open>Ext.cpp\<close>, \<open>call_v2\<close> of \<^verbatim>\<open>JIT.cpp\<close>): the calls of compiled code to the host.
  \<^item> \<open>Emit\<close>, \<open>EmitCorrect\<close>, \<open>Compiler\<close>, \<open>Metered\<close>, \<open>BlockStructure\<close>, \<open>CompilerCorrect\<close> (\<^verbatim>\<open>Compiler.cpp\<close>): \<open>eprog\<close> is what the compiler
    requests of stack, meter and builder for a block; \<open>run_jit\<close> is what the emitted code does and \<open>run_ref\<close> what the
    machine does with the same requests. \<open>jit_main\<close> runs compiled code block by block, \<open>evm_step\<close> the machine
    instruction by instruction. The two agree, compiled code ends, gas only falls, blocks and jump table are right.
  \<^item> \<open>RunInvariant\<close>: the locale \<open>run_invariant\<close>: what every operation keeps, a run keeps. Its interpretations give that
    memory is paid for, that static calls leave the host alone, and what hosts keep.
  \<^item> \<open>HostRun\<close>, \<open>HostAgree\<close>: the host after a run, aborted runs included, and that a run depends on the callback for
    calls only at the messages it can send.
  \<^item> \<open>DataWord\<close>, \<open>JavaEffects\<close>, \<open>Wire\<close> (\<^verbatim>\<open>FvmDataWord.java\<close>, \<^verbatim>\<open>ByteUtil.java\<close>, \<^verbatim>\<open>SideEffects.java\<close>, \<^verbatim>\<open>ExecutionContext.java\<close>,
    \<^verbatim>\<open>FastVmTransactionResult.java\<close>, \<^verbatim>\<open>FastVmResultCode.java\<close>, \<^verbatim>\<open>TransactionKind.java\<close>, the codecs of
    \<^verbatim>\<open>org_aion_fastvm_FastVM.cpp\<close>): Java words, side effects, and the formats in which contexts, messages and results
    cross the border, with round trips.
  \<^item> \<open>JitRun\<close> (\<^verbatim>\<open>JIT.cpp\<close>): the code map, \<open>compile\<close> and \<open>execute\<close>. An execution is a run of the machine on the given
    code, whatever the map holds, if hashes do not collide.
  \<^item> \<open>Callback\<close>, \<open>Nesting\<close> (\<^verbatim>\<open>Callback.java\<close>, \<^verbatim>\<open>FastVM.java\<close>, \<^verbatim>\<open>CapabilitiesProvider.java\<close>, the callbacks of
    \<^verbatim>\<open>org_aion_fastvm_FastVM.cpp\<close>): the host. Contracts that call contracts: every run returns, callbacks restore what
    the caller relies on, failed calls leave the world as it was, and the depth limit bounds the nesting.
  \<^item> \<open>Transaction\<close> (\<^verbatim>\<open>FastVirtualMachine.java\<close>, \<^verbatim>\<open>TransactionUtil.java\<close>, \<^verbatim>\<open>TransactionResultUtil.java\<close>): what a transaction costs,
    commits and leaves behind.

  \<^bold>\<open>Fuel and bounds.\<close> \<open>jit_main\<close> counts blocks. \<open>exec_fuel\<close> is one more than the gas, times one more than the length of
  the code; every backward jump costs gas, so compiled code has ended by then, and with a negative amount of gas
  it ends in its first block (theory \<open>CompilerCorrect\<close>, and \<open>run_func_overdrawn\<close> of \<open>JitRun\<close>). Only the largest gas of 64 bits is
  excluded: a cost that does not fit is clamped to it. \<open>vm_call\<close> allows 129 nested calls; more make no difference
  (theory \<open>Nesting\<close>). Code is shorter than \<open>2 ^ 32\<close> bytes, or \<open>2 ^ 31\<close> when it comes from Java. The memory
  checks are right below \<open>2 ^ 33\<close> bytes, which holds for runs with at most \<open>2 ^ 47\<close> gas.

  \<^bold>\<open>Parameters and hypotheses.\<close> The kernel is the record \<open>ext_state\<close> of the operations of \<open>IExternalStateForFvm\<close> and
  \<open>IExternalCapabilities\<close>. \<open>es_ok\<close> and \<open>kernel_ok\<close> ask that addresses have 32 bytes and difficulties 16, that code is
  a Java array, and that a precompiled contract returns an output that can be encoded and no more energy than it got.
  Nothing is asked of its checks of energy limits, of its balances or of its storage. Whether internal transactions are equal
  is the kernel's decision. The platform is the record \<open>platform\<close>: byte order, content of fresh memory and of
  addresses and slots that are never set, the result of a generated division by 0, which is undefined, whether LLVM
  finds the function it compiled, and the size of its sections. A theorem that needs the function to be found says so.
  Hosts in the theorems about compiled code alone give back no more gas than a call got (\<open>host_gas_ok\<close>); the Java host
  does, by theory \<open>Nesting\<close>.

  \<^bold>\<open>Undefined behaviour.\<close> \<open>realloc\<close> and \<open>malloc\<close> succeed. When a Java callback throws, the native side reads what
  \<open>es_undefined\<close> gives. For messages, outputs and nested contexts of almost \<open>2 ^ 31\<close> bytes see \<open>Callback\<close>.

  \<^bold>\<open>Not modelled.\<close> The LLVM passes and code generator, beyond the lowering of divisions; LLVM types, names and debug
  output; the object cache on disk, which is off by default; statistics and dumps; the loading of the native
  library and the listing tool; the JSON interfaces in \<^verbatim>\<open>org.aion.solidity\<close>; the Solidity compiler in \<^verbatim>\<open>src/solidity\<close>, which
  the machine does not call; tests and benchmarks. The lock of \<open>FastVirtualMachine\<close> makes runs sequential, so one
  run at a time is modelled.
\<close>

end
